(* ===== verification/Prelude.thy ===== *)
theory Prelude imports Main "HOL-Library.Word" begin

text \<open>
  Shared vocabulary of the development: the C integer types, undefined behaviour as a value,
  the conversions of printf the program uses, byte order, and the lemmas on words and lists the
  component theories rest on.
\<close>

section \<open>C integers\<close>

type_synonym u8 = "8 word"
type_synonym u16 = "16 word"
type_synonym u32 = "32 word"
type_synonym u64 = "64 word"

text \<open>
  An \<open>int32_t\<close> that only carries a status, a file descriptor or a system call result is an
  \<^typ>\<open>int\<close>. A 64-bit quantity is kept as its bit pattern and read with \<^term>\<open>sint\<close> where
  the C type is signed.
\<close>

section \<open>Undefined behaviour\<close>

text \<open>
  Where the C program would leave the defined behaviour of the language (and crash or corrupt
  memory) or would never return, the model returns \<open>Inl\<close> of a fault instead of a value.
\<close>

datatype fault =
    OutOfBounds        \<comment> \<open>an access outside the object it names\<close>
  | NullDeref          \<comment> \<open>a null pointer given to code that reads through it\<close>
  | DivByZero          \<comment> \<open>integer division or remainder by zero\<close>
  | BadShift           \<comment> \<open>a shift count that is not below the width of the operand\<close>
  | UseUninit          \<comment> \<open>a value that was never stored is used\<close>
  | Dangling           \<comment> \<open>a block that is not, or no longer, allocated is used or freed\<close>
  | Hang               \<comment> \<open>a loop that never ends, or a lock nobody will release\<close>

type_synonym 'a res = "fault + 'a"

named_theorems res_iff \<comment> \<open>when a computation that may fault succeeds\<close>
named_theorems kvm_defs \<comment> \<open>definitions a component unfolds as a whole\<close>

definition res_bind :: "'a res \<Rightarrow> ('a \<Rightarrow> 'b res) \<Rightarrow> 'b res" where
  "res_bind m f = (case m of Inl e \<Rightarrow> Inl e | Inr x \<Rightarrow> f x)"

lemma res_bind_simps [simp]:
  "res_bind (Inl e) f = Inl e"
  "res_bind (Inr x) f = f x"
  by (simp_all add: res_bind_def)

lemma res_bind_Inr_iff [res_iff]:
  "res_bind m f = Inr y \<longleftrightarrow> (\<exists>x. m = Inr x \<and> f x = Inr y)"
  by (cases m) auto

lemma res_bind_Inl_iff [res_iff]:
  "res_bind m f = Inl e \<longleftrightarrow> m = Inl e \<or> (\<exists>x. m = Inr x \<and> f x = Inl e)"
  by (cases m) auto

lemma res_bind_cong [fundef_cong]:
  "m = m' \<Longrightarrow> (\<And>x. m' = Inr x \<Longrightarrow> f x = f' x) \<Longrightarrow> res_bind m f = res_bind m' f'"
  by (cases m') auto

text \<open>A loop over a list whose body may fault.\<close>

fun res_fold :: "('s \<Rightarrow> 'a \<Rightarrow> 's res) \<Rightarrow> 's \<Rightarrow> 'a list \<Rightarrow> 's res" where
  "res_fold f s [] = Inr s"
| "res_fold f s (x # xs) = res_bind (f s x) (\<lambda>s'. res_fold f s' xs)"

text \<open>
  A computation that may also never return: \<^term>\<open>None\<close> is then its value, and a loop of such
  computations is a \<open>partial_function\<close>.
\<close>

definition ro_bind :: "'a res option \<Rightarrow> ('a \<Rightarrow> 'b res option) \<Rightarrow> 'b res option" where
  "ro_bind m f = Option.bind m (\<lambda>r. case r of Inl e \<Rightarrow> Some (Inl e) | Inr x \<Rightarrow> f x)"

lemma ro_bind_simps [simp]:
  "ro_bind None f = None"
  "ro_bind (Some (Inl e)) f = Some (Inl e)"
  "ro_bind (Some (Inr x)) f = f x"
  by (simp_all add: ro_bind_def)

lemma ro_bind_Inr_iff [res_iff]:
  "ro_bind m f = Some (Inr y) \<longleftrightarrow> (\<exists>x. m = Some (Inr x) \<and> f x = Some (Inr y))"
  by (cases m) (auto simp: ro_bind_def split: sum.splits)

lemma ro_bind_assoc: "ro_bind (ro_bind m f) g = ro_bind m (\<lambda>x. ro_bind (f x) g)"
  by (cases m) (auto simp: ro_bind_def split: sum.splits)

lemma ro_bind_mono [partial_function_mono]:
  assumes "mono_option B" and "\<And>y. mono_option (\<lambda>f. C y f)"
  shows "mono_option (\<lambda>f. ro_bind (B f) (\<lambda>y. C y f))"
  unfolding ro_bind_def using assms
  by (intro bind_mono) (auto intro!: partial_function_mono split: sum.splits simp: monotone_on_def flat_ord_def fun_ord_def)

section \<open>Numbers as text\<close>

text \<open>
  The conversions \<open>%d\<close>, \<open>%lu\<close> (base 10) and \<open>%x\<close> (base 16) of a non-negative number, and
  the number a digit string denotes.
\<close>

definition digit_char :: "nat \<Rightarrow> char" where
  "digit_char d = char_of (if d < 10 then 48 + d else 87 + d)"

definition char_digit :: "char \<Rightarrow> nat" where
  "char_digit c = (let n = of_char c in if n < 58 then n - 48 else n - 87)"

function (sequential) base_string :: "nat \<Rightarrow> nat \<Rightarrow> string" where
  "base_string b n =
     (if b < 2 \<or> n < b then [digit_char n]
      else base_string b (n div b) @ [digit_char (n mod b)])"
  by pat_completeness auto
termination
  by (relation "measure snd") auto

declare base_string.simps [simp del]

definition base_value :: "nat \<Rightarrow> string \<Rightarrow> nat" where
  "base_value b s = foldl (\<lambda>v c. b * v + char_digit c) 0 s"

definition dec_string :: "nat \<Rightarrow> string" where
  "dec_string n = base_string 10 n"

definition hex_string :: "nat \<Rightarrow> string" where
  "hex_string n = base_string 16 n"

text \<open>A minimum field width with the flag \<open>0\<close>, as in \<open>%02x\<close>.\<close>

definition zero_pad :: "nat \<Rightarrow> string \<Rightarrow> string" where
  "zero_pad w s = replicate (w - length s) (CHR ''0'') @ s"

text \<open>\<open>%d\<close> of an \<open>int32_t\<close>.\<close>

definition int_string :: "int \<Rightarrow> string" where
  "int_string i = (if i < 0 then CHR ''-'' # dec_string (nat (- i)) else dec_string (nat i))"

section \<open>Byte order\<close>

text \<open>A little-endian store of a 64-bit word, byte by byte, and the load back.\<close>

definition le64 :: "u64 \<Rightarrow> u8 list" where
  "le64 w = map (\<lambda>i. ucast (drop_bit (8 * i) w)) [0..<8]"

fun of_le :: "u8 list \<Rightarrow> nat" where
  "of_le [] = 0"
| "of_le (b # bs) = unat b + 256 * of_le bs"

section \<open>Lemmas\<close>

subsection \<open>Digits\<close>

lemma char_digit_digit_char [simp]: "d < 16 \<Longrightarrow> char_digit (digit_char d) = d"
  by (simp add: char_digit_def digit_char_def Let_def of_char_of)

lemma base_value_snoc [simp]: "base_value b (s @ [c]) = b * base_value b s + char_digit c"
  by (simp add: base_value_def)

lemma base_value_Nil [simp]: "base_value b [] = 0"
  by (simp add: base_value_def)

lemma base_value_base_string:
  "2 \<le> b \<Longrightarrow> b \<le> 16 \<Longrightarrow> base_value b (base_string b n) = n"
proof (induction b n rule: base_string.induct)
  case (1 b n)
  show ?case
  proof (cases "n < b")
    case True
    with 1 show ?thesis
      by (simp add: base_string.simps [of b n] base_value_def)
  next
    case False
    with 1 have ih: "base_value b (base_string b (n div b)) = n div b"
      by simp
    have "n mod b < 16"
      using "1.prems" mod_less_divisor [of b n] by linarith
    with False 1(2) ih show ?thesis
      by (simp add: base_string.simps [of b n])
  qed
qed

lemma base_string_nonempty [simp]: "base_string b n \<noteq> []"
  by (subst base_string.simps) simp

lemma set_base_string:
  "2 \<le> b \<Longrightarrow> set (base_string b n) \<subseteq> digit_char ` {..<b}"
proof (induction b n rule: base_string.induct)
  case (1 b n)
  then show ?case
    by (subst base_string.simps) auto
qed

lemma base_value_append:
  "base_value b (s @ t) = base_value b s * b ^ length t + base_value b t"
proof (induction t rule: rev_induct)
  case Nil
  show ?case by simp
next
  case (snoc c t)
  have "base_value b (s @ t @ [c]) = b * base_value b (s @ t) + char_digit c"
    by (simp only: append_assoc [symmetric] base_value_snoc)
  with snoc show ?case by (simp add: algebra_simps)
qed

lemma base_value_zeros [simp]: "base_value b (replicate n (CHR ''0'')) = 0"
proof (induction n)
  case 0
  show ?case by simp
next
  case (Suc n)
  have "base_value b (replicate (Suc n) (CHR ''0'')) = base_value b (replicate n (CHR ''0'') @ [CHR ''0''])"
    by (simp only: replicate_append_same [symmetric] replicate_Suc)
  with Suc show ?case by (simp add: char_digit_def)
qed

lemma base_value_zero_pad [simp]: "base_value b (zero_pad w s) = base_value b s"
  by (simp add: zero_pad_def base_value_append)

lemma length_zero_pad [simp]: "length (zero_pad w s) = max w (length s)"
  by (simp add: zero_pad_def)

lemma base_string_length_le:
  "2 \<le> b \<Longrightarrow> 0 < k \<Longrightarrow> n < b ^ k \<Longrightarrow> length (base_string b n) \<le> k"
proof (induction k arbitrary: n)
  case 0
  then show ?case by simp
next
  case (Suc k)
  show ?case
  proof (cases "n < b")
    case True
    then show ?thesis by (simp add: base_string.simps [of b n])
  next
    case False
    with Suc.prems have "0 < k" by (cases k) auto
    moreover have "n div b < b ^ k"
      using Suc.prems by (simp add: less_mult_imp_div_less mult.commute)
    ultimately have "length (base_string b (n div b)) \<le> k"
      using Suc.IH Suc.prems(1) by blast
    with False Suc.prems(1) show ?thesis by (simp add: base_string.simps [of b n])
  qed
qed

subsection \<open>Lists\<close>

lemma take_Suc_update: "n < length xs \<Longrightarrow> take (Suc n) (xs[n := y]) = take n xs @ [y]"
  by (simp add: take_Suc_conv_app_nth)

lemma take_all_iff_takeWhile:
  "n \<le> length xs \<Longrightarrow> (\<forall>x \<in> set (take n xs). P x) \<longleftrightarrow> n \<le> length (takeWhile P xs)"
proof (induction xs arbitrary: n)
  case Nil
  then show ?case by simp
next
  case (Cons x xs)
  then show ?case by (cases n) auto
qed

lemma split_takeWhile:
  obtains "takeWhile P xs = xs" | c t where "xs = takeWhile P xs @ c # t" and "\<not> P c"
  using takeWhile_dropWhile_id [of P xs] hd_dropWhile [of P xs]
  by (metis append.right_neutral list.collapse)

subsection \<open>Words\<close>

lemma unat_u64_less: "unat (w :: u64) < 2 ^ 64"
  using unsigned_less [of w, where 'a = nat] by simp

lemma unat_u32_less: "unat (w :: u32) < 2 ^ 32"
  using unsigned_less [of w, where 'a = nat] by simp

lemma sint_le_unat: "sint (w :: u64) \<le> int (unat w)"
proof -
  have "- (2 ^ 63) \<le> uint w" by (rule order_trans [OF _ uint_ge_0]) simp
  then have "signed_take_bit 63 (uint w) \<le> uint w"
    by (simp only: signed_take_bit_int_less_eq_self_iff)
  then show ?thesis by (simp add: sint_uint)
qed

lemma sint_small_u32: "unat (w :: u32) < 2 ^ 31 \<Longrightarrow> sint w = int (unat w)"
proof -
  assume w: "unat w < 2 ^ 31"
  have "- (2 ^ 31) \<le> uint w" by (rule order_trans [OF _ uint_ge_0]) simp
  moreover have "int (unat w) < int (2 ^ 31)" using w by (simp only: of_nat_less_iff)
  ultimately have "signed_take_bit 31 (uint w) = uint w"
    by (intro signed_take_bit_int_eq_self) simp_all
  then show ?thesis by (simp add: sint_uint)
qed

lemma sint_small_u64: "unat (w :: u64) < 2 ^ 63 \<Longrightarrow> sint w = int (unat w)"
proof -
  assume w: "unat w < 2 ^ 63"
  have "- (2 ^ 63) \<le> uint w" by (rule order_trans [OF _ uint_ge_0]) simp
  moreover have "int (unat w) < int (2 ^ 63)" using w by (simp only: of_nat_less_iff)
  ultimately have "signed_take_bit 63 (uint w) = uint w"
    by (intro signed_take_bit_int_eq_self) simp_all
  then show ?thesis by (simp add: sint_uint)
qed

lemma unat_of_nat_u32: "x < 2 ^ 32 \<Longrightarrow> unat (word_of_nat x :: u32) = x"
  by (simp add: unat_of_nat)

lemma unat_of_nat_u64: "x < 2 ^ 64 \<Longrightarrow> unat (word_of_nat x :: u64) = x"
  by (simp add: unat_of_nat)

lemma ucast_via_nat: "(ucast (w :: u64) :: u8) = word_of_nat (unat w)"
  by (rule bit_word_eqI) (simp add: bit_simps)

lemma unat_take_bit: "unat (take_bit n (w :: u64)) = unat w mod 2 ^ n"
  by (simp only: unsigned_take_bit_eq) (simp add: take_bit_eq_mod)

lemma unat_u8_less: "unat (w :: u8) < 256"
  using unsigned_less [of w, where 'a = nat] by simp

lemma unat_ucast_u32: "unat (ucast (w :: u64) :: u32) = unat w mod 2 ^ 32"
  by (simp only: unsigned_ucast_eq) (simp add: take_bit_eq_mod)

subsection \<open>Little-endian words\<close>

lemma length_le64 [simp]: "length (le64 w) = 8"
  by (simp add: le64_def)

lemma nth_le64 [simp]: "i < 8 \<Longrightarrow> le64 w ! i = ucast (drop_bit (8 * i) w)"
  by (simp add: le64_def)

lemma of_le_digits: "of_le (map (\<lambda>i. word_of_nat (n div 256 ^ i)) [0..<k]) = n mod 256 ^ k"
proof (induction k arbitrary: n)
  case 0
  show ?case by simp
next
  case (Suc k)
  have "map (\<lambda>i. word_of_nat (n div 256 ^ i) :: u8) [0..<Suc k]
      = word_of_nat n # map (\<lambda>i. word_of_nat (n div 256 div 256 ^ i)) [0..<k]"
    by (simp add: upt_conv_Cons map_Suc_upt [symmetric] div_mult2_eq del: upt_Suc)
  then show ?case
    using Suc [of "n div 256"] by (simp add: unat_of_nat mod_mult2_eq)
qed

end
