(* ===== verification/Containers.thy ===== *)
theory Containers imports Prelude begin

text \<open>
  \<open>src/core/containers.c\<close> and \<open>src/core/containers.h\<close>: the growable array the macros
  \<open>GEN_DEF_VEC\<close> and \<open>GEN_IMPL_VEC\<close> generate for \<open>uint64_t\<close> and for \<open>VCpu\<close>. The model is
  polymorphic in the element type, as the macro is. \<open>len\<close> and \<open>capacity\<close> are 64-bit words and
  wrap as \<open>size_t\<close> does; \<open>tab\<close> is the block \<open>malloc\<close> returned, one cell per element, with
  \<^term>\<open>None\<close> for a cell nothing was stored in. An access outside the block is the fault
  \<^term>\<open>OutOfBounds\<close>. Allocation is taken to succeed.

  The interface the other components use is the locale \<open>growable\<close>; it is interpreted on the
  operations below with the abstraction \<open>vec_list\<close> and the invariant \<open>vec_grown\<close>.
\<close>

section \<open>The generated type and its operations\<close>

record 'a vec =
  tab :: "'a option list"
  len :: u64
  capacity :: u64

definition vec_new :: "'a vec" where
  "vec_new = \<lparr>tab = replicate 1 None, len = 0, capacity = 1\<rparr>"

text \<open>
  \<open>vec_resize\<close> refuses to shrink. It copies \<open>len\<close> cells of the old block into the new one:
  \<open>memcpy\<close> is defined only if both blocks have that many.
\<close>

definition vec_resize :: "'a vec \<Rightarrow> u64 \<Rightarrow> (int \<times> 'a vec) res" where
  "vec_resize vec cap =
     (if cap \<le> capacity vec then Inr (-1, vec)
      else if unat (len vec) \<le> length (tab vec) \<and> unat (len vec) \<le> unat cap
      then Inr (0, vec\<lparr>capacity := cap,
                       tab := take (unat (len vec)) (tab vec)
                              @ replicate (unat cap - unat (len vec)) None\<rparr>)
      else Inl OutOfBounds)"

text \<open>The element stores and loads \<open>vec->tab[i] = x\<close> and \<open>vec->tab[i]\<close>.\<close>

definition vec_put :: "'a vec \<Rightarrow> nat \<Rightarrow> 'a \<Rightarrow> 'a vec res" where
  "vec_put vec i x =
     (if i < length (tab vec) then Inr (vec\<lparr>tab := (tab vec)[i := Some x]\<rparr>) else Inl OutOfBounds)"

definition vec_get :: "'a vec \<Rightarrow> nat \<Rightarrow> 'a res" where
  "vec_get vec i =
     (if i < length (tab vec)
      then (case tab vec ! i of None \<Rightarrow> Inl UseUninit | Some x \<Rightarrow> Inr x)
      else Inl OutOfBounds)"

definition vec_append :: "'a vec \<Rightarrow> 'a \<Rightarrow> 'a vec res" where
  "vec_append vec value =
     (let vec1 = vec\<lparr>len := len vec + 1\<rparr> in
      res_bind
        (if capacity vec1 \<le> len vec1
         then res_bind (vec_resize vec1 (push_bit 1 (capacity vec1))) (\<lambda>r. Inr (snd r))
         else Inr vec1)
        (\<lambda>vec2. vec_put vec2 (unat (len vec2 - 1)) value))"

definition vec_pop :: "'a vec \<Rightarrow> 'a vec" where
  "vec_pop vec = vec\<lparr>len := len vec - 1\<rparr>"

section \<open>Abstraction and invariant\<close>

definition vec_size :: "'a vec \<Rightarrow> nat" where
  "vec_size v = unat (len v)"

definition vec_list :: "'a vec \<Rightarrow> 'a list" where
  "vec_list v = map the (take (vec_size v) (tab v))"

text \<open>
  The block has exactly \<open>capacity\<close> cells, there is always a free cell, and every cell below
  \<open>len\<close> was stored.
\<close>

definition vec_ok :: "'a vec \<Rightarrow> bool" where
  "vec_ok v \<longleftrightarrow> length (tab v) = unat (capacity v) \<and> len v < capacity v
     \<and> (\<forall>i < unat (len v). tab v ! i \<noteq> None)"

text \<open>Growth is by doubling from at most four cells, so the block is never much too large.\<close>

definition vec_grown :: "'a vec \<Rightarrow> bool" where
  "vec_grown v \<longleftrightarrow> vec_ok v \<and> unat (capacity v) \<le> 2 * vec_size v + 4"

definition vec_limit :: nat where
  "vec_limit = 2 ^ 61"

section \<open>The interface\<close>

locale growable =
  fixes new :: 'v
    and append :: "'v \<Rightarrow> 'a \<Rightarrow> 'v res"
    and get :: "'v \<Rightarrow> nat \<Rightarrow> 'a res"
    and put :: "'v \<Rightarrow> nat \<Rightarrow> 'a \<Rightarrow> 'v res"
    and size :: "'v \<Rightarrow> nat"
    and elems :: "'v \<Rightarrow> 'a list"
    and invar :: "'v \<Rightarrow> bool"
    and limit :: nat
  assumes new_invar: "invar new"
    and new_elems: "elems new = []"
    and size_elems: "invar v \<Longrightarrow> size v = length (elems v)"
    and append_law: "invar v \<Longrightarrow> length (elems v) < limit \<Longrightarrow>
          \<exists>v'. append v x = Inr v' \<and> invar v' \<and> elems v' = elems v @ [x]"
    and get_law: "invar v \<Longrightarrow> i < size v \<Longrightarrow> get v i = Inr (elems v ! i)"
    and put_law: "invar v \<Longrightarrow> i < size v \<Longrightarrow>
          \<exists>v'. put v i x = Inr v' \<and> invar v' \<and> elems v' = (elems v)[i := x]"
begin

lemma append_size:
  assumes "invar v" and "length (elems v) < limit" and "append v x = Inr v'"
  shows "size v' = Suc (size v)"
  using append_law [OF assms(1,2), of x] assms(1,3) by (auto simp: size_elems)

text \<open>A loop of appends never faults and adds its elements in order.\<close>

lemma append_all:
  "invar v \<Longrightarrow> length (elems v) + length xs \<le> limit \<Longrightarrow>
    \<exists>v'. res_fold append v xs = Inr v' \<and> invar v' \<and> elems v' = elems v @ xs"
proof (induction xs arbitrary: v)
  case Nil
  then show ?case by simp
next
  case (Cons x xs)
  from Cons.prems have "length (elems v) < limit" by simp
  with Cons.prems(1) obtain v1
    where v1: "append v x = Inr v1" "invar v1" "elems v1 = elems v @ [x]"
    using append_law by blast
  with Cons.prems(2) have "length (elems v1) + length xs \<le> limit" by simp
  from Cons.IH [OF v1(2) this] v1 show ?case by auto
qed

lemma append_all_new:
  "length xs \<le> limit \<Longrightarrow> \<exists>v'. res_fold append new xs = Inr v' \<and> invar v' \<and> elems v' = xs"
  using append_all [of new xs] by (simp add: new_invar new_elems)

lemma get_append_same:
  assumes "invar v" and "length (elems v) < limit" and "append v x = Inr v'"
  shows "get v' (size v) = Inr x"
proof -
  from append_law [OF assms(1,2), of x] assms(3)
  have v': "invar v'" "elems v' = elems v @ [x]" by auto
  with assms(1) have "size v < size v'" by (simp add: size_elems)
  with v' assms(1) show ?thesis by (simp add: get_law size_elems)
qed

lemma get_append_other:
  assumes "invar v" and "length (elems v) < limit" and "append v x = Inr v'" and "i < size v"
  shows "get v' i = get v i"
proof -
  from append_law [OF assms(1,2), of x] assms(3)
  have v': "invar v'" "elems v' = elems v @ [x]" by auto
  with assms(1,4) have "i < size v'" by (simp add: size_elems)
  with v' assms(1,4) show ?thesis by (simp add: get_law size_elems nth_append)
qed

end

section \<open>The implementation meets the interface\<close>

lemma vec_ok_new: "vec_ok vec_new"
  by (simp add: vec_ok_def vec_new_def)

lemma vec_grown_new: "vec_grown vec_new"
  by (simp add: vec_grown_def vec_ok_new) (simp add: vec_new_def)

lemma vec_list_new [simp]: "vec_list vec_new = []"
  by (simp add: vec_list_def vec_new_def vec_size_def)

lemma vec_okD:
  assumes "vec_ok v"
  shows "length (tab v) = unat (capacity v)" and "unat (len v) < unat (capacity v)"
    and "\<And>i. i < unat (len v) \<Longrightarrow> \<exists>x. tab v ! i = Some x"
  using assms by (auto simp: vec_ok_def word_less_nat_alt)

lemma length_vec_list: "vec_ok v \<Longrightarrow> length (vec_list v) = vec_size v"
  using vec_okD(1,2) [of v] by (simp add: vec_list_def vec_size_def)

lemma vec_ok_len_Suc:
  assumes "vec_ok v"
  shows "unat (len v + 1) = Suc (unat (len v))"
  using vec_okD(2) [OF assms] unat_u64_less [of "capacity v"] by (simp add: unat_word_ariths)

lemma unat_double: "unat c < 2 ^ 63 \<Longrightarrow> unat ((c :: u64) * 2) = 2 * unat c"
  by (simp add: unat_word_ariths)

text \<open>
  One append: with the free cell the invariant promises, the copy of a resize stays inside the
  old block even though \<open>len\<close> was already incremented, and the store stays inside the new one.
\<close>

lemma vec_append_eq:
  assumes ok: "vec_ok v" and small: "unat (capacity v) < 2 ^ 63"
  defines "n \<equiv> unat (len v)" and "c \<equiv> unat (capacity v)"
  shows "vec_append v x = Inr
    (if Suc n = c
     then v\<lparr>len := len v + 1, capacity := push_bit 1 (capacity v),
            tab := (tab v @ replicate c None)[n := Some x]\<rparr>
     else v\<lparr>len := len v + 1, tab := (tab v)[n := Some x]\<rparr>)"
proof -
  note d = vec_okD [OF ok]
  have le: "capacity v \<le> len v + 1 \<longleftrightarrow> Suc n = c"
    using d(2) by (auto simp: word_le_nat_alt vec_ok_len_Suc [OF ok] n_def c_def)
  have grow: "\<not> push_bit 1 (capacity v) \<le> capacity v"
    using d(2) by (simp add: word_le_nat_alt unat_double [OF small])
  have idx: "unat (len v + 1 - 1) = n" by (simp add: n_def)
  show ?thesis
    using d(1,2) grow le idx
    by (auto simp: vec_append_def Let_def vec_resize_def vec_put_def vec_ok_len_Suc [OF ok]
        unat_double [OF small] n_def c_def)
qed

lemma vec_append_refines:
  assumes ok: "vec_ok v" and small: "unat (capacity v) < 2 ^ 63"
  obtains v' where "vec_append v x = Inr v'" and "vec_ok v'" and "vec_list v' = vec_list v @ [x]"
    and "vec_size v' = Suc (vec_size v)"
    and "unat (capacity v') = (if Suc (vec_size v) = unat (capacity v) then 2 else 1) * unat (capacity v)"
proof -
  obtain v' where v': "vec_append v x = Inr v'" using vec_append_eq [OF ok small] by blast
  note d = vec_okD [OF ok] and s = vec_ok_len_Suc [OF ok] and dbl = unat_double [OF small]
  show thesis
  proof (rule that [OF v'])
    show "vec_ok v'"
      using v' d unfolding vec_append_eq [OF ok small]
      by (auto simp: vec_ok_def word_less_nat_alt s dbl nth_list_update nth_append less_Suc_eq)
    have "take (Suc (unat (len v))) (tab v') = take (unat (len v)) (tab v) @ [Some x]"
      using v' d(1,2) take_Suc_update [of "unat (len v)" "tab v"]
        take_Suc_update [of "unat (len v)" "tab v @ replicate (unat (capacity v)) None"]
      unfolding vec_append_eq [OF ok small] by (auto split: if_splits)
    moreover have "unat (len v') = Suc (unat (len v))"
      using v' s unfolding vec_append_eq [OF ok small] by (auto split: if_splits)
    ultimately show "vec_list v' = vec_list v @ [x]" by (simp add: vec_list_def vec_size_def)
    show "vec_size v' = Suc (vec_size v)"
      using v' unfolding vec_append_eq [OF ok small] by (auto simp: vec_size_def s)
    show "unat (capacity v') = (if Suc (vec_size v) = unat (capacity v) then 2 else 1) * unat (capacity v)"
      using v' unfolding vec_append_eq [OF ok small] by (auto simp: vec_size_def dbl)
  qed
qed

lemma vec_grown_small:
  "vec_grown v \<Longrightarrow> vec_size v < vec_limit \<Longrightarrow> unat (capacity v) < 2 ^ 63"
  by (simp add: vec_grown_def vec_limit_def)

lemma vec_grown_append:
  assumes "vec_grown v" and "vec_size v < vec_limit"
  shows "\<exists>v'. vec_append v x = Inr v' \<and> vec_grown v' \<and> vec_list v' = vec_list v @ [x]"
proof -
  from assms(1) have ok: "vec_ok v" by (simp add: vec_grown_def)
  obtain v' where v': "vec_append v x = Inr v'" "vec_ok v'" "vec_list v' = vec_list v @ [x]"
    "vec_size v' = Suc (vec_size v)"
    "unat (capacity v') = (if Suc (vec_size v) = unat (capacity v) then 2 else 1) * unat (capacity v)"
    using vec_append_refines [OF ok vec_grown_small [OF assms]] by metis
  with assms(1) show ?thesis by (auto simp: vec_grown_def split: if_splits)
qed

text \<open>A resize of a well-formed vector is defined, and only changes the capacity.\<close>

lemma vec_resize_keeps:
  assumes "vec_ok v"
  obtains r v' where "vec_resize v c = Inr (r, v')" and "vec_ok v'" and "vec_list v' = vec_list v"
    and "r = (if c \<le> capacity v then -1 else 0)" and "capacity v' = max c (capacity v)"
    and "len v' = len v"
proof -
  have fits: "unat (len v) \<le> unat c" if "\<not> c \<le> capacity v"
    using that vec_okD(2) [OF assms] by (simp add: word_le_nat_alt)
  show thesis
  proof (cases "c \<le> capacity v")
    case True
    with assms show thesis by (intro that [of "-1" v]) (simp_all add: vec_resize_def max_def)
  next
    case False
    let ?v = "v\<lparr>capacity := c, tab := take (unat (len v)) (tab v) @ replicate (unat c - unat (len v)) None\<rparr>"
    have "vec_resize v c = Inr (0, ?v)"
      using False fits vec_okD [OF assms] by (simp add: vec_resize_def)
    moreover have "vec_ok ?v"
      using False fits vec_okD [OF assms]
      by (auto simp: vec_ok_def word_less_nat_alt word_le_nat_alt nth_append)
    moreover have "vec_list ?v = vec_list v"
      using vec_okD [OF assms] by (simp add: vec_list_def vec_size_def)
    ultimately show thesis using False by (intro that [of 0 ?v]) (simp_all add: max_def)
  qed
qed

lemma vec_get_nth: "vec_ok v \<Longrightarrow> i < vec_size v \<Longrightarrow> vec_get v i = Inr (vec_list v ! i)"
  using vec_okD [of v] by (force simp: vec_get_def vec_list_def vec_size_def)

lemma vec_put_nth:
  assumes "vec_grown v" and "i < vec_size v"
  shows "\<exists>v'. vec_put v i x = Inr v' \<and> vec_grown v' \<and> vec_list v' = (vec_list v)[i := x]"
proof -
  have ok: "vec_ok v" using assms(1) by (simp add: vec_grown_def)
  note d = vec_okD [OF ok]
  let ?v = "v\<lparr>tab := (tab v)[i := Some x]\<rparr>"
  have "vec_put v i x = Inr ?v" using assms(2) d by (simp add: vec_put_def vec_size_def)
  moreover have "vec_grown ?v"
    using assms d by (auto simp: vec_grown_def vec_ok_def vec_size_def nth_list_update)
  moreover have "vec_list ?v = (vec_list v)[i := x]"
    by (simp add: vec_list_def vec_size_def take_update_swap map_update)
  ultimately show ?thesis by blast
qed

interpretation cvec: growable vec_new vec_append vec_get vec_put vec_size vec_list vec_grown vec_limit
proof unfold_locales
  show "vec_grown vec_new" by (rule vec_grown_new)
  show "vec_list vec_new = []" by simp
next
  fix v :: "'a vec" assume g: "vec_grown v"
  then show size: "vec_size v = length (vec_list v)" by (simp add: vec_grown_def length_vec_list)
  show "\<exists>v'. vec_append v x = Inr v' \<and> vec_grown v' \<and> vec_list v' = vec_list v @ [x]"
    if "length (vec_list v) < vec_limit" for x
    using vec_grown_append [OF g] that size by simp
  show "vec_get v i = Inr (vec_list v ! i)" if "i < vec_size v" for i
    using g that by (simp add: vec_grown_def vec_get_nth)
  show "\<exists>v'. vec_put v i x = Inr v' \<and> vec_grown v' \<and> vec_list v' = (vec_list v)[i := x]"
    if "i < vec_size v" for i x
    using vec_put_nth [OF g that] .
qed

text \<open>A loop \<open>for (i = 0; i < vec->len; i++)\<close> that only reads \<open>vec->tab[i]\<close> visits every element in order.\<close>

lemma vec_iterate_res:
  assumes "vec_ok vs"
  shows "res_fold (\<lambda>s i. res_bind (vec_get vs i) (\<lambda>v. f v s)) s [0..<vec_size vs] = res_fold (\<lambda>s v. f v s) s (vec_list vs)"
proof -
  have "res_fold (\<lambda>s i. res_bind (vec_get vs i) (\<lambda>v. f v s)) s (is) = res_fold (\<lambda>s v. f v s) s (map ((!) (vec_list vs)) is)"
    if "\<And>i. i \<in> set is \<Longrightarrow> i < vec_size vs" for "is"
    using that vec_get_nth [OF assms] by (induction "is" arbitrary: s) simp_all
  from this [of "[0..<vec_size vs]"] show ?thesis
    using length_vec_list [OF assms] map_nth [of "vec_list vs"] by simp
qed

lemma vec_iterate:
  assumes "vec_ok vs"
  shows "res_fold (\<lambda>s i. res_bind (vec_get vs i) (\<lambda>v. Inr (f v s))) s [0..<vec_size vs] = Inr (fold f (vec_list vs) s)"
proof -
  have "res_fold (\<lambda>s v. Inr (f v s)) s xs = Inr (fold f xs s)" for xs by (induction xs arbitrary: s) simp_all
  then show ?thesis using vec_iterate_res [OF assms, of "\<lambda>v s. Inr (f v s)" s] by simp
qed

section \<open>Properties\<close>

text \<open>\<open>vec_append\<close> refines appending to a list: from a well-formed vector whose capacity can
  still be doubled it never accesses memory outside its block, keeps the vector well-formed, adds
  exactly the new element at the end, and its capacity stays or doubles.\<close>

theorem vec_append_refines_snoc:
  assumes "vec_ok v" and "unat (capacity v) < 2 ^ 63"
  shows "\<exists>v'. vec_append v x = Inr v' \<and> vec_ok v' \<and> vec_list v' = vec_list v @ [x]
     \<and> unat (capacity v') \<in> {unat (capacity v), 2 * unat (capacity v)}"
proof -
  obtain v' where "vec_append v x = Inr v'" "vec_ok v'" "vec_list v' = vec_list v @ [x]"
    "unat (capacity v') = (if Suc (vec_size v) = unat (capacity v) then 2 else 1) * unat (capacity v)"
    by (rule vec_append_refines [OF assms])
  then show ?thesis by (intro exI [of _ v']) simp
qed

theorem vec_append_refines_snoc_witness:
  "vec_ok (vec_new :: nat vec) \<and> (\<exists>v'. vec_append vec_new (7::nat) = Inr v' \<and> vec_ok v' \<and> vec_list v' = [7])"
proof -
  have ok: "vec_ok (vec_new :: nat vec)" by (rule vec_ok_new)
  moreover have small: "unat (capacity (vec_new :: nat vec)) < 2 ^ 63" by (simp add: vec_new_def)
  ultimately show ?thesis
    using vec_append_refines_snoc [OF ok small, of 7] by (simp, blast)
qed

text \<open>A vector built by a loop of appends holds exactly the appended elements, each readable
  at its index: what \<open>mini_kvm_parse_int_list\<close> and \<open>mini_kvm_add_vcpu\<close> rely on.\<close>

theorem vec_build_read_back:
  assumes "length xs \<le> vec_limit"
  shows "\<exists>v. res_fold vec_append vec_new xs = Inr v \<and> vec_size v = length xs
     \<and> (\<forall>i < length xs. vec_get v i = Inr (xs ! i))"
  using cvec.append_all_new [OF assms] by (metis cvec.get_law cvec.size_elems)

end
