(* ===== verification/Errors.thy ===== *)
theory Errors imports Prelude begin

text \<open>
  \<open>src/core/errors.h\<close> and \<open>src/core/constants.h\<close>: the status codes and the constants of the
  memory layout, the control registers and the page tables.
\<close>

section \<open>Status codes\<close>

datatype MiniKVMError =
    MINI_KVM_SUCCESS
  | MINI_KVM_INTERNAL_ERROR
  | MINI_KVM_UNRECOGNIZED_COMMAND
  | MINI_KVM_ARGS_FAILED
  | MINI_KVM_FAILED_FS_SETUP
  | MINI_KVM_FAILED_ALLOCATION
  | MINI_KVM_NOT_ENOUGH_MEMORY
  | MINI_KVM_WRONG_VERSION
  | MINI_KVM_NO_DEVICE
  | MINI_KVM_FAILED_VM_CREATION
  | MINI_KVM_FAILED_SOCKET_CREATION
  | MINI_KVM_FAILED_IOCTL
  | MINI_KVM_UNSUPPORTED_CAPS
  | MINI_KVM_FAILED_MEMORY_REGION_CREATION
  | MINI_KVM_FAILED_VCPU_CREATION
  | MINI_KVM_FAILED_RUN
  | MINI_KVM_STATUS_COMMAND_FAILED
  | MINI_KVM_STATUS_CMD_VM_NOT_PAUSED

text \<open>
  The value of an enumerator. A function whose status can also be a plain -1 (or any other
  \<open>int32_t\<close>) returns an \<^typ>\<open>int\<close>, and \<open>error_code\<close> is where the enum enters it.
\<close>

fun error_code :: "MiniKVMError \<Rightarrow> int" where
  "error_code MINI_KVM_SUCCESS = 0"
| "error_code MINI_KVM_INTERNAL_ERROR = 1"
| "error_code MINI_KVM_UNRECOGNIZED_COMMAND = 2"
| "error_code MINI_KVM_ARGS_FAILED = 3"
| "error_code MINI_KVM_FAILED_FS_SETUP = 4"
| "error_code MINI_KVM_FAILED_ALLOCATION = 5"
| "error_code MINI_KVM_NOT_ENOUGH_MEMORY = 6"
| "error_code MINI_KVM_WRONG_VERSION = 7"
| "error_code MINI_KVM_NO_DEVICE = 8"
| "error_code MINI_KVM_FAILED_VM_CREATION = 9"
| "error_code MINI_KVM_FAILED_SOCKET_CREATION = 10"
| "error_code MINI_KVM_FAILED_IOCTL = 11"
| "error_code MINI_KVM_UNSUPPORTED_CAPS = 12"
| "error_code MINI_KVM_FAILED_MEMORY_REGION_CREATION = 13"
| "error_code MINI_KVM_FAILED_VCPU_CREATION = 14"
| "error_code MINI_KVM_FAILED_RUN = 15"
| "error_code MINI_KVM_STATUS_COMMAND_FAILED = 16"
| "error_code MINI_KVM_STATUS_CMD_VM_NOT_PAUSED = 17"

section \<open>Constants\<close>

definition MINI_KVM_FS_ROOT_PATH :: string where
  [simp]: "MINI_KVM_FS_ROOT_PATH = ''/tmp/mini_kvm''"

definition MINI_KVM_MAX_VCPUS :: nat where
  [simp]: "MINI_KVM_MAX_VCPUS = 64"

definition PLM4_ADDR :: u64 where [simp]: "PLM4_ADDR = 0x1000"
definition PAGE_SIZE :: u64 where [simp]: "PAGE_SIZE = 0x1000"
definition MINIMUM_MEMORY_REQUIRED :: int where [simp]: "MINIMUM_MEMORY_REQUIRED = 0x5000"
definition BOOTLOADER_ADDR :: u64 where [simp]: "BOOTLOADER_ADDR = 0x4000"

definition CR0_PE :: u64 where [simp]: "CR0_PE = 0x1"
definition CR0_PG :: u64 where [simp]: "CR0_PG = 0x80000000"
definition CR4_PAE :: u64 where [simp]: "CR4_PAE = push_bit 5 1"
definition EFER_LME :: u64 where [simp]: "EFER_LME = push_bit 8 1"
definition EFER_LMA :: u64 where [simp]: "EFER_LMA = push_bit 10 1"

definition PT_ADDR_MASK :: u64 where [simp]: "PT_ADDR_MASK = 0xffffffffff000"
definition PT_RW :: u64 where [simp]: "PT_RW = push_bit 1 1"
definition PT_PRESENT :: u64 where [simp]: "PT_PRESENT = push_bit 0 1"
definition PT_PAGE_SIZE :: u64 where [simp]: "PT_PAGE_SIZE = push_bit 7 1"

section \<open>Lemmas\<close>

lemma error_code_inject [simp]: "error_code a = error_code b \<longleftrightarrow> a = b"
  by (cases a; cases b) simp_all

lemma error_code_nonneg [simp]: "0 \<le> error_code e"
  by (cases e) simp_all

lemma error_code_zero [simp]: "error_code e = 0 \<longleftrightarrow> e = MINI_KVM_SUCCESS"
  using error_code_inject [of e MINI_KVM_SUCCESS] by simp

end
