(* ===== verification/Kvm_Data.thy ===== *)
theory Kvm_Data imports Containers Errors begin

text \<open>
  The data of \<open>src/kvm/kvm.h\<close> and \<open>src/commands/status.h\<close>: the virtual machine, its virtual CPUs
  and the messages of the control socket. The structures of the kernel's header \<open>linux/kvm.h\<close> are
  modelled by the fields the program names; what else a structure holds is one opaque field the
  program never looks into. \<open>kvm->mem\<close> is the host address of the guest memory and \<open>guest\<close> what is
  stored there, by guest physical address; only addresses below \<open>mem_size\<close> are mapped.
\<close>

section \<open>Kernel structures\<close>

record kvm_regs =
  rax :: u64
  rbx :: u64
  rcx :: u64
  rdx :: u64
  rsi :: u64
  rdi :: u64
  rsp :: u64
  rbp :: u64
  r8 :: u64
  r9 :: u64
  r10 :: u64
  r11 :: u64
  r12 :: u64
  r13 :: u64
  r14 :: u64
  r15 :: u64
  rip :: u64
  rflags :: u64

record kvm_segment =
  seg_base :: u64
  seg_limit :: u32
  seg_selector :: u16
  seg_type :: u8
  seg_present :: u8
  seg_dpl :: u8
  seg_db :: u8
  seg_s :: u8
  seg_l :: u8
  seg_g :: u8
  seg_other :: "u8 list"

record kvm_sregs =
  sr_cs :: kvm_segment
  sr_ds :: kvm_segment
  sr_es :: kvm_segment
  sr_fs :: kvm_segment
  sr_gs :: kvm_segment
  sr_ss :: kvm_segment
  sr_cr0 :: u64
  sr_cr2 :: u64
  sr_cr3 :: u64
  sr_cr4 :: u64
  sr_efer :: u64
  sr_other :: "u8 list"

record kvm_userspace_memory_region =
  slot :: u32
  flags :: u32
  guest_phys_addr :: u64
  memory_size :: u64
  userspace_addr :: u64

text \<open>All-zero structures, as \<open>calloc\<close>, \<open>= {0}\<close> and \<open>memset\<close> make them.\<close>

definition zero_regs :: kvm_regs where
  "zero_regs = \<lparr>rax = 0, rbx = 0, rcx = 0, rdx = 0, rsi = 0, rdi = 0, rsp = 0, rbp = 0,
     r8 = 0, r9 = 0, r10 = 0, r11 = 0, r12 = 0, r13 = 0, r14 = 0, r15 = 0, rip = 0, rflags = 0\<rparr>"

definition zero_segment :: kvm_segment where
  "zero_segment = \<lparr>seg_base = 0, seg_limit = 0, seg_selector = 0, seg_type = 0, seg_present = 0,
     seg_dpl = 0, seg_db = 0, seg_s = 0, seg_l = 0, seg_g = 0, seg_other = []\<rparr>"

definition zero_sregs :: kvm_sregs where
  "zero_sregs = \<lparr>sr_cs = zero_segment, sr_ds = zero_segment, sr_es = zero_segment,
     sr_fs = zero_segment, sr_gs = zero_segment, sr_ss = zero_segment,
     sr_cr0 = 0, sr_cr2 = 0, sr_cr3 = 0, sr_cr4 = 0, sr_efer = 0, sr_other = []\<rparr>"

definition zero_region :: kvm_userspace_memory_region where
  "zero_region = \<lparr>slot = 0, flags = 0, guest_phys_addr = 0, memory_size = 0, userspace_addr = 0\<rparr>"

section \<open>The virtual machine\<close>

datatype VMState = MINI_KVM_PAUSED | MINI_KVM_RUNNING | MINI_KVM_SHUTDOWN

record VCpu =
  vcpu_fd :: int
  vcpu_id :: u32
  mem_region_size :: int
  kvm_run :: u64
  vcpu_regs :: kvm_regs
  vcpu_sregs :: kvm_sregs
  vcpu_thread :: u64
  vcpu_running :: int

definition zero_vcpu :: VCpu where
  "zero_vcpu = \<lparr>vcpu_fd = 0, vcpu_id = 0, mem_region_size = 0, kvm_run = 0,
     vcpu_regs = zero_regs, vcpu_sregs = zero_sregs, vcpu_thread = 0, vcpu_running = 0\<rparr>"

text \<open>
  \<open>pause_lock\<close> is whether the mutex of that name is locked: a default mutex of the C library is one
  lock word, which any thread may release. The PIT configuration is
  never written by the program and is left out; the other mutex (\<open>lock\<close>) is taken and released
  around one handler call by the only thread that uses it.
\<close>

record Kvm =
  kvm_name :: "string option"
  fs_path :: "string option"
  fs_fd :: int
  kvm_fd :: int
  vm_fd :: int
  mem_size :: u64
  mem :: u64
  guest :: "nat \<Rightarrow> u8"
  u_region :: kvm_userspace_memory_region
  vcpus :: "VCpu vec"
  sock :: int
  vm_state :: VMState
  paused :: u64
  pause_lock :: bool

text \<open>
  The structure \<open>calloc\<close> returns. \<open>vcpus\<close> is a null pointer there and is assigned before anything
  reads it; the enum value 0 is \<^term>\<open>MINI_KVM_PAUSED\<close>.
\<close>

definition zero_kvm :: Kvm where
  "zero_kvm = \<lparr>kvm_name = None, fs_path = None, fs_fd = 0, kvm_fd = 0, vm_fd = 0, mem_size = 0,
     mem = 0, guest = (\<lambda>_. 0), u_region = zero_region, vcpus = vec_new, sock = 0,
     vm_state = MINI_KVM_PAUSED, paused = 0, pause_lock = False\<rparr>"

section \<open>Messages\<close>

datatype MiniKvmStatusCommandType =
    MINI_KVM_COMMAND_NONE
  | MINI_KVM_COMMAND_PAUSE
  | MINI_KVM_COMMAND_RESUME
  | MINI_KVM_COMMAND_SHUTDOWN
  | MINI_KVM_COMMAND_SHOW_STATE
  | MINI_KVM_COMMAND_SHOW_REGS
  | MINI_KVM_COMMAND_DUMP_MEM
  | MINI_KVM_COMMAND_COUNT

record MiniKvmStatusCommand =
  cmd_type :: MiniKvmStatusCommandType
  cmd_vcpus :: u64
  cmd_mem_range :: "u64 list"
  cmd_pid :: int

text \<open>The four elements of \<open>int64_t mem_range[4]\<close> are kept as bit patterns.\<close>

definition zero_command :: MiniKvmStatusCommand where
  "zero_command = \<lparr>cmd_type = MINI_KVM_COMMAND_NONE, cmd_vcpus = 0,
     cmd_mem_range = [0, 0, 0, 0], cmd_pid = 0\<rparr>"

record MiniKvmStatusResult =
  res_cmd_type :: MiniKvmStatusCommandType
  res_error :: MiniKVMError
  res_vcpus :: u64
  res_regs :: "kvm_regs list"
  res_sregs :: "kvm_sregs list"
  res_state :: VMState

definition zero_result :: MiniKvmStatusResult where
  "zero_result = \<lparr>res_cmd_type = MINI_KVM_COMMAND_NONE, res_error = MINI_KVM_SUCCESS,
     res_vcpus = 0, res_regs = replicate MINI_KVM_MAX_VCPUS zero_regs,
     res_sregs = replicate MINI_KVM_MAX_VCPUS zero_sregs, res_state = MINI_KVM_PAUSED\<rparr>"

end
