(* ===== verification/Clib.thy ===== *)
theory Clib imports Prelude begin

text \<open>
  What the program uses of the C library on strings: a string is the list of its characters before
  the terminating NUL. \<open>strtoul\<close> (base 10) is as ISO C and glibc define it: leading white space and
  one sign are accepted, an out-of-range value gives \<open>ULONG_MAX\<close> with \<open>errno = ERANGE\<close>, and no
  digits give 0 with \<open>errno\<close> untouched.
\<close>

definition EINTR :: int where [simp]: "EINTR = 4"
definition EAGAIN :: int where [simp]: "EAGAIN = 11"
definition EINVAL :: int where [simp]: "EINVAL = 22"
definition ERANGE :: int where [simp]: "ERANGE = 34"

definition isdigit :: "char \<Rightarrow> bool" where
  "isdigit c = (48 \<le> (of_char c :: nat) \<and> (of_char c :: nat) \<le> 57)"

definition isspace :: "char \<Rightarrow> bool" where
  "isspace c = ((of_char c :: nat) = 32 \<or> (9 \<le> (of_char c :: nat) \<and> (of_char c :: nat) \<le> 13))"

fun strtoul_sign :: "string \<Rightarrow> bool \<times> string" where
  "strtoul_sign [] = (False, [])"
| "strtoul_sign (c # s) =
     (if c = CHR ''-'' then (True, s) else if c = CHR ''+'' then (False, s) else (False, c # s))"

definition strtoul :: "string \<Rightarrow> u64 \<times> int option" where
  "strtoul s =
     (let (neg, s1) = strtoul_sign (dropWhile isspace s);
          ds = takeWhile isdigit s1;
          v = base_value 10 ds
      in if ds = [] then (0, None)
         else if 2 ^ 64 \<le> v then (- 1, Some ERANGE)
         else (if neg then - word_of_nat v else word_of_nat v, None))"

text \<open>\<open>errno\<close> after a call that may set it.\<close>

definition errno_after :: "int \<Rightarrow> int option \<Rightarrow> int" where
  "errno_after old e = (case e of None \<Rightarrow> old | Some x \<Rightarrow> x)"

text \<open>\<open>strncmp(a, b, n) == 0\<close>: equal up to \<open>n\<close> characters or the end of both.\<close>

definition strncmp_eq :: "string \<Rightarrow> string \<Rightarrow> nat \<Rightarrow> bool" where
  "strncmp_eq a b n = (take n a = take n b)"

section \<open>Lemmas\<close>

lemma isdigit_simps [simp]:
  "\<not> isdigit (CHR '','')" "\<not> isdigit (CHR ''-'')" "\<not> isdigit (CHR ''+'')"
  "\<not> isdigit (CHR ''K'')" "\<not> isdigit (CHR ''M'')" "\<not> isdigit (CHR ''G'')"
  by (simp_all add: isdigit_def)

lemma isdigit_not_isspace: "isdigit c \<Longrightarrow> \<not> isspace c"
  by (auto simp: isdigit_def isspace_def)

lemma isdigit_digit_char [simp]: "d < 10 \<Longrightarrow> isdigit (digit_char d)"
  by (simp add: isdigit_def digit_char_def of_char_of)

lemma isdigit_dec_string: "c \<in> set (dec_string n) \<Longrightarrow> isdigit c"
  using set_base_string [of 10 n] by (auto simp: dec_string_def)

lemma dec_string_nonempty [simp]: "dec_string n \<noteq> []"
  by (simp add: dec_string_def)

lemma base_value_dec_string [simp]: "base_value 10 (dec_string n) = n"
  by (simp add: dec_string_def base_value_base_string)

text \<open>On text that starts with a digit, \<open>strtoul\<close> reads the leading digits.\<close>

lemma strtoul_digits:
  assumes "ds \<noteq> []" and "\<And>c. c \<in> set ds \<Longrightarrow> isdigit c" and "t = [] \<or> \<not> isdigit (hd t)"
  shows "strtoul (ds @ t) =
    (if 2 ^ 64 \<le> base_value 10 ds then (- 1, Some ERANGE) else (word_of_nat (base_value 10 ds), None))"
proof -
  obtain c s where ds: "ds = c # s" using assms(1) by (cases ds) auto
  with assms(2) have c: "isdigit c" by simp
  then have "dropWhile isspace (ds @ t) = ds @ t"
    using ds isdigit_not_isspace by simp
  moreover have "strtoul_sign (ds @ t) = (False, ds @ t)"
    using ds c by auto
  moreover have "takeWhile isdigit (ds @ t) = ds"
    using assms(2,3) by (cases t) auto
  ultimately show ?thesis using assms(1) by (simp add: strtoul_def)
qed

lemma strtoul_no_digits:
  "\<not> isdigit c \<Longrightarrow> \<not> isspace c \<Longrightarrow> c \<noteq> CHR ''-'' \<Longrightarrow> c \<noteq> CHR ''+'' \<Longrightarrow> strtoul (c # s) = (0, None)"
  by (simp add: strtoul_def)

lemma strtoul_Nil: "strtoul [] = (0, None)"
  by (simp add: strtoul_def)

lemma strncmp_eq_full: "strncmp_eq a b (length a) \<longleftrightarrow> take (length a) b = a"
  by (auto simp: strncmp_eq_def)

section \<open>Text\<close>

definition nl :: string where [simp]: "nl = [CHR 0x0A]"

definition tab_char :: string where "tab_char = [CHR 0x09]"

end
