(* ===== verification/Os.thy ===== *)
theory Os imports Kvm_Data Clib begin

text \<open>
  The operating system as the program sees it. The kernel (with KVM), the file system, the sockets
  and the threads are not part of the repository: they are a parameter \<open>env\<close> of the model, which
  answers each call and may take all calls before it into account. Nothing is assumed of the
  answers unless a theorem says so. The world of the process is \<open>errno\<close> and the calls made so far,
  so that a theorem can speak of what was requested and in which order. Log output is left out of
  the calls.
\<close>

section \<open>Calls\<close>

datatype kvm_cap = KVM_CAP_USER_MEMORY | KVM_CAP_SET_TSS_ADDR | KVM_CAP_EXT_CPUID

datatype ioctl_req =
    KVM_GET_API_VERSION
  | KVM_CREATE_VM
  | KVM_CHECK_EXTENSION kvm_cap
  | KVM_SET_TSS_ADDR u64
  | KVM_SET_IDENTITY_MAP_ADDR u64
  | KVM_SET_USER_MEMORY_REGION kvm_userspace_memory_region
  | KVM_CREATE_IRQCHIP
  | KVM_CREATE_PIT2
  | KVM_CREATE_VCPU u32
  | KVM_GET_VCPU_MMAP_SIZE
  | KVM_GET_SUPPORTED_CPUID nat
  | KVM_SET_CPUID2 "u8 list"
  | KVM_SET_REGS kvm_regs
  | KVM_GET_REGS
  | KVM_SET_SREGS kvm_sregs
  | KVM_GET_SREGS

datatype open_mode = O_RDWR | O_RDONLY | O_DIRECTORY | O_CREAT_TRUNC_WRONLY

datatype file_tree = Plain_file | Directory "(string \<times> file_tree) list"

datatype syscall =
    Open string open_mode
  | Openat int string open_mode
  | Close int
  | Read int nat
  | Write int "u8 list"
  | Stat string
  | Mkdir string
  | Mkdirat int string
  | Ftw string             \<comment> \<open>what \<open>nftw\<close> finds below a path\<close>
  | Remove string
  | Signal int             \<comment> \<open>installs the handler that stores the number in \<open>sig_status\<close>\<close>
  | Kill int int
  | Getpid
  | Ioctl int ioctl_req
  | Mmap_anonymous u64
  | Mmap_shared int int
  | Munmap u64 u64
  | Socket bool            \<comment> \<open>whether \<open>SOCK_NONBLOCK\<close> is given\<close>
  | Bind int string
  | Listen int
  | Accept int
  | Connect int string
  | Send_cmd int MiniKvmStatusCommand
  | Send_res int MiniKvmStatusResult
  | Recv_cmd int
  | Recv_res int
  | Fopen_read string      \<comment> \<open>with what the file holds\<close>
  | Fopen_write string
  | Fclose_write string
  | Pthread_create nat
  | Pthread_kill u64 int
  | Pthread_join u64

text \<open>
  An answer: the return value (a pointer, for \<open>mmap\<close>), the \<open>errno\<close> of a failure, and what the
  call stored through its pointer arguments. \<open>pthread_join\<close> returns when the thread has; the answer
  \<open>Never\<close> stands for a thread that does not.
\<close>

datatype payload =
    No_data
  | Bytes "u8 list"
  | Regs kvm_regs
  | Sregs kvm_sregs
  | Command MiniKvmStatusCommand
  | Result MiniKvmStatusResult
  | Thread u64
  | Tree file_tree
  | Never              \<comment> \<open>no answer: the call does not return\<close>

record answer =
  rv :: int
  rerr :: int
  rdata :: payload

type_synonym env = "syscall list \<Rightarrow> syscall \<Rightarrow> answer"

record world =
  errno :: int
  trace :: "syscall list"

definition os_call :: "env \<Rightarrow> syscall \<Rightarrow> world \<Rightarrow> answer \<times> world" where
  "os_call env c w =
     (let r = env (trace w) c
      in (r, w\<lparr>errno := (if rv r < 0 then rerr r else errno w), trace := trace w @ [c]\<rparr>))"

section \<open>Documented behaviour the program relies on\<close>

text \<open>A system call that fails returns -1, never less.\<close>

definition fails_with_minus_one :: "env \<Rightarrow> bool" where
  "fails_with_minus_one env \<longleftrightarrow> (\<forall>h c. -1 \<le> rv (env h c))"

section \<open>Lemmas\<close>

lemma os_call_fst [simp]: "fst (os_call env c w) = env (trace w) c"
  by (simp add: os_call_def Let_def)

lemma os_call_trace [simp]: "trace (snd (os_call env c w)) = trace w @ [c]"
  by (simp add: os_call_def Let_def)

lemma os_call_pair:
  "os_call env c w = (env (trace w) c, snd (os_call env c w))"
  by (simp add: os_call_def Let_def)

lemma os_call_eq_trace: "os_call env c w = (r, w') \<Longrightarrow> trace w' = trace w @ [c]"
  using os_call_trace [of env c w] by simp

text \<open>A world whose calls extend those of another.\<close>

definition extends :: "world \<Rightarrow> world \<Rightarrow> bool" where
  "extends w w' \<longleftrightarrow> (\<exists>cs. trace w' = trace w @ cs)"

lemma extends_refl [simp, intro]: "extends w w"
  by (simp add: extends_def)

lemma extends_trans [trans]: "extends w w' \<Longrightarrow> extends w' w'' \<Longrightarrow> extends w w''"
  by (auto simp: extends_def)

lemma extends_os_call [simp, intro]: "extends w (snd (os_call env c w))"
  by (simp add: extends_def)

section \<open>A host on which every call succeeds\<close>

text \<open>
  A concrete \<open>env\<close> that satisfies the hypotheses above, for the witnesses: descriptors and addresses
  are fixed, no call ever fails, and no data is ever received.
\<close>

fun ok_rv :: "syscall \<Rightarrow> int" where
  "ok_rv (Open p m) = 3"
| "ok_rv (Ioctl fd KVM_GET_API_VERSION) = 12"
| "ok_rv (Ioctl fd KVM_CREATE_VM) = 4"
| "ok_rv (Ioctl fd (KVM_CHECK_EXTENSION c)) = 1"
| "ok_rv (Ioctl fd (KVM_CREATE_VCPU i)) = 10 + int (unat i)"
| "ok_rv (Ioctl fd KVM_GET_VCPU_MMAP_SIZE) = 0x3000"
| "ok_rv (Mmap_anonymous n) = 0x7f0000000000"
| "ok_rv (Mmap_shared fd n) = 0x7e0000000000"
| "ok_rv (Socket nb) = 5"
| "ok_rv _ = 0"

fun ok_data :: "syscall \<Rightarrow> payload" where
  "ok_data (Ioctl fd KVM_GET_SREGS) = Sregs zero_sregs"
| "ok_data (Ioctl fd KVM_GET_REGS) = Regs zero_regs"
| "ok_data (Pthread_create i) = Thread (word_of_nat i + 1)"
| "ok_data _ = No_data"

definition linux_ok :: env where
  "linux_ok h c = \<lparr>rv = ok_rv c, rerr = 0, rdata = ok_data c\<rparr>"

definition fresh_world :: world where
  "fresh_world = \<lparr>errno = 0, trace = []\<rparr>"

lemma ok_rv_nonneg: "0 \<le> ok_rv c"
  by (induction c rule: ok_rv.induct) simp_all

lemma linux_ok_fails_with_minus_one: "fails_with_minus_one linux_ok"
proof -
  have "- 1 \<le> ok_rv c" for c using ok_rv_nonneg [of c] by simp
  then show ?thesis by (simp add: fails_with_minus_one_def linux_ok_def)
qed

lemma os_call_linux_ok:
  "os_call linux_ok c w = (\<lparr>rv = ok_rv c, rerr = 0, rdata = ok_data c\<rparr>, w\<lparr>trace := trace w @ [c]\<rparr>)"
  using ok_rv_nonneg [of c] by (simp add: os_call_def linux_ok_def)

text \<open>The same, up to what a client, a file or a directory may bring.\<close>

definition boots :: "env \<Rightarrow> bool" where
  "boots env \<longleftrightarrow> (\<forall>h c. (\<forall>d. c \<noteq> Accept d) \<and> (\<forall>p. c \<noteq> Fopen_read p) \<and> (\<forall>p. c \<noteq> Ftw p) \<longrightarrow> env h c = linux_ok h c)"

lemma boots_linux_ok [simp]: "boots linux_ok"
  by (simp add: boots_def)

lemma os_call_boots:
  assumes "boots env" and "\<And>d. c \<noteq> Accept d" and "\<And>p. c \<noteq> Fopen_read p" and "\<And>p. c \<noteq> Ftw p"
  shows "os_call env c w = (\<lparr>rv = ok_rv c, rerr = 0, rdata = ok_data c\<rparr>, w\<lparr>trace := trace w @ [c]\<rparr>)"
  using assms os_call_linux_ok [of c w] by (simp add: os_call_def boots_def)

end
