(* ===== verification/Ipc.thy ===== *)
theory Ipc imports Os begin

text \<open>
  \<open>src/ipc/ipc.c\<close>, the control socket, and the two functions of \<open>src/core/core.c\<close> that look up a
  running machine by name: \<open>mini_kvm_open_vm_fs\<close> and \<open>mini_kvm_check_vm\<close>. A message is received
  whole or not at all. A path longer than \<open>sun_path\<close> is a write outside the address structure.
\<close>

section \<open>Paths and process numbers\<close>

text \<open>\<open>%s\<close> of a pointer, which the C library prints as \<open>(null)\<close> when it is null.\<close>

definition c_str :: "string option \<Rightarrow> string" where
  "c_str s = (case s of None \<Rightarrow> ''(null)'' | Some x \<Rightarrow> x)"

definition SUN_PATH_SIZE :: nat where
  "SUN_PATH_SIZE = 108"

definition sun_path :: "string \<Rightarrow> string res" where
  "sun_path p = (if length p < SUN_PATH_SIZE then Inr p else Inl OutOfBounds)"

text \<open>An \<open>int32_t\<close> in memory, and a \<open>read\<close> that overwrites its first bytes.\<close>

definition int32_bytes :: "int \<Rightarrow> u8 list" where
  "int32_bytes i = map (\<lambda>k. word_of_nat (unat (word_of_int i :: u32) div 256 ^ k)) [0..<4]"

definition bytes_int32 :: "u8 list \<Rightarrow> int" where
  "bytes_int32 bs = sint (word_of_nat (of_le bs) :: u32)"

definition read_over :: "u8 list \<Rightarrow> answer \<Rightarrow> u8 list" where
  "read_over old r =
     (if rv r \<le> 0 then old
      else (case rdata r of Bytes bs \<Rightarrow> let got = take (min (nat (rv r)) (length old)) bs
                                       in got @ drop (length got) old
            | _ \<Rightarrow> old))"

section \<open>Looking up a machine\<close>

definition mini_kvm_open_vm_fs :: "env \<Rightarrow> string \<Rightarrow> world \<Rightarrow> int \<times> world" where
  "mini_kvm_open_vm_fs env path w =
     (let (r1, w1) = os_call env (Open MINI_KVM_FS_ROOT_PATH O_DIRECTORY) w in
      if rv r1 < 0 then (- error_code MINI_KVM_INTERNAL_ERROR, w1)
      else let (r2, w2) = os_call env (Openat (rv r1) path O_DIRECTORY) w1 in
      if rv r2 < 0 then (- error_code MINI_KVM_INTERNAL_ERROR, w2)
      else (rv r2, w2))"

definition mini_kvm_check_vm :: "env \<Rightarrow> string \<Rightarrow> world \<Rightarrow> int \<times> world" where
  "mini_kvm_check_vm env name w =
     (let (vm_dir, w1) = mini_kvm_open_vm_fs env name w in
      if vm_dir < 0 then (-1, w1)
      else let (r2, w2) = os_call env (Openat vm_dir (name @ ''.pid'') O_RDONLY) w1 in
      if rv r2 < 0 then (-1, w2)
      else let (r3, w3) = os_call env (Read (rv r2) 4) w2;
               vm_pid = bytes_int32 (read_over (int32_bytes (-1)) r3) in
      if rv r3 \<le> 0 then (-1, w3)
      else let (r4, w4) = os_call env (Kill vm_pid 0) w3 in
      if rv r4 \<noteq> 0 then (-1, w4)
      else (error_code MINI_KVM_SUCCESS, w4))"

section \<open>The server's end\<close>

definition mini_kvm_ipc_create_socket :: "env \<Rightarrow> Kvm \<Rightarrow> world \<Rightarrow> (MiniKVMError \<times> Kvm \<times> world) res" where
  "mini_kvm_ipc_create_socket env kvm w =
     res_bind (sun_path (c_str (fs_path kvm) @ ''/'' @ c_str (kvm_name kvm) @ ''.sock'')) (\<lambda>path.
       let (r1, w1) = os_call env (Socket True) w;
           k1 = kvm\<lparr>sock := rv r1\<rparr> in
       if sock k1 < 0 then Inr (MINI_KVM_FAILED_SOCKET_CREATION, k1, w1)
       else let (r2, w2) = os_call env (Bind (sock k1) path) w1 in
       if rv r2 < 0
       then Inr (MINI_KVM_FAILED_SOCKET_CREATION, k1, snd (os_call env (Close (sock k1)) w2))
       else let (r3, w3) = os_call env (Listen (sock k1)) w2 in
       if rv r3 < 0
       then Inr (MINI_KVM_FAILED_SOCKET_CREATION, k1, snd (os_call env (Close (sock k1)) w3))
       else Inr (MINI_KVM_SUCCESS, k1, w3))"

definition mini_kvm_ipc_receive_cmd :: "env \<Rightarrow> Kvm \<Rightarrow> world \<Rightarrow> int \<times> world" where
  "mini_kvm_ipc_receive_cmd env kvm w =
     (let (r, w1) = os_call env (Accept (sock kvm)) w in
      if rv r < 0 \<and> errno w1 = EAGAIN then (0, w1)
      else if rv r < 0 then (-1, w1)
      else (rv r, w1))"

section \<open>The client's end\<close>

text \<open>After a failed \<open>connect\<close> the socket is closed and its descriptor is still returned.\<close>

definition mini_kvm_ipc_connect :: "env \<Rightarrow> string \<Rightarrow> world \<Rightarrow> (int \<times> world) res" where
  "mini_kvm_ipc_connect env name w =
     res_bind (sun_path (MINI_KVM_FS_ROOT_PATH @ ''/'' @ name @ ''/'' @ name @ ''.sock'')) (\<lambda>path.
       let (r1, w1) = os_call env (Socket False) w in
       if rv r1 < 0 then Inr (rv r1, w1)
       else let (r2, w2) = os_call env (Connect (rv r1) path) w1 in
       if rv r2 \<noteq> 0 then Inr (rv r1, snd (os_call env (Close (rv r1)) w2))
       else Inr (rv r1, w2))"

definition mini_kvm_ipc_send_cmd ::
  "env \<Rightarrow> int \<Rightarrow> MiniKvmStatusCommand \<Rightarrow> MiniKvmStatusResult \<Rightarrow> world \<Rightarrow> int \<times> MiniKvmStatusResult \<times> world" where
  "mini_kvm_ipc_send_cmd env fd cmd res w =
     (let (r1, w1) = os_call env (Send_cmd fd cmd) w in
      if rv r1 < 0 then (-1, res, w1)
      else let (r2, w2) = os_call env (Recv_res fd) w1;
               res' = (if rv r2 > 0 then (case rdata r2 of Result x \<Rightarrow> x | _ \<Rightarrow> res) else res) in
      if rv r2 < -1 then (-1, res', w2)
      else (0, res', w2))"

section \<open>Lemmas\<close>

lemma length_int32_bytes [simp]: "length (int32_bytes i) = 4"
  by (simp add: int32_bytes_def)

lemma of_le_int32_bytes: "of_le (int32_bytes i) = unat (word_of_int i :: u32)"
  using unat_u32_less [of "word_of_int i"] by (simp add: int32_bytes_def of_le_digits)

lemma bytes_int32_int32_bytes:
  assumes "- (2 ^ 31) \<le> i" and "i < 2 ^ 31"
  shows "bytes_int32 (int32_bytes i) = i"
  using assms by (simp add: bytes_int32_def of_le_int32_bytes signed_of_int signed_take_bit_int_eq_self)

lemma read_over_whole:
  "rv r = int (length old) \<Longrightarrow> rdata r = Bytes bs \<Longrightarrow> length bs = length old \<Longrightarrow> old \<noteq> [] \<Longrightarrow> read_over old r = bs"
  by (simp add: read_over_def)

lemma length_read_over [simp]: "length (read_over old r) = length old"
  by (auto simp: read_over_def Let_def split: payload.splits)

lemma sun_path_iff [res_iff]: "sun_path p = Inr q \<longleftrightarrow> q = p \<and> length p < 108"
  by (auto simp: sun_path_def SUN_PATH_SIZE_def)

text \<open>Where a client looks for the socket of a named machine is where the server binds it.\<close>

definition socket_path :: "string \<Rightarrow> string" where
  "socket_path name = MINI_KVM_FS_ROOT_PATH @ ''/'' @ name @ ''/'' @ name @ ''.sock''"

lemma connect_cases:
  assumes "mini_kvm_ipc_connect env name w = Inr (fd, w')"
  shows "length name < 44"
    and "fd < 0 \<and> trace w' = trace w @ [Socket False]
      \<or> (\<exists>tl. trace w' = trace w @ [Socket False, Connect fd (socket_path name)] @ tl \<and> tl \<in> {[], [Close fd]})"
  using assms by (auto simp: mini_kvm_ipc_connect_def socket_path_def Let_def split_beta res_iff split: if_splits)

lemma send_cmd_cases:
  assumes "mini_kvm_ipc_send_cmd env fd cmd res w = (r, res', w')"
  obtains "r = -1" and "res' = res" and "trace w' = trace w @ [Send_cmd fd cmd]"
  | "trace w' = trace w @ [Send_cmd fd cmd, Recv_res fd]" and "r = -1 \<or> r = 0"
    and "res' = res \<or> rdata (env (trace w @ [Send_cmd fd cmd]) (Recv_res fd)) = Result res'"
  using assms
  by (auto simp: mini_kvm_ipc_send_cmd_def Let_def split_beta split: if_splits payload.splits)

section \<open>Properties\<close>

text \<open>Looking up a machine: when its directory and pid file can be opened and the file holds the
  four bytes of a process number, \<open>mini_kvm_check_vm\<close> asks the system about exactly that process,
  last, and reports a running machine if and only if that process exists; otherwise it reports -1.\<close>

theorem check_vm_asks_recorded_pid:
  assumes "\<And>h p m. 0 \<le> rv (env h (Open p m))" and "\<And>h d p m. 0 \<le> rv (env h (Openat d p m))"
    and "\<And>h d. env h (Read d 4) = \<lparr>rv = 4, rerr = 0, rdata = Bytes (int32_bytes pid)\<rparr>"
    and "- (2 ^ 31) \<le> pid" and "pid < 2 ^ 31"
  shows "\<exists>r w' cs. mini_kvm_check_vm env name w = (r, w') \<and> trace w' = trace w @ cs @ [Kill pid 0]
    \<and> r = (if rv (env (trace w @ cs) (Kill pid 0)) = 0 then 0 else -1)"
proof -
  have p: "bytes_int32 (read_over (int32_bytes (-1)) \<lparr>rv = 4, rerr = 0, rdata = Bytes (int32_bytes pid)\<rparr>) = pid"
    using assms(4,5) bytes_int32_int32_bytes [of pid] by (simp add: read_over_def)
  show ?thesis
    using p assms(1,2) [unfolded not_less [symmetric]] assms(3)
    by (simp add: mini_kvm_check_vm_def mini_kvm_open_vm_fs_def Let_def split_beta del: MINI_KVM_FS_ROOT_PATH_def)
qed

text \<open>A host on which every pid file holds one number, for the witnesses.\<close>

definition pid_host :: "int \<Rightarrow> env" where
  "pid_host pid h c = (case c of Read d n \<Rightarrow> \<lparr>rv = 4, rerr = 0, rdata = Bytes (int32_bytes pid)\<rparr>
     | Connect d p \<Rightarrow> \<lparr>rv = -1, rerr = EAGAIN, rdata = No_data\<rparr>
     | _ \<Rightarrow> linux_ok h c)"

theorem check_vm_asks_recorded_pid_witness:
  "\<exists>w' cs. mini_kvm_check_vm (pid_host 4242) ''vm'' fresh_world = (0, w') \<and> trace w' = cs @ [Kill 4242 0]"
proof -
  have a: "0 \<le> rv (pid_host 4242 h (Open p m))" "0 \<le> rv (pid_host 4242 h (Openat d p m))"
    "pid_host 4242 h (Read d 4) = \<lparr>rv = 4, rerr = 0, rdata = Bytes (int32_bytes 4242)\<rparr>" for h p m d
    by (simp_all add: pid_host_def linux_ok_def)
  obtain r w' cs where "mini_kvm_check_vm (pid_host 4242) ''vm'' fresh_world = (r, w')"
    "trace w' = trace fresh_world @ cs @ [Kill 4242 0]"
    "r = (if rv (pid_host 4242 (trace fresh_world @ cs) (Kill 4242 0)) = 0 then 0 else -1)"
    using check_vm_asks_recorded_pid [of "pid_host 4242" 4242 "''vm''" fresh_world, OF a] by auto
  moreover have "rv (pid_host 4242 h (Kill 4242 0)) = 0" for h by (simp add: pid_host_def linux_ok_def)
  ultimately show ?thesis by (auto simp: fresh_world_def)
qed

text \<open>A connection that is refused is not noticed by the caller: \<open>mini_kvm_ipc_connect\<close> closes the
  socket, and still returns its non-negative descriptor, which every client takes for a connection.\<close>

theorem connect_refused_returns_closed:
  assumes "length name < 44" and "0 \<le> rv (env (trace w) (Socket False))"
    and "\<And>h d p. rv (env h (Connect d p)) \<noteq> 0"
  shows "\<exists>fd w'. mini_kvm_ipc_connect env name w = Inr (fd, w') \<and> 0 \<le> fd \<and> last (trace w') = Close fd"
  using assms by (simp add: mini_kvm_ipc_connect_def sun_path_def SUN_PATH_SIZE_def Let_def split_beta not_less)

end
