(* ===== verification/Getopt.thy ===== *)
theory Getopt imports Clib begin

text \<open>
  \<open>getopt_long\<close> of the C library, as the five subcommands use it: short options with no, a required
  or an optional argument, clusters of them, long options by name or by a unique prefix, and
  operands anywhere between options (they are skipped, as GNU \<open>getopt\<close> does by permuting). The
  result is the sequence of values the calls return before -1, each with \<open>optarg\<close>; \<open>'?'\<close> stands for
  every kind of error. \<open>scan_opts\<close> is the loop around it that all subcommands share.
\<close>

section \<open>Options\<close>

datatype has_arg = no_argument | required_argument | optional_argument

record option_def =
  opt_name :: string
  opt_has_arg :: has_arg
  opt_val :: char

type_synonym opt_event = "char \<times> string option"

text \<open>What the option string says of a character: it may be followed by one or two colons.\<close>

fun short_arg :: "string \<Rightarrow> char \<Rightarrow> has_arg option" where
  "short_arg [] c = None"
| "short_arg (d # ds) c =
     (if d = c \<and> c \<noteq> CHR '':'' then
        Some (if take 2 ds = ''::'' then optional_argument
              else if take 1 ds = '':'' then required_argument else no_argument)
      else short_arg ds c)"

section \<open>Short options\<close>

text \<open>The characters of one element of \<open>argv\<close> after the \<open>-\<close>, with the elements that follow it.\<close>

fun short_opts :: "string \<Rightarrow> string \<Rightarrow> string list \<Rightarrow> opt_event list \<times> string list" where
  "short_opts os [] rest = ([], rest)"
| "short_opts os (c # cs) rest =
     (case short_arg os c of
        None \<Rightarrow> (let (es, r) = short_opts os cs rest in ((CHR ''?'', None) # es, r))
      | Some no_argument \<Rightarrow> (let (es, r) = short_opts os cs rest in ((c, None) # es, r))
      | Some optional_argument \<Rightarrow> ([(c, if cs = [] then None else Some cs)], rest)
      | Some required_argument \<Rightarrow>
          if cs \<noteq> [] then ([(c, Some cs)], rest)
          else (case rest of [] \<Rightarrow> ([(CHR ''?'', None)], []) | a # r \<Rightarrow> ([(c, Some a)], r)))"

section \<open>Long options\<close>

text \<open>An exact name wins; otherwise a prefix must select one option.\<close>

definition long_match :: "option_def list \<Rightarrow> string \<Rightarrow> option_def option" where
  "long_match defs n =
     (case filter (\<lambda>d. opt_name d = n) defs of
        d # _ \<Rightarrow> Some d
      | [] \<Rightarrow> (case filter (\<lambda>d. take (length n) (opt_name d) = n) defs of [d] \<Rightarrow> Some d | _ \<Rightarrow> None))"

definition long_opt :: "option_def list \<Rightarrow> string \<Rightarrow> string list \<Rightarrow> opt_event list \<times> string list" where
  "long_opt defs s rest =
     (let n = takeWhile (\<lambda>c. c \<noteq> CHR ''='') s; v = dropWhile (\<lambda>c. c \<noteq> CHR ''='') s in
      case long_match defs n of
        None \<Rightarrow> ([(CHR ''?'', None)], rest)
      | Some d \<Rightarrow>
          if v \<noteq> [] then
            (if opt_has_arg d = no_argument then ([(CHR ''?'', None)], rest)
             else ([(opt_val d, Some (tl v))], rest))
          else if opt_has_arg d = required_argument then
            (case rest of [] \<Rightarrow> ([(CHR ''?'', None)], []) | a # r \<Rightarrow> ([(opt_val d, Some a)], r))
          else ([(opt_val d, None)], rest))"

section \<open>The scan\<close>

lemma short_opts_length: "length (snd (short_opts os cs rest)) \<le> length rest"
  by (induction os cs rest rule: short_opts.induct)
    (auto simp: Let_def split: option.splits has_arg.splits list.splits prod.splits)

lemma long_opt_length: "length (snd (long_opt defs s rest)) \<le> length rest"
  by (auto simp: long_opt_def Let_def split: option.splits list.splits)

function getopt_long :: "string \<Rightarrow> option_def list \<Rightarrow> string list \<Rightarrow> opt_event list" where
  "getopt_long os defs [] = []"
| "getopt_long os defs (a # rest) =
     (if a = ''--'' then []
      else if take 2 a = ''--'' then
        let (es, r) = long_opt defs (drop 2 a) rest in es @ getopt_long os defs r
      else if take 1 a = ''-'' \<and> length a > 1 then
        let (es, r) = short_opts os (drop 1 a) rest in es @ getopt_long os defs r
      else getopt_long os defs rest)"
  by pat_completeness auto
termination
proof (relation "measure (\<lambda>(os, defs, argv). length argv)", goal_cases)
  case 1
  show ?case by simp
next
  case (2 os defs a rest x es r)
  then show ?case using long_opt_length [of defs "drop 2 a" rest] by (metis case_prod_conv in_measure le_imp_less_Suc length_Cons snd_conv)
next
  case (3 os defs a rest x es r)
  then show ?case using short_opts_length [of os "drop 1 a" rest] by (metis case_prod_conv in_measure le_imp_less_Suc length_Cons snd_conv)
next
  case 4
  show ?case by simp
qed

declare getopt_long.simps [simp del]

text \<open>
  \<open>while (c != -1 && ret != MINI_KVM_ARGS_FAILED) { c = getopt_long(...); switch (c) {...} }\<close>:
  the body runs once per value, until one of them makes it fail.
\<close>

fun scan_opts :: "('s \<Rightarrow> bool) \<Rightarrow> ('s \<Rightarrow> opt_event \<Rightarrow> 's res) \<Rightarrow> 's \<Rightarrow> opt_event list \<Rightarrow> 's res" where
  "scan_opts failed body s [] = Inr s"
| "scan_opts failed body s (e # es) =
     (if failed s then Inr s else res_bind (body s e) (\<lambda>s'. scan_opts failed body s' es))"

section \<open>Lemmas\<close>

text \<open>An option with its argument in the next element.\<close>

lemma getopt_short_arg:
  assumes "short_arg os c = Some required_argument" and "c \<noteq> CHR ''-''"
  shows "getopt_long os defs ([CHR ''-'', c] # a # rest) = (c, Some a) # getopt_long os defs rest"
  using assms by (simp add: getopt_long.simps)

lemma getopt_long_arg:
  assumes "long_match defs n = Some d" and "opt_has_arg d = required_argument"
    and "n \<noteq> []" and "CHR ''='' \<notin> set n"
  shows "getopt_long os defs ((''--'' @ n) # a # rest) = (opt_val d, Some a) # getopt_long os defs rest"
    and "getopt_long os defs ((''--'' @ n @ ''='' @ a) # rest) = (opt_val d, Some a) # getopt_long os defs rest"
proof -
  have tw: "takeWhile (\<lambda>c. c \<noteq> CHR ''='') n = n" "dropWhile (\<lambda>c. c \<noteq> CHR ''='') n = []"
    using assms(4) by (auto simp: takeWhile_eq_all_conv dropWhile_eq_Nil_conv)
  have tw': "takeWhile (\<lambda>c. c \<noteq> CHR ''='') (n @ CHR ''='' # a) = n"
    "dropWhile (\<lambda>c. c \<noteq> CHR ''='') (n @ CHR ''='' # a) = CHR ''='' # a"
    using assms(4) by (auto simp: takeWhile_append dropWhile_append tw)
  show "getopt_long os defs ((''--'' @ n) # a # rest) = (opt_val d, Some a) # getopt_long os defs rest"
    using assms by (simp add: getopt_long.simps long_opt_def tw)
  show "getopt_long os defs ((''--'' @ n @ ''='' @ a) # rest) = (opt_val d, Some a) # getopt_long os defs rest"
    using assms by (simp add: getopt_long.simps long_opt_def tw')
qed

lemma getopt_Nil [simp]: "getopt_long os defs [] = []"
  by (simp add: getopt_long.simps)

text \<open>An option that requires an argument is never reported without one.\<close>

lemma short_opts_required:
  assumes "(c, a) \<in> set (fst (short_opts os cs rest))" and "short_arg os c = Some required_argument" and "c \<noteq> CHR ''?''"
  shows "a \<noteq> None"
  using assms
  by (induction os cs rest rule: short_opts.induct)
    (auto simp: Let_def split: option.splits has_arg.splits list.splits prod.splits if_splits)

lemma long_opt_required:
  assumes "(c, a) \<in> set (fst (long_opt defs s rest))" and "\<And>d. d \<in> set defs \<Longrightarrow> opt_val d = c \<Longrightarrow> opt_has_arg d = required_argument"
    and "c \<noteq> CHR ''?''"
  shows "a \<noteq> None"
proof -
  have "d \<in> set defs" if "long_match defs n = Some d" for n d
  proof -
    from that have "\<exists>P ds. filter P defs = d # ds"
      by (auto simp: long_match_def split: list.splits)
    then obtain P ds where "filter P defs = d # ds" by blast
    then have "d \<in> set (filter P defs)" by simp
    then show ?thesis by simp
  qed
  with assms show ?thesis by (auto simp: long_opt_def Let_def split: option.splits if_splits list.splits)
qed

lemma getopt_required:
  assumes "(c, a) \<in> set (getopt_long os defs args)" and "short_arg os c = Some required_argument"
    and "\<And>d. d \<in> set defs \<Longrightarrow> opt_val d = c \<Longrightarrow> opt_has_arg d = required_argument" and "c \<noteq> CHR ''?''"
  shows "a \<noteq> None"
  using assms(1-3)
proof (induction os defs args rule: getopt_long.induct)
  case (1 os defs)
  then show ?case by simp
next
  case (2 os defs x rest)
  obtain es1 r1 where l: "long_opt defs (drop 2 x) rest = (es1, r1)" by fastforce
  obtain es2 r2 where s: "short_opts os (drop 1 x) rest = (es2, r2)" by fastforce
  consider "x = ''--''" | (long) "x \<noteq> ''--''" "take 2 x = ''--''" | (short) "x \<noteq> ''--''" "take 2 x \<noteq> ''--''" "take 1 x = ''-''" "1 < length x"
    | (operand) "x \<noteq> ''--''" "take 2 x \<noteq> ''--''" "\<not> (take 1 x = ''-'' \<and> 1 < length x)" by blast
  then show ?case
  proof cases
    case long
    with 2 l long_opt_required [of c a defs "drop 2 x" rest] assms(4) show ?thesis
      by (auto simp: getopt_long.simps)
  next
    case short
    with 2 s short_opts_required [of c a os "drop 1 x" rest] assms(4) show ?thesis
      by (auto simp: getopt_long.simps)
  next
    case operand
    with 2 show ?thesis by (auto simp: getopt_long.simps)
  qed (use 2 in \<open>simp add: getopt_long.simps\<close>)
qed

text \<open>A loop whose body never faults on the values it meets has a result.\<close>

lemma scan_opts_total:
  assumes "\<And>s e. e \<in> set es \<Longrightarrow> \<exists>s'. body s e = Inr s'"
  shows "\<exists>s'. scan_opts failed body s es = Inr s'"
  using assms
proof (induction es arbitrary: s)
  case (Cons e es)
  obtain s1 where "body s e = Inr s1" using Cons.prems [of e s] by auto
  with Cons show ?case by simp
qed simp

lemma scan_opts_failed: "failed s \<Longrightarrow> scan_opts failed body s es = Inr s"
  by (cases es) simp_all

lemma scan_opts_append:
  "scan_opts failed body s (es @ es') =
    res_bind (scan_opts failed body s es) (\<lambda>s'. scan_opts failed body s' es')"
  by (induction es arbitrary: s) (auto simp: res_bind_def scan_opts_failed split: sum.splits)

text \<open>An invariant of the loop, by induction on the values.\<close>

lemma scan_opts_invariant:
  assumes "scan_opts failed body s es = Inr s'" and "P s"
    and "\<And>s e s'. P s \<Longrightarrow> \<not> failed s \<Longrightarrow> body s e = Inr s' \<Longrightarrow> P s'"
  shows "P s'"
  using assms(1,2)
  by (induction es arbitrary: s) (auto simp: res_iff split: if_splits intro: assms(3))

section \<open>The contract of an argument parser\<close>

text \<open>
  Every subcommand refuses an unknown option, a missing argument and \<open>--help\<close>: its loop body fails
  on them, whatever it has seen before.
\<close>

locale arg_parser =
  fixes failed :: "'s \<Rightarrow> bool" and body :: "'s \<Rightarrow> opt_event \<Rightarrow> 's res"
  assumes error_fails: "body s (CHR ''?'', a) = Inr s' \<Longrightarrow> failed s'"
    and help_fails: "body s (CHR ''h'', a) = Inr s' \<Longrightarrow> failed s'"
begin

lemma refused:
  assumes "scan_opts failed body s es = Inr s'" and "(c, a) \<in> set es" and "c = CHR ''?'' \<or> c = CHR ''h''"
  shows "failed s'"
  using assms(1,2)
proof (induction es arbitrary: s)
  case Nil
  then show ?case by simp
next
  case (Cons e es)
  show ?case
  proof (cases "failed s")
    case True
    with Cons.prems(1) show ?thesis by simp
  next
    case False
    with Cons.prems(1) obtain s1 where s1: "body s e = Inr s1" "scan_opts failed body s1 es = Inr s'"
      by (auto simp: res_iff)
    show ?thesis
    proof (cases "(c, a) \<in> set es")
      case True
      with Cons.IH s1(2) show ?thesis by blast
    next
      case False
      with Cons.prems(2) s1(1) assms(3) have "failed s1" using error_fails help_fails by auto
      with s1(2) show ?thesis by (simp add: scan_opts_failed)
    qed
  qed
qed

end

end
