(* ===== verification/Commands.thy ===== *)
theory Commands imports Ipc Getopt begin

text \<open>
  The client commands \<open>mini_kvm pause\<close>, \<open>resume\<close> and \<open>shutdown\<close> (\<open>src/commands/pause.c\<close>, \<open>resume.c\<close>,
  \<open>shutdown.c\<close>): parse the name of a machine, look it up, connect, and exchange messages. The
  three sources are copies of one another and so are their option tables; the loop body they share
  is \<open>name_arg_body\<close>. A command takes \<open>argv\<close> with its own name first. Log lines are
  not modelled.
\<close>

section \<open>Arguments\<close>

record name_args =
  parse_ret :: MiniKVMError
  arg_name :: "string option"

definition name_opts_def :: "option_def list" where
  "name_opts_def = [\<lparr>opt_name = ''name'', opt_has_arg = required_argument, opt_val = CHR ''n''\<rparr>,
                    \<lparr>opt_name = ''help'', opt_has_arg = no_argument, opt_val = CHR ''h''\<rparr>]"

definition name_arg_body :: "name_args \<Rightarrow> opt_event \<Rightarrow> name_args res" where
  "name_arg_body s e =
     (let (c, optarg) = e in
      if c = CHR ''n'' then
        (case optarg of None \<Rightarrow> Inl NullDeref | Some a \<Rightarrow> Inr (s\<lparr>arg_name := Some a\<rparr>))
      else if c = CHR ''h'' \<or> c = CHR ''?'' then Inr (s\<lparr>parse_ret := MINI_KVM_ARGS_FAILED\<rparr>)
      else Inr s)"

definition name_args_failed :: "name_args \<Rightarrow> bool" where
  "name_args_failed s \<longleftrightarrow> parse_ret s = MINI_KVM_ARGS_FAILED"

definition zero_name_args :: name_args where
  "zero_name_args = \<lparr>parse_ret = MINI_KVM_SUCCESS, arg_name = None\<rparr>"

definition pause_parse_args :: "string list \<Rightarrow> name_args res" where
  "pause_parse_args argv =
     scan_opts name_args_failed name_arg_body zero_name_args (getopt_long ''n:h'' name_opts_def (tl argv))"

definition resume_parse_args :: "string list \<Rightarrow> name_args res" where
  "resume_parse_args argv =
     scan_opts name_args_failed name_arg_body zero_name_args (getopt_long ''n:h'' name_opts_def (tl argv))"

definition shutdown_parse_args :: "string list \<Rightarrow> name_args res" where
  "shutdown_parse_args argv =
     scan_opts name_args_failed name_arg_body zero_name_args (getopt_long ''n:h'' name_opts_def (tl argv))"

section \<open>Commands\<close>

definition pause_print_help :: string where
  "pause_print_help = ''USAGE:'' @ nl @ tab_char @ ''mini_kvm pause [options] ...'' @ nl @ ''OPTIONS:'' @ nl
     @ tab_char @ ''--name/-n: set the name of the virtual machine'' @ nl @ tab_char @ ''--help/-h: print this message'' @ nl"

definition resume_print_help :: string where
  "resume_print_help = ''USAGE:'' @ nl @ tab_char @ ''mini_kvm resume [options] ...'' @ nl @ ''OPTIONS:'' @ nl
     @ tab_char @ ''--name/-n: set the name of the virtual machine'' @ nl @ tab_char @ ''--help/-h: print this message'' @ nl"

definition shutdown_print_help :: string where
  "shutdown_print_help = ''USAGE:'' @ nl @ tab_char @ ''mini_kvm shutdown [options] ...'' @ nl @ ''OPTIONS:'' @ nl
     @ tab_char @ ''--name/-n: set the name of the virtual machine'' @ nl @ tab_char @ ''--help/-h: print this message'' @ nl"

text \<open>The result of a command is its status, what it printed and the world.\<close>

definition mini_kvm_pause :: "env \<Rightarrow> string list \<Rightarrow> world \<Rightarrow> (MiniKVMError \<times> string \<times> world) res" where
  "mini_kvm_pause env argv w =
     res_bind (pause_parse_args argv) (\<lambda>args. let ret = parse_ret args in
       if ret \<noteq> MINI_KVM_SUCCESS then Inr (ret, pause_print_help, w)
       else case arg_name args of None \<Rightarrow> Inr (ret, [], w) | Some name \<Rightarrow>
       let (alive, w1) = mini_kvm_check_vm env name w in
       if alive < 0 then Inr (ret, [], w1)
       else res_bind (mini_kvm_ipc_connect env name w1) (\<lambda>(fd, w2).
         if fd < 0 then Inr (ret, [], w2)
         else let cmd = zero_command\<lparr>cmd_type := MINI_KVM_COMMAND_SHOW_STATE\<rparr>;
                  (r3, res, w3) = mini_kvm_ipc_send_cmd env fd cmd zero_result w2 in
         if r3 < 0 then Inr (ret, [], snd (os_call env (Close fd) w3))
         else if res_state res = MINI_KVM_PAUSED \<or> res_state res = MINI_KVM_SHUTDOWN
         then Inr (ret, [], snd (os_call env (Close fd) w3))
         else let cmd = cmd\<lparr>cmd_type := MINI_KVM_COMMAND_PAUSE\<rparr>;
                  (r4, res, w4) = mini_kvm_ipc_send_cmd env fd cmd res w3 in
         Inr (ret, [], snd (os_call env (Close fd) w4))))"

definition mini_kvm_resume :: "env \<Rightarrow> string list \<Rightarrow> world \<Rightarrow> (MiniKVMError \<times> string \<times> world) res" where
  "mini_kvm_resume env argv w =
     res_bind (resume_parse_args argv) (\<lambda>args. let ret = parse_ret args in
       if ret \<noteq> MINI_KVM_SUCCESS then Inr (ret, resume_print_help, w)
       else case arg_name args of None \<Rightarrow> Inr (ret, [], w) | Some name \<Rightarrow>
       let (alive, w1) = mini_kvm_check_vm env name w in
       if alive < 0 then Inr (ret, [], w1)
       else res_bind (mini_kvm_ipc_connect env name w1) (\<lambda>(fd, w2).
         if fd < 0 then Inr (ret, [], w2)
         else let cmd = zero_command\<lparr>cmd_type := MINI_KVM_COMMAND_SHOW_STATE\<rparr>;
                  (r3, res, w3) = mini_kvm_ipc_send_cmd env fd cmd zero_result w2 in
         if r3 < 0 then Inr (ret, [], snd (os_call env (Close fd) w3))
         else if res_state res = MINI_KVM_RUNNING \<or> res_state res = MINI_KVM_SHUTDOWN
         then Inr (ret, [], snd (os_call env (Close fd) w3))
         else let cmd = cmd\<lparr>cmd_type := MINI_KVM_COMMAND_RESUME\<rparr>;
                  (r4, res, w4) = mini_kvm_ipc_send_cmd env fd cmd res w3 in
         Inr (ret, [], snd (os_call env (Close fd) w4))))"

definition mini_kvm_shutdown :: "env \<Rightarrow> string list \<Rightarrow> world \<Rightarrow> (MiniKVMError \<times> string \<times> world) res" where
  "mini_kvm_shutdown env argv w =
     res_bind (shutdown_parse_args argv) (\<lambda>args. let ret = parse_ret args in
       if ret \<noteq> MINI_KVM_SUCCESS then Inr (ret, shutdown_print_help, w)
       else case arg_name args of None \<Rightarrow> Inr (ret, [], w) | Some name \<Rightarrow>
       let (alive, w1) = mini_kvm_check_vm env name w in
       if alive < 0 then Inr (ret, [], w1)
       else res_bind (mini_kvm_ipc_connect env name w1) (\<lambda>(fd, w2).
         if fd < 0 then Inr (ret, [], w2)
         else let cmd = zero_command\<lparr>cmd_type := MINI_KVM_COMMAND_SHUTDOWN\<rparr>;
                  (r3, res, w3) = mini_kvm_ipc_send_cmd env fd cmd zero_result w2 in
         Inr (ret, [], snd (os_call env (Close fd) w3))))"

section \<open>Lemmas\<close>

interpretation name_parser: arg_parser name_args_failed name_arg_body
  by unfold_locales (auto simp: name_arg_body_def name_args_failed_def)

lemma name_match: "long_match name_opts_def ''name'' = Some \<lparr>opt_name = ''name'', opt_has_arg = required_argument, opt_val = CHR ''n''\<rparr>"
  by (simp add: long_match_def name_opts_def_def)

text \<open>The three ways to name a machine.\<close>

definition spells_name :: "string list \<Rightarrow> string \<Rightarrow> bool" where
  "spells_name args n \<longleftrightarrow> args = [''-n'', n] \<or> args = [''--name'', n] \<or> args = [''--name='' @ n]"

lemma getopt_spells_name:
  assumes "spells_name args n"
  shows "getopt_long ''n:h'' name_opts_def args = [(CHR ''n'', Some n)]"
  using assms getopt_short_arg [of "''n:h''" "CHR ''n''" name_opts_def n "[]"]
    getopt_long_arg [OF name_match, of "''n:h''" n "[]"]
  by (auto simp: spells_name_def)

lemma scan_spells_name:
  "spells_name args n \<Longrightarrow> scan_opts name_args_failed name_arg_body zero_name_args
     (getopt_long ''n:h'' name_opts_def args) = Inr \<lparr>parse_ret = MINI_KVM_SUCCESS, arg_name = Some n\<rparr>"
  by (simp add: getopt_spells_name zero_name_args_def name_args_failed_def name_arg_body_def)

lemmas name_parse_defs = pause_parse_args_def resume_parse_args_def shutdown_parse_args_def

lemma name_scan_total:
  "\<exists>args. scan_opts name_args_failed name_arg_body s (getopt_long ''n:h'' name_opts_def xs) = Inr args"
proof (rule scan_opts_total)
  fix s e assume e: "e \<in> set (getopt_long ''n:h'' name_opts_def xs)"
  obtain c a where ca: "e = (c, a)" by fastforce
  have "a \<noteq> None" if "c = CHR ''n''"
  proof (rule getopt_required)
    show "(c, a) \<in> set (getopt_long ''n:h'' name_opts_def xs)" using e by (simp add: ca)
  qed (use that in \<open>auto simp: name_opts_def_def\<close>)
  then show "\<exists>s'. name_arg_body s e = Inr s'" by (auto simp: ca name_arg_body_def)
qed

text \<open>The commands sent among some calls, in order.\<close>

fun sent :: "syscall list \<Rightarrow> MiniKvmStatusCommand list" where
  "sent [] = []"
| "sent (Send_cmd fd c # cs) = c # sent cs"
| "sent (_ # cs) = sent cs"

lemma sent_append [simp]: "sent (cs @ ds) = sent cs @ sent ds"
  by (induction cs rule: sent.induct) simp_all

lemma check_vm_sends_nothing:
  "mini_kvm_check_vm env name w = (r, w1) \<Longrightarrow> \<exists>cs. trace w1 = trace w @ cs \<and> sent cs = []"
  by (auto simp: mini_kvm_check_vm_def mini_kvm_open_vm_fs_def Let_def split_beta split: if_splits)

lemma connect_sends_nothing:
  "mini_kvm_ipc_connect env name w = Inr (fd, w1) \<Longrightarrow> \<exists>cs. trace w1 = trace w @ cs \<and> sent cs = []"
  using connect_cases(2) [of env name w fd w1] by fastforce

lemma send_cmd_sends:
  assumes "mini_kvm_ipc_send_cmd env fd cmd res w = (r, res', w1)"
  shows "\<exists>cs. trace w1 = trace w @ cs \<and> sent cs = [cmd]"
  by (rule send_cmd_cases [OF assms]) auto

text \<open>
  What a client does before its first message: nothing is sent, and either it stops there or it
  holds a descriptor.
\<close>

lemma client_prologue:
  assumes "mini_kvm_check_vm env name w = (r, w1)" and "mini_kvm_ipc_connect env name w1 = Inr (fd, w2)"
  obtains cs where "trace w2 = trace w @ cs" and "sent cs = []"
  using check_vm_sends_nothing [OF assms(1)] connect_sends_nothing [OF assms(2)] by auto

text \<open>
  \<open>pause\<close> and \<open>resume\<close> are one program up to the states in which they do nothing and the command they
  send; \<open>exchange\<close> is its last part, with the connection open.
\<close>

definition exchange ::
  "env \<Rightarrow> int \<Rightarrow> (VMState \<Rightarrow> bool) \<Rightarrow> MiniKvmStatusCommandType \<Rightarrow> world \<Rightarrow> world" where
  "exchange env fd stop ty w2 =
     (let cmd = zero_command\<lparr>cmd_type := MINI_KVM_COMMAND_SHOW_STATE\<rparr>;
          (r3, res, w3) = mini_kvm_ipc_send_cmd env fd cmd zero_result w2 in
      if r3 < 0 then snd (os_call env (Close fd) w3)
      else if stop (res_state res) then snd (os_call env (Close fd) w3)
      else let cmd = cmd\<lparr>cmd_type := ty\<rparr>;
               (r4, res, w4) = mini_kvm_ipc_send_cmd env fd cmd res w3 in
      snd (os_call env (Close fd) w4))"

definition session ::
  "env \<Rightarrow> string \<Rightarrow> name_args \<Rightarrow> (int \<Rightarrow> world \<Rightarrow> world) \<Rightarrow> world \<Rightarrow> (MiniKVMError \<times> string \<times> world) res" where
  "session env help args talk w =
     (if parse_ret args \<noteq> MINI_KVM_SUCCESS then Inr (parse_ret args, help, w)
      else case arg_name args of None \<Rightarrow> Inr (parse_ret args, [], w) | Some name \<Rightarrow>
      let (alive, w1) = mini_kvm_check_vm env name w in
      if alive < 0 then Inr (parse_ret args, [], w1)
      else res_bind (mini_kvm_ipc_connect env name w1) (\<lambda>(fd, w2).
        if fd < 0 then Inr (parse_ret args, [], w2) else Inr (parse_ret args, [], talk fd w2)))"

lemma pause_session:
  "mini_kvm_pause env argv w = res_bind (pause_parse_args argv) (\<lambda>args. session env pause_print_help args
     (\<lambda>fd. exchange env fd (\<lambda>s. s = MINI_KVM_PAUSED \<or> s = MINI_KVM_SHUTDOWN) MINI_KVM_COMMAND_PAUSE) w)"
  unfolding mini_kvm_pause_def
  by (intro res_bind_cong refl)
    (auto simp: session_def exchange_def Let_def split_beta split: option.splits intro!: res_bind_cong)

lemma resume_session:
  "mini_kvm_resume env argv w = res_bind (resume_parse_args argv) (\<lambda>args. session env resume_print_help args
     (\<lambda>fd. exchange env fd (\<lambda>s. s = MINI_KVM_RUNNING \<or> s = MINI_KVM_SHUTDOWN) MINI_KVM_COMMAND_RESUME) w)"
  unfolding mini_kvm_resume_def
  by (intro res_bind_cong refl)
    (auto simp: session_def exchange_def Let_def split_beta split: option.splits intro!: res_bind_cong)

lemma shutdown_session:
  "mini_kvm_shutdown env argv w = res_bind (shutdown_parse_args argv) (\<lambda>args. session env shutdown_print_help args
     (\<lambda>fd w2. snd (os_call env (Close fd)
        (snd (snd (mini_kvm_ipc_send_cmd env fd (zero_command\<lparr>cmd_type := MINI_KVM_COMMAND_SHUTDOWN\<rparr>) zero_result w2))))) w)"
  unfolding mini_kvm_shutdown_def
  by (intro res_bind_cong refl)
    (auto simp: session_def Let_def split_beta split: option.splits intro!: res_bind_cong)

text \<open>A session either never talks, having sent nothing, or ends with its talk.\<close>

lemma session_cases:
  assumes "session env help args talk w = Inr (ret, out, w')"
  obtains cs where "trace w' = trace w @ cs" and "sent cs = []"
  | cs fd w2 where "trace w2 = trace w @ cs" and "sent cs = []" and "w' = talk fd w2" and "0 \<le> fd"
proof (cases "parse_ret args = MINI_KVM_SUCCESS \<and> arg_name args \<noteq> None")
  case False
  with assms have "w' = w" by (auto simp: session_def split: if_splits option.splits)
  then show thesis by (intro that(1) [of "[]"]) simp_all
next
  case True
  then obtain name where n: "arg_name args = Some name" "parse_ret args = MINI_KVM_SUCCESS" by auto
  obtain alive w1 where c1: "mini_kvm_check_vm env name w = (alive, w1)" by fastforce
  have s: "(if alive < 0 then Inr (parse_ret args, [], w1)
      else res_bind (mini_kvm_ipc_connect env name w1) (\<lambda>(fd, w2).
        if fd < 0 then Inr (parse_ret args, [], w2) else Inr (parse_ret args, [], talk fd w2))) = Inr (ret, out, w')"
    using assms by (simp add: session_def n c1)
  show thesis
  proof (cases "alive < 0")
    case True
    with s check_vm_sends_nothing [OF c1] show thesis by (auto intro: that(1))
  next
    case False
    with s obtain fd w2 where c2: "mini_kvm_ipc_connect env name w1 = Inr (fd, w2)"
      and e: "w' = (if fd < 0 then w2 else talk fd w2)"
      by (auto simp: res_iff split: if_splits)
    obtain cs where "trace w2 = trace w @ cs" "sent cs = []" by (rule client_prologue [OF c1 c2])
    with e show thesis by (cases "fd < 0") (auto intro: that)
  qed
qed

text \<open>The first question of \<open>pause\<close> and \<open>resume\<close>.\<close>

abbreviation ask_state :: MiniKvmStatusCommand where
  "ask_state \<equiv> zero_command\<lparr>cmd_type := MINI_KVM_COMMAND_SHOW_STATE\<rparr>"

lemma exchange_cases:
  obtains cs where "trace (exchange env fd stop ty w) = trace w @ cs"
    and "map cmd_type (sent cs) = [MINI_KVM_COMMAND_SHOW_STATE]"
  | cs res where "trace (exchange env fd stop ty w) = trace w @ [Send_cmd fd ask_state, Recv_res fd] @ cs"
    and "map cmd_type (sent cs) = [ty]" and "\<not> stop (res_state res)"
    and "res = zero_result \<or> rdata (env (trace w @ [Send_cmd fd ask_state]) (Recv_res fd)) = Result res"
proof -
  obtain r3 res w3 where q: "mini_kvm_ipc_send_cmd env fd ask_state zero_result w = (r3, res, w3)"
    using prod_cases3 by blast
  obtain r4 res' w4 where p: "mini_kvm_ipc_send_cmd env fd (ask_state\<lparr>cmd_type := ty\<rparr>) res w3 = (r4, res', w4)"
    using prod_cases3 by blast
  obtain cs where cs: "trace w3 = trace w @ cs" "sent cs = [ask_state]" using send_cmd_sends [OF q] by blast
  obtain ds where ds: "trace w4 = trace w3 @ ds" "sent ds = [ask_state\<lparr>cmd_type := ty\<rparr>]" using send_cmd_sends [OF p] by blast
  show thesis
  proof (cases "r3 < 0 \<or> stop (res_state res)")
    case True
    with q have "exchange env fd stop ty w = snd (os_call env (Close fd) w3)" by (auto simp: exchange_def)
    with cs show thesis by (intro that(1) [of "cs @ [Close fd]"]) simp_all
  next
    case False
    with q p have e: "exchange env fd stop ty w = snd (os_call env (Close fd) w4)" by (simp add: exchange_def)
    from q show thesis
    proof (rule send_cmd_cases)
      assume "r3 = -1" with False show thesis by simp
    next
      assume "trace w3 = trace w @ [Send_cmd fd ask_state, Recv_res fd]"
        "res = zero_result \<or> rdata (env (trace w @ [Send_cmd fd ask_state]) (Recv_res fd)) = Result res"
      with False e ds show thesis by (intro that(2) [of "ds @ [Close fd]" res]) simp_all
    qed
  qed
qed

section \<open>Properties\<close>

text \<open>Naming a machine: \<open>-n NAME\<close>, \<open>--name NAME\<close> and \<open>--name=NAME\<close> all give the three client
  commands exactly that name.\<close>

theorem client_name_parsed:
  assumes "spells_name args n"
  shows "pause_parse_args (cmd # args) = Inr \<lparr>parse_ret = MINI_KVM_SUCCESS, arg_name = Some n\<rparr>
    \<and> resume_parse_args (cmd # args) = Inr \<lparr>parse_ret = MINI_KVM_SUCCESS, arg_name = Some n\<rparr>
    \<and> shutdown_parse_args (cmd # args) = Inr \<lparr>parse_ret = MINI_KVM_SUCCESS, arg_name = Some n\<rparr>"
  using scan_spells_name [OF assms] by (simp add: name_parse_defs)

text \<open>C28. Arguments a client command refuses: with an unknown option, a missing argument or \<open>--help\<close> among
  them, each of the three commands returns \<open>MINI_KVM_ARGS_FAILED\<close>, prints its own help text and makes
  no system call; it never faults on them.\<close>

theorem client_refuses_arguments:
  assumes "(c, a) \<in> set (getopt_long ''n:h'' name_opts_def (tl argv))" and "c = CHR ''?'' \<or> c = CHR ''h''"
    and "(f, help) \<in> {(mini_kvm_pause, pause_print_help), (mini_kvm_resume, resume_print_help),
      (mini_kvm_shutdown, shutdown_print_help)}"
  shows "f env argv w = Inr (MINI_KVM_ARGS_FAILED, help, w)"
proof -
  obtain args where args: "scan_opts name_args_failed name_arg_body zero_name_args
      (getopt_long ''n:h'' name_opts_def (tl argv)) = Inr args"
    using name_scan_total by blast
  have "parse_ret args = MINI_KVM_ARGS_FAILED"
    using name_parser.refused [OF args assms(1,2)] by (simp add: name_args_failed_def)
  with args assms(3) show ?thesis
    by (auto simp: pause_session resume_session shutdown_session name_parse_defs session_def)
qed

theorem client_refuses_arguments_witness:
  "mini_kvm_pause linux_ok [''pause'', ''-x''] fresh_world = Inr (MINI_KVM_ARGS_FAILED, pause_print_help, fresh_world)"
proof -
  have g: "(CHR ''?'', None) \<in> set (getopt_long ''n:h'' name_opts_def (tl [''pause'', ''-x'']))"
    by (simp add: getopt_long.simps)
  show ?thesis
    using client_refuses_arguments [OF g, of mini_kvm_pause pause_print_help linux_ok fresh_world] by simp
qed

text \<open>C23. The protocol of \<open>mini_kvm pause\<close>: it sends nothing, or asks for the state only, or asks and
  then sends one PAUSE on the same connection; the PAUSE only after the answer received to its
  question said that the machine is running.\<close>

theorem pause_protocol:
  assumes "mini_kvm_pause env argv w = Inr (ret, out, w')"
  shows "\<exists>cs ds. trace w' = trace w @ cs @ ds \<and> sent cs = [] \<and>
    (map cmd_type (sent ds) \<in> {[], [MINI_KVM_COMMAND_SHOW_STATE]} \<or>
     (\<exists>fd es res. ds = [Send_cmd fd ask_state, Recv_res fd] @ es \<and> map cmd_type (sent es) = [MINI_KVM_COMMAND_PAUSE]
       \<and> rdata (env (trace w @ cs @ [Send_cmd fd ask_state]) (Recv_res fd)) = Result res
       \<and> res_state res = MINI_KVM_RUNNING))"
proof -
  let ?stop = "\<lambda>s. s = MINI_KVM_PAUSED \<or> s = MINI_KVM_SHUTDOWN"
  obtain args where s: "session env pause_print_help args (\<lambda>fd. exchange env fd ?stop MINI_KVM_COMMAND_PAUSE) w = Inr (ret, out, w')"
    using assms by (auto simp: pause_session res_iff)
  show ?thesis
  proof (rule session_cases [OF s])
    fix cs assume "trace w' = trace w @ cs" "sent cs = []"
    then show ?thesis by (intro exI [of _ cs] exI [of _ "[]"]) simp
  next
    fix cs fd w2 assume w2: "trace w2 = trace w @ cs" "sent cs = []" "w' = exchange env fd ?stop MINI_KVM_COMMAND_PAUSE w2"
    show ?thesis
    proof (rule exchange_cases [of env fd ?stop MINI_KVM_COMMAND_PAUSE w2])
      fix ds assume "trace (exchange env fd ?stop MINI_KVM_COMMAND_PAUSE w2) = trace w2 @ ds"
        "map cmd_type (sent ds) = [MINI_KVM_COMMAND_SHOW_STATE]"
      with w2 show ?thesis by (intro exI [of _ cs] exI [of _ ds]) simp
    next
      fix es res assume e: "trace (exchange env fd ?stop MINI_KVM_COMMAND_PAUSE w2) = trace w2 @ [Send_cmd fd ask_state, Recv_res fd] @ es"
        "map cmd_type (sent es) = [MINI_KVM_COMMAND_PAUSE]" "\<not> ?stop (res_state res)"
        "res = zero_result \<or> rdata (env (trace w2 @ [Send_cmd fd ask_state]) (Recv_res fd)) = Result res"
      then have "res_state res = MINI_KVM_RUNNING" by (cases "res_state res") simp_all
      moreover from this e(4) have "rdata (env (trace w2 @ [Send_cmd fd ask_state]) (Recv_res fd)) = Result res"
        by (auto simp: zero_result_def)
      ultimately show ?thesis
        using w2 e(1,2) by (intro exI [of _ cs] exI [of _ "[Send_cmd fd ask_state, Recv_res fd] @ es"]) auto
    qed
  qed
qed

text \<open>A host with a machine that answers every command with the same result, for the witnesses.\<close>

definition talk_host :: "MiniKvmStatusResult \<Rightarrow> env" where
  "talk_host res h c = (case c of Read d n \<Rightarrow> \<lparr>rv = 4, rerr = 0, rdata = Bytes (int32_bytes 7)\<rparr>
     | Recv_res d \<Rightarrow> \<lparr>rv = 1, rerr = 0, rdata = Result res\<rparr>
     | _ \<Rightarrow> linux_ok h c)"

lemma os_call_talk_host:
  "os_call (talk_host res) c w = (talk_host res [] c, w\<lparr>trace := trace w @ [c]\<rparr>)"
proof -
  have "0 \<le> rv (talk_host res [] c)"
    using ok_rv_nonneg [of c] by (cases c) (simp_all add: talk_host_def linux_ok_def)
  moreover have "talk_host res (trace w) c = talk_host res [] c"
    by (cases c) (simp_all add: talk_host_def linux_ok_def)
  ultimately show ?thesis by (simp add: os_call_def Let_def)
qed

theorem pause_protocol_witness:
  "\<exists>w'. mini_kvm_pause (talk_host (zero_result\<lparr>res_state := MINI_KVM_RUNNING\<rparr>)) [''pause'', ''-n'', ''vm''] fresh_world
       = Inr (MINI_KVM_SUCCESS, [], w')
     \<and> map cmd_type (sent (trace w')) = [MINI_KVM_COMMAND_SHOW_STATE, MINI_KVM_COMMAND_PAUSE]"
proof -
  let ?env = "talk_host (zero_result\<lparr>res_state := MINI_KVM_RUNNING\<rparr>)"
  have p: "pause_parse_args [''pause'', ''-n'', ''vm''] = Inr \<lparr>parse_ret = MINI_KVM_SUCCESS, arg_name = Some ''vm''\<rparr>"
    using scan_spells_name [of "[''-n'', ''vm'']" "''vm''"] by (simp add: pause_parse_args_def spells_name_def)
  obtain w' where r: "mini_kvm_pause ?env [''pause'', ''-n'', ''vm''] fresh_world = Inr (MINI_KVM_SUCCESS, [], w')"
    and t: "MINI_KVM_COMMAND_PAUSE \<in> set (map cmd_type (sent (trace w')))"
    by (simp add: mini_kvm_pause_def p mini_kvm_check_vm_def mini_kvm_open_vm_fs_def mini_kvm_ipc_connect_def
        sun_path_def SUN_PATH_SIZE_def mini_kvm_ipc_send_cmd_def Let_def os_call_talk_host talk_host_def
        linux_ok_def zero_result_def)
  show ?thesis
    using pause_protocol [OF r] r t by (auto simp: fresh_world_def)
qed

end
