(* ===== verification/Conversion.thy ===== *)
theory Conversion imports Containers Errors Clib begin

text \<open>
  The string conversions of \<open>src/core/core.c\<close>: \<open>mini_kvm_is_uint\<close>, \<open>mini_kvm_to_uint\<close>,
  \<open>mini_kvm_parse_int_list\<close> and \<open>mini_kvm_parse_cpu_list\<close>. A \<open>char *\<close> the code compares with
  NULL is a \<^typ>\<open>string option\<close>. \<open>errno\<close> is passed in and out: \<open>mini_kvm_to_uint\<close> reads it without
  clearing it first. Positions in a string are natural numbers, since a string is shorter than the
  address space. The specification is the grammar of comma-separated fields (\<open>int_list_spec\<close>),
  against which the scanning loop is proved equivalent.
\<close>

section \<open>Definitions\<close>

definition is_digit :: "char \<Rightarrow> bool" where
  "is_digit c = isdigit c"

fun is_uint_loop :: "string \<Rightarrow> nat \<Rightarrow> bool" where
  "is_uint_loop [] n = True"
| "is_uint_loop (c # cs) 0 = True"
| "is_uint_loop (c # cs) (Suc n) = (if \<not> is_digit c then False else is_uint_loop cs n)"

definition mini_kvm_is_uint :: "string option \<Rightarrow> nat \<Rightarrow> bool" where
  "mini_kvm_is_uint str n =
     (case str of None \<Rightarrow> True
      | Some s \<Rightarrow> if length s = 0 \<or> n = 0 then True else is_uint_loop s n)"

text \<open>The result is the status, the value left in \<open>*dst\<close> and \<open>errno\<close>.\<close>

definition mini_kvm_to_uint :: "string option \<Rightarrow> nat \<Rightarrow> u64 \<Rightarrow> int \<Rightarrow> (int \<times> u64 \<times> int) res" where
  "mini_kvm_to_uint str n dst errno =
     (if \<not> mini_kvm_is_uint str n then Inr (-1, dst, errno)
      else (case str of None \<Rightarrow> Inl NullDeref
        | Some s \<Rightarrow>
          let (v, e) = strtoul s; errno' = errno_after errno e
          in if errno' = EINVAL \<or> errno' = ERANGE then Inr (-1, v, errno') else Inr (0, v, errno')))"

function int_list_offset :: "string \<Rightarrow> nat \<Rightarrow> nat \<Rightarrow> nat" where
  "int_list_offset raw_list index offset =
     (if index + offset < length raw_list \<and> mini_kvm_is_uint (Some (drop index raw_list)) offset
      then int_list_offset raw_list index (offset + 1) else offset)"
  by pat_completeness auto
termination
  by (relation "measure (\<lambda>(raw, index, offset). length raw - (index + offset))") auto

declare int_list_offset.simps [simp del]

lemma int_list_offset_ge: "offset \<le> int_list_offset raw_list index offset"
proof (induction raw_list index offset rule: int_list_offset.induct)
  case (1 raw index offset)
  then show ?case by (subst int_list_offset.simps) auto
qed

function int_list_loop ::
  "string \<Rightarrow> nat \<Rightarrow> u64 vec \<Rightarrow> int \<Rightarrow> (int \<times> u64 vec \<times> int) res" where
  "int_list_loop raw_list index list errno =
     (if index < length raw_list then
        let offset = int_list_offset raw_list index 1 in
        if index + offset < length raw_list \<and> raw_list ! (index + offset - 1) \<noteq> CHR '',''
        then Inr (error_code MINI_KVM_ARGS_FAILED, list, errno)
        else res_bind
          (mini_kvm_to_uint (Some (drop index raw_list))
             (offset - (if length raw_list - (index + offset) > 0 then 1 else 0)) 0 errno)
          (\<lambda>(ret, current, errno').
             if ret \<noteq> 0 then Inr (ret, list, errno')
             else res_bind (vec_append list current)
               (\<lambda>list'. int_list_loop raw_list (index + offset) list' errno'))
      else Inr (error_code MINI_KVM_SUCCESS, list, errno))"
  by pat_completeness auto
termination
proof (relation "measure (\<lambda>(raw, index, list, errno). length raw - index)", goal_cases)
  case 1
  show ?case by simp
next
  case (2 raw_list index list errno offset)
  then show ?case using int_list_offset_ge [of 1 raw_list index] by simp
qed

declare int_list_loop.simps [simp del]

definition mini_kvm_parse_int_list :: "string \<Rightarrow> int \<Rightarrow> (int \<times> u64 vec \<times> int) res" where
  "mini_kvm_parse_int_list raw_list errno =
     res_bind (vec_resize vec_new 4) (\<lambda>(_, list). int_list_loop raw_list 0 list errno)"

text \<open>
  \<open>1 << list->tab[i]\<close> shifts an \<open>int\<close>: a count of 32 or more is undefined, and bit 31 is the
  sign, which the conversion to \<open>uint64_t\<close> extends.
\<close>

definition cpu_bit :: "u64 \<Rightarrow> u64 res" where
  "cpu_bit k = (if unat k < 32 then Inr (scast (push_bit (unat k) 1 :: u32)) else Inl BadShift)"

definition cpu_list_mask :: "u64 \<Rightarrow> u64 list \<Rightarrow> u64 res" where
  "cpu_list_mask cpu_list ks =
     res_fold (\<lambda>m k. res_bind (cpu_bit k) (\<lambda>b. Inr (or m b))) cpu_list ks"

text \<open>The result is the status, the mask left in \<open>*cpu_list\<close> and \<open>errno\<close>.\<close>

definition mini_kvm_parse_cpu_list ::
  "string option \<Rightarrow> u64 \<Rightarrow> int \<Rightarrow> (MiniKVMError \<times> u64 \<times> int) res" where
  "mini_kvm_parse_cpu_list raw_list cpu_list errno =
     (case raw_list of None \<Rightarrow> Inr (MINI_KVM_SUCCESS, cpu_list, errno)
      | Some raw \<Rightarrow>
        if raw = [] then Inr (MINI_KVM_SUCCESS, cpu_list, errno)
        else res_bind (mini_kvm_parse_int_list raw errno) (\<lambda>(ret, list, errno').
          if ret \<noteq> error_code MINI_KVM_SUCCESS then Inr (MINI_KVM_INTERNAL_ERROR, cpu_list, errno')
          else res_bind (cpu_list_mask cpu_list (vec_list list))
            (\<lambda>m. Inr (MINI_KVM_SUCCESS, m, errno'))))"

section \<open>Specification\<close>

text \<open>The fields between commas; every string has at least one.\<close>

fun comma_fields :: "string \<Rightarrow> string list" where
  "comma_fields [] = [[]]"
| "comma_fields (c # s) =
     (if c = CHR '','' then [] # comma_fields s
      else (case comma_fields s of [] \<Rightarrow> [[c]] | f # fs \<Rightarrow> (c # f) # fs))"

fun comma_join :: "string list \<Rightarrow> string" where
  "comma_join [] = []"
| "comma_join [f] = f"
| "comma_join (f # g # fs) = f @ CHR '','' # comma_join (g # fs)"

definition is_number :: "string \<Rightarrow> bool" where
  "is_number f \<longleftrightarrow> (\<forall>c \<in> set f. isdigit c) \<and> base_value 10 f < 2 ^ 64"

text \<open>
  What a list of integers is to this program: nothing, or fields of digits that fit 64 bits, where
  a field before the last may be empty (and counts as 0) and the last may not.
\<close>

fun number_fields :: "string list \<Rightarrow> bool" where
  "number_fields [] = False"
| "number_fields [f] = (f \<noteq> [] \<and> is_number f)"
| "number_fields (f # g # fs) = (is_number f \<and> number_fields (g # fs))"

definition int_list_spec :: "string \<Rightarrow> nat list option" where
  "int_list_spec raw =
     (if raw = [] then Some []
      else if number_fields (comma_fields raw) then Some (map (base_value 10) (comma_fields raw))
      else None)"

section \<open>Lemmas\<close>

subsection \<open>Digits\<close>

lemma is_uint_loop_iff: "is_uint_loop s n \<longleftrightarrow> (\<forall>c \<in> set (take n s). isdigit c)"
  by (induction s n rule: is_uint_loop.induct) (auto simp: is_digit_def)

lemma is_uint_iff [simp]: "mini_kvm_is_uint (Some s) n \<longleftrightarrow> (\<forall>c \<in> set (take n s). isdigit c)"
  by (auto simp: mini_kvm_is_uint_def is_uint_loop_iff)

text \<open>\<open>errno\<close> holds none of the two values \<open>mini_kvm_to_uint\<close> takes for a failure.\<close>

definition errno_clear :: "int \<Rightarrow> bool" where
  "errno_clear e \<longleftrightarrow> e \<noteq> EINVAL \<and> e \<noteq> ERANGE"

lemma to_uint_not_digits:
  "\<not> (\<forall>c \<in> set (take n s). isdigit c) \<Longrightarrow> mini_kvm_to_uint (Some s) n dst e = Inr (-1, dst, e)"
  by (simp add: mini_kvm_to_uint_def)

lemma to_uint_digits:
  assumes "ds \<noteq> []" and "\<forall>c \<in> set ds. isdigit c" and "t = [] \<or> \<not> isdigit (hd t)"
    and "n \<le> length ds" and "errno_clear e"
  shows "mini_kvm_to_uint (Some (ds @ t)) n dst e =
    (if base_value 10 ds < 2 ^ 64 then Inr (0, word_of_nat (base_value 10 ds), e) else Inr (-1, -1, ERANGE))"
proof -
  have "\<forall>c \<in> set (take n (ds @ t)). isdigit c"
    using assms(2,4) by (auto dest: in_set_takeD)
  then show ?thesis
    using assms by (simp add: mini_kvm_to_uint_def strtoul_digits errno_after_def errno_clear_def)
qed

lemma to_uint_comma:
  "errno_clear e \<Longrightarrow> mini_kvm_to_uint (Some (CHR '','' # t)) 0 dst e = Inr (0, 0, e)"
  by (simp add: mini_kvm_to_uint_def strtoul_no_digits isspace_def errno_after_def errno_clear_def)

subsection \<open>The scanning loop\<close>

lemma int_list_offset_eq:
  assumes "1 \<le> offset" and "offset \<le> min (length (takeWhile isdigit (drop index raw)) + 1) (length raw - index)"
  shows "int_list_offset raw index offset
     = min (length (takeWhile isdigit (drop index raw)) + 1) (length raw - index)"
  using assms
proof (induction raw index offset rule: int_list_offset.induct)
  case (1 raw index offset)
  let ?d = "length (takeWhile isdigit (drop index raw))"
  show ?case
  proof (cases "index + offset < length raw \<and> offset \<le> ?d")
    case True
    then have "mini_kvm_is_uint (Some (drop index raw)) offset"
      using take_all_iff_takeWhile [of offset "drop index raw" isdigit] by auto
    moreover from True have "Suc offset \<le> length raw - index" by linarith
    ultimately show ?thesis using True 1 by (subst int_list_offset.simps) simp
  next
    case False
    then have "\<not> (index + offset < length raw \<and> mini_kvm_is_uint (Some (drop index raw)) offset)"
      using take_all_iff_takeWhile [of offset "drop index raw" isdigit] by auto
    with False "1.prems" show ?thesis by (subst int_list_offset.simps) auto
  qed
qed

text \<open>One round of the loop, by the shape of what is left of the string.\<close>

lemma int_list_round_last:
  assumes "index < length raw" and "\<forall>c \<in> set (drop index raw). isdigit c" and "errno_clear e"
  shows "int_list_loop raw index l e =
    (if base_value 10 (drop index raw) < 2 ^ 64
     then res_bind (vec_append l (word_of_nat (base_value 10 (drop index raw)))) (\<lambda>l'. Inr (0, l', e))
     else Inr (-1, l, ERANGE))"
proof -
  let ?s = "drop index raw"
  have "takeWhile isdigit ?s = ?s" using assms(2) by (simp add: takeWhile_eq_all_conv)
  then have "length (takeWhile isdigit ?s) = length raw - index"
    by (metis length_drop)
  then have o: "int_list_offset raw index (Suc 0) = length raw - index"
    using assms(1) int_list_offset_eq [of 1 index raw] by simp
  have u: "mini_kvm_to_uint (Some ?s) (length raw - index) 0 e =
    (if base_value 10 ?s < 2 ^ 64 then Inr (0, word_of_nat (base_value 10 ?s), e) else Inr (-1, -1, ERANGE))"
    using to_uint_digits [of ?s "[]" "length raw - index" e 0] assms by simp
  have stop: "int_list_loop raw (length raw) l' e' = Inr (0, l', e')" for l' e'
    by (subst int_list_loop.simps) simp
  show ?thesis
    using assms(1) by (subst int_list_loop.simps) (simp add: Let_def o u stop)
qed

lemma int_list_shape:
  assumes "drop index raw = ds @ c # t" and "\<forall>c \<in> set ds. isdigit c" and "\<not> isdigit c"
  shows "index < length raw" and "length raw = index + Suc (length ds + length t)"
    and "int_list_offset raw index (Suc 0) = Suc (length ds)" and "raw ! (index + length ds) = c"
proof -
  show lt: "index < length raw" using assms(1) by (rule_tac ccontr) simp
  show len: "length raw = index + Suc (length ds + length t)"
    using arg_cong [OF assms(1), of length] lt by simp
  have "takeWhile isdigit (drop index raw) = ds"
    using assms by (simp add: takeWhile_append)
  then show "int_list_offset raw index (Suc 0) = Suc (length ds)"
    using len int_list_offset_eq [of 1 index raw] by simp
  have "raw ! (index + length ds) = drop index raw ! length ds" using lt by simp
  then show "raw ! (index + length ds) = c" using assms(1) by simp
qed

lemma int_list_round_bad:
  assumes "drop index raw = ds @ c # t" and "\<forall>c \<in> set ds. isdigit c" and "\<not> isdigit c"
    and "c \<noteq> CHR '','' \<or> t = []"
  shows "\<exists>r. r \<noteq> 0 \<and> int_list_loop raw index l e = Inr (r, l, e)"
proof -
  note sh = int_list_shape [OF assms(1-3)]
  have "\<not> (\<forall>c \<in> set (take (Suc (length ds)) (drop index raw)). isdigit c)"
    using assms(1,3) by simp
  then have "t = [] \<Longrightarrow> ?thesis"
    using sh by (subst int_list_loop.simps) (simp add: Let_def to_uint_not_digits)
  moreover have "t \<noteq> [] \<Longrightarrow> ?thesis"
    using sh assms(4) by (subst int_list_loop.simps) (simp add: Let_def)
  ultimately show ?thesis by blast
qed

lemma int_list_round_field:
  assumes "drop index raw = ds @ CHR '','' # t" and "\<forall>c \<in> set ds. isdigit c" and "t \<noteq> []" and "errno_clear e"
  shows "int_list_loop raw index l e =
    (if base_value 10 ds < 2 ^ 64
     then res_bind (vec_append l (word_of_nat (base_value 10 ds)))
       (\<lambda>l'. int_list_loop raw (index + length ds + 1) l' e)
     else Inr (-1, l, ERANGE))"
proof -
  note sh = int_list_shape [OF assms(1,2) isdigit_simps(1)]
  have u: "mini_kvm_to_uint (Some (drop index raw)) (length ds) 0 e =
    (if base_value 10 ds < 2 ^ 64 then Inr (0, word_of_nat (base_value 10 ds), e) else Inr (-1, -1, ERANGE))"
  proof (cases "ds = []")
    case True
    with assms(1,4) show ?thesis by (simp add: to_uint_comma)
  next
    case False
    with assms show ?thesis by (simp add: to_uint_digits)
  qed
  from assms(3) sh show ?thesis
    by (subst int_list_loop.simps) (simp add: Let_def u)
qed

subsection \<open>The grammar\<close>

lemma comma_fields_nonempty [simp]: "comma_fields s \<noteq> []"
  by (induction s) (auto split: list.splits)

lemma comma_fields_no_comma: "CHR '','' \<notin> set s \<Longrightarrow> comma_fields s = [s]"
  by (induction s) auto

lemma comma_fields_append:
  "CHR '','' \<notin> set s \<Longrightarrow> comma_fields (s @ CHR '','' # t) = s # comma_fields t"
  by (induction s) auto

lemma comma_fields_join:
  "fs \<noteq> [] \<Longrightarrow> (\<And>f. f \<in> set fs \<Longrightarrow> CHR '','' \<notin> set f) \<Longrightarrow> comma_fields (comma_join fs) = fs"
  by (induction fs rule: comma_join.induct) (auto simp: comma_fields_no_comma comma_fields_append)

lemma digits_no_comma: "(\<forall>c \<in> set s. isdigit c) \<Longrightarrow> CHR '','' \<notin> set s"
  using isdigit_simps(1) by blast

lemma number_fields_Cons: "fs \<noteq> [] \<Longrightarrow> number_fields (f # fs) \<longleftrightarrow> is_number f \<and> number_fields fs"
  by (cases fs) auto

lemma number_fields_all:
  "fs \<noteq> [] \<Longrightarrow> (\<And>f. f \<in> set fs \<Longrightarrow> f \<noteq> [] \<and> is_number f) \<Longrightarrow> number_fields fs"
  by (induction fs rule: number_fields.induct) auto

lemma comma_fields_head:
  "\<forall>c \<in> set ds. isdigit c \<Longrightarrow> c \<noteq> CHR '','' \<Longrightarrow> \<exists>g gs. comma_fields (ds @ c # t) = (ds @ c # g) # gs"
proof (induction ds)
  case Nil
  then show ?case by (cases "comma_fields t") auto
next
  case (Cons d ds)
  then show ?case using isdigit_simps(1) by auto
qed

lemma not_number_field:
  assumes "\<forall>c \<in> set ds. isdigit c" and "\<not> isdigit c" and "c \<noteq> CHR '','' \<or> t = []"
  shows "\<not> number_fields (comma_fields (ds @ c # t))"
proof (cases "c = CHR '',''")
  case True
  with assms show ?thesis by (simp add: comma_fields_append digits_no_comma)
next
  case False
  then obtain g gs where "comma_fields (ds @ c # t) = (ds @ c # g) # gs"
    using comma_fields_head [OF assms(1) False, of t] by blast
  then show ?thesis using assms(2) by (cases gs) (auto simp: is_number_def)
qed

text \<open>The specification, by the shape of the string.\<close>

lemma int_list_spec_digits:
  "s \<noteq> [] \<Longrightarrow> \<forall>c \<in> set s. isdigit c \<Longrightarrow>
    int_list_spec s = (if base_value 10 s < 2 ^ 64 then Some [base_value 10 s] else None)"
  by (simp add: int_list_spec_def comma_fields_no_comma digits_no_comma is_number_def)

lemma int_list_spec_bad:
  "\<forall>c \<in> set ds. isdigit c \<Longrightarrow> \<not> isdigit c \<Longrightarrow> c \<noteq> CHR '','' \<or> t = [] \<Longrightarrow>
    int_list_spec (ds @ c # t) = None"
  by (simp add: int_list_spec_def not_number_field)

lemma int_list_spec_field:
  "\<forall>c \<in> set ds. isdigit c \<Longrightarrow> t \<noteq> [] \<Longrightarrow>
    int_list_spec (ds @ CHR '','' # t) = (if base_value 10 ds < 2 ^ 64
      then map_option (\<lambda>vs. base_value 10 ds # vs) (int_list_spec t) else None)"
  by (simp add: int_list_spec_def comma_fields_append digits_no_comma number_fields_Cons is_number_def)

subsection \<open>The loop implements the grammar\<close>

lemma int_list_loop_spec:
  assumes "vec_grown l" and "length (vec_list l) + length (drop index raw) \<le> vec_limit" and "errno_clear e"
  shows "case int_list_spec (drop index raw) of
      Some vs \<Rightarrow> \<exists>l'. int_list_loop raw index l e = Inr (0, l', e) \<and> vec_grown l'
        \<and> vec_list l' = vec_list l @ map word_of_nat vs
    | None \<Rightarrow> \<exists>r l' e'. r \<noteq> 0 \<and> int_list_loop raw index l e = Inr (r, l', e')"
  using assms
proof (induction "length raw - index" arbitrary: index l rule: less_induct)
  case less
  let ?s = "drop index raw"
  show ?case
  proof (cases "?s = []")
    case True
    with less.prems show ?thesis by (subst int_list_loop.simps) (auto simp: int_list_spec_def)
  next
    case False
    have room: "length (vec_list l) < vec_limit" using False less.prems(2) by simp
    show ?thesis
    proof (rule split_takeWhile [of isdigit ?s])
      assume "takeWhile isdigit ?s = ?s"
      then have dig: "\<forall>c \<in> set ?s. isdigit c" by (simp only: takeWhile_eq_all_conv)
      obtain l' where "vec_append l (word_of_nat (base_value 10 ?s)) = Inr l'" "vec_grown l'"
        "vec_list l' = vec_list l @ [word_of_nat (base_value 10 ?s)]"
        using cvec.append_law [OF less.prems(1) room] by blast
      with dig False show ?thesis
        using int_list_round_last [OF _ dig less.prems(3), of l]
        by (simp add: int_list_spec_digits)
    next
      fix c t
      assume s: "?s = takeWhile isdigit ?s @ c # t" and c: "\<not> isdigit c"
      define ds where "ds = takeWhile isdigit ?s"
      have ds: "?s = ds @ c # t" "\<forall>c \<in> set ds. isdigit c"
        using s by (auto simp: ds_def dest: set_takeWhileD)
      show ?thesis
      proof (cases "c = CHR '','' \<and> t \<noteq> []")
        case False
        then show ?thesis
          using int_list_round_bad [OF ds c, of l e] int_list_spec_bad [OF ds(2) c] ds(1) by auto
      next
        case True
        note sh = int_list_shape [OF ds c]
        have rest: "drop (index + length ds + 1) raw = t"
          using arg_cong [OF ds(1), of "drop (length ds + 1)"] by (simp add: add.commute)
        obtain l' where l': "vec_append l (word_of_nat (base_value 10 ds)) = Inr l'" "vec_grown l'"
          "vec_list l' = vec_list l @ [word_of_nat (base_value 10 ds)]"
          using cvec.append_law [OF less.prems(1) room] by blast
        have ih: "case int_list_spec t of
            Some vs \<Rightarrow> \<exists>l2. int_list_loop raw (index + length ds + 1) l' e = Inr (0, l2, e)
              \<and> vec_grown l2 \<and> vec_list l2 = vec_list l' @ map word_of_nat vs
          | None \<Rightarrow> \<exists>r l2 e'. r \<noteq> 0 \<and> int_list_loop raw (index + length ds + 1) l' e = Inr (r, l2, e')"
          using less.hyps [of "index + length ds + 1" l'] sh(1,2) l' less.prems(2,3)
          unfolding rest by simp
        from True ds(1) have s_eq: "?s = ds @ CHR '','' # t" by simp
        show ?thesis
          using ih l' int_list_round_field [OF s_eq ds(2) _ less.prems(3), of l] True
          unfolding s_eq by (auto simp: int_list_spec_field [OF ds(2)] split: option.splits)
      qed
    qed
  qed
qed

lemma parse_int_list_start:
  obtains l where "vec_resize (vec_new :: u64 vec) 4 = Inr (0, l)" and "vec_grown l" and "vec_list l = []"
proof -
  let ?l = "\<lparr>tab = replicate 4 None, len = 0, capacity = 4\<rparr> :: u64 vec"
  show thesis
    by (rule that [of ?l])
      (simp_all add: vec_resize_def vec_new_def vec_grown_def vec_ok_def vec_size_def vec_list_def
        word_le_nat_alt word_less_nat_alt)
qed

lemma parse_int_list_equiv_spec_core:
  assumes "errno_clear e" and "length raw \<le> vec_limit"
  shows "case int_list_spec raw of
      Some vs \<Rightarrow> \<exists>l. mini_kvm_parse_int_list raw e = Inr (0, l, e) \<and> vec_grown l
        \<and> vec_list l = map word_of_nat vs
    | None \<Rightarrow> \<exists>r l e'. r \<noteq> 0 \<and> mini_kvm_parse_int_list raw e = Inr (r, l, e')"
proof -
  obtain l where l: "vec_resize (vec_new :: u64 vec) 4 = Inr (0, l)" "vec_grown l" "vec_list l = []"
    by (rule parse_int_list_start)
  show ?thesis
    using int_list_loop_spec [OF l(2), of 0 raw e] l assms
    by (auto simp: mini_kvm_parse_int_list_def split: option.splits)
qed

text \<open>A printed list is in the grammar and denotes its numbers.\<close>

lemma int_list_spec_join:
  assumes "ws \<noteq> []"
  shows "int_list_spec (comma_join (map (\<lambda>w. dec_string (unat (w :: u64))) ws)) = Some (map unat ws)"
proof -
  let ?fs = "map (\<lambda>w. dec_string (unat (w :: u64))) ws"
  have fields: "comma_fields (comma_join ?fs) = ?fs"
    using assms isdigit_dec_string [of "CHR '',''"] by (intro comma_fields_join) auto
  have "is_number (dec_string (unat w))" for w :: u64
    using unat_u64_less [of w] isdigit_dec_string by (simp add: is_number_def)
  with assms have "number_fields ?fs"
    by (intro number_fields_all) auto
  moreover have "comma_join ?fs \<noteq> []" using assms by (cases ws rule: remdups_adj.cases) auto
  ultimately show ?thesis
    by (simp add: int_list_spec_def fields comp_def)
qed

subsection \<open>The CPU mask\<close>

lemma bit_int_shift:
  "n < 32 \<Longrightarrow> bit (scast (push_bit n 1 :: u32) :: u64) i \<longleftrightarrow> i = n \<or> n = 31 \<and> 31 \<le> i \<and> i < 64"
  by (auto simp: bit_simps)

lemma cpu_bit_small:
  assumes "k < 31"
  shows "\<exists>b. cpu_bit (word_of_nat k) = Inr b \<and> (\<forall>i. bit b i \<longleftrightarrow> i = k)"
proof -
  have u: "unat (word_of_nat k :: u64) = k" using assms by (simp add: unat_of_nat)
  with assms bit_int_shift [of k] show ?thesis by (simp add: cpu_bit_def)
qed

lemma cpu_list_mask_bits:
  "\<forall>k \<in> set ks. k < 31 \<Longrightarrow>
    \<exists>m'. cpu_list_mask m (map word_of_nat ks) = Inr m' \<and> (\<forall>i. bit m' i \<longleftrightarrow> bit m i \<or> i \<in> set ks)"
proof (induction ks arbitrary: m)
  case Nil
  show ?case by (simp add: cpu_list_mask_def)
next
  case (Cons k ks)
  then have "k < 31" by simp
  then obtain b where b: "cpu_bit (word_of_nat k) = Inr b" "\<forall>i. bit b i \<longleftrightarrow> i = k"
    using cpu_bit_small by blast
  from Cons.prems Cons.IH [of "or m b"] obtain m' where m': "cpu_list_mask (or m b) (map word_of_nat ks) = Inr m'"
    "\<forall>i. bit m' i \<longleftrightarrow> bit (or m b) i \<or> i \<in> set ks"
    by auto
  then show ?case using b by (auto simp: cpu_list_mask_def bit_simps)
qed

section \<open>Properties\<close>

text \<open>C13. \<open>mini_kvm_parse_int_list\<close> accepts exactly the strings of the specified grammar: on a
  string of comma-separated numbers it succeeds and the vector holds their values in order (an
  empty inner field counts as 0); on every other string it returns an error. It never faults.\<close>

theorem parse_int_list_equiv_spec:
  assumes "errno_clear e" and "length raw \<le> vec_limit"
  shows "case int_list_spec raw of
      Some vs \<Rightarrow> \<exists>l. mini_kvm_parse_int_list raw e = Inr (0, l, e) \<and> vec_list l = map word_of_nat vs
    | None \<Rightarrow> \<exists>r l e'. r \<noteq> 0 \<and> mini_kvm_parse_int_list raw e = Inr (r, l, e')"
  using parse_int_list_equiv_spec_core [OF assms] by (auto split: option.splits)

theorem parse_int_list_equiv_spec_witness:
  "(\<exists>l. mini_kvm_parse_int_list ''0,,32'' 0 = Inr (0, l, 0) \<and> vec_list l = [0, 0, 32])
   \<and> (\<exists>r l e'. r \<noteq> 0 \<and> mini_kvm_parse_int_list ''1,'' 0 = Inr (r, l, e'))"
proof -
  have e: "errno_clear 0" by (simp add: errno_clear_def)
  have s1: "int_list_spec ''0,,32'' = Some [0, 0, 32]" and s2: "int_list_spec ''1,'' = None"
    by (simp_all add: int_list_spec_def is_number_def isdigit_def base_value_def char_digit_def)
  show ?thesis
    using parse_int_list_equiv_spec [OF e, of "''0,,32''"] parse_int_list_equiv_spec [OF e, of "''1,''"]
    by (simp add: s1 s2 vec_limit_def)
qed

text \<open>C25. Round trip: printing a non-empty list of 64-bit numbers with \<open>%lu\<close> and commas, and parsing
  the text with \<open>mini_kvm_parse_int_list\<close>, gives the list back.\<close>

theorem parse_int_list_roundtrip:
  assumes "ws \<noteq> []" and "errno_clear e"
    and "length (comma_join (map (\<lambda>w. dec_string (unat w)) ws)) \<le> vec_limit"
  shows "\<exists>l. mini_kvm_parse_int_list (comma_join (map (\<lambda>w. dec_string (unat w)) ws)) e = Inr (0, l, e)
     \<and> vec_list l = ws"
  using parse_int_list_equiv_spec_core [OF assms(2,3)] int_list_spec_join [OF assms(1)] by (auto simp: comp_def)

theorem parse_int_list_roundtrip_witness:
  "\<exists>l. mini_kvm_parse_int_list ''4096,16'' 0 = Inr (0, l, 0) \<and> vec_list l = [4096, 16]"
proof -
  have e: "errno_clear 0" by (simp add: errno_clear_def)
  have j: "comma_join (map (\<lambda>w. dec_string (unat w)) [4096, 16 :: u64]) = ''4096,16''"
    by (simp add: dec_string_def base_string.simps digit_char_def char_of_def bit_0)
  show ?thesis
    using parse_int_list_roundtrip [of "[4096, 16]" 0] e unfolding j by (simp add: vec_limit_def)
qed

text \<open>\<open>mini_kvm_to_uint\<close> on every argument that is not NULL: text whose first \<open>n\<close> characters are not
  all digits is refused and \<open>*dst\<close> keeps its value; a number that fits 64 bits is stored exactly;
  a larger one is refused with \<open>errno = ERANGE\<close>.\<close>

theorem to_uint_functional:
  assumes "errno_clear e" and "s \<noteq> []" and "0 < n"
  shows "mini_kvm_to_uint (Some s) n dst e =
    (if \<exists>c \<in> set (take n s). \<not> isdigit c then Inr (-1, dst, e)
     else if base_value 10 (takeWhile isdigit s) < 2 ^ 64
     then Inr (0, word_of_nat (base_value 10 (takeWhile isdigit s)), e)
     else Inr (-1, -1, ERANGE))"
proof (cases "\<forall>c \<in> set (take n s). isdigit c")
  case True
  define ds t where "ds = takeWhile isdigit s" and "t = dropWhile isdigit s"
  have s: "s = ds @ t" "\<forall>c \<in> set ds. isdigit c" "t = [] \<or> \<not> isdigit (hd t)"
    using hd_dropWhile [of isdigit s] by (auto simp: ds_def t_def dest: set_takeWhileD)
  have ne: "ds \<noteq> []" using True assms(2,3) by (cases s; cases n) (auto simp: ds_def)
  have "mini_kvm_to_uint (Some s) n dst e = mini_kvm_to_uint (Some (ds @ t)) 0 dst e"
    using True s(1) by (simp add: mini_kvm_to_uint_def)
  then show ?thesis using True to_uint_digits [OF ne s(2,3) _ assms(1)] by (simp add: ds_def)
next
  case False
  then show ?thesis using to_uint_not_digits [OF False] by auto
qed

theorem to_uint_functional_witness:
  "mini_kvm_to_uint (Some ''4096K'') 4 0 0 = Inr (0, 4096, 0) \<and> mini_kvm_to_uint (Some ''4x'') 2 7 0 = Inr (-1, 7, 0)"
proof -
  have e: "errno_clear 0" by (simp add: errno_clear_def)
  have a: "mini_kvm_to_uint (Some ''4096K'') 4 0 0 = Inr (0, 4096, 0)"
    using to_uint_functional [OF e, of "''4096K''" 4 0]
    by (simp add: isdigit_def base_value_def char_digit_def)
  have b: "mini_kvm_to_uint (Some ''4x'') 2 7 0 = Inr (-1, 7, 0)"
    using to_uint_functional [OF e, of "''4x''" 2 7] by (simp add: isdigit_def)
  from a b show ?thesis by simp
qed

text \<open>The mask \<open>mini_kvm_parse_cpu_list\<close> builds: for a well-formed list of CPU numbers below 31
  it succeeds, and bit \<open>i\<close> of the result is set iff it was set before or \<open>i\<close> is in the list.\<close>

theorem parse_cpu_list_mask:
  assumes "errno_clear e" and "length raw \<le> vec_limit" and "raw \<noteq> []"
    and "int_list_spec raw = Some ks" and "\<forall>k \<in> set ks. k < 31"
  shows "\<exists>m'. mini_kvm_parse_cpu_list (Some raw) m e = Inr (MINI_KVM_SUCCESS, m', e)
     \<and> (\<forall>i. bit m' i \<longleftrightarrow> bit m i \<or> i \<in> set ks)"
proof -
  have fold: "\<exists>m'. cpu_list_mask m (map word_of_nat ks) = Inr m' \<and> (\<forall>i. bit m' i \<longleftrightarrow> bit m i \<or> i \<in> set ks)"
    using assms(5) by (rule cpu_list_mask_bits)
  obtain l where "mini_kvm_parse_int_list raw e = Inr (0, l, e)" "vec_list l = map word_of_nat ks"
    using parse_int_list_equiv_spec_core [OF assms(1,2)] assms(4) by auto
  with fold assms(3) show ?thesis by (auto simp: mini_kvm_parse_cpu_list_def)
qed

theorem parse_cpu_list_mask_witness:
  "\<exists>m'. mini_kvm_parse_cpu_list (Some ''0,3'') 0 0 = Inr (MINI_KVM_SUCCESS, m', 0) \<and> (\<forall>i. bit m' i \<longleftrightarrow> i = 0 \<or> i = 3)"
proof -
  have e: "errno_clear 0" by (simp add: errno_clear_def)
  have s: "int_list_spec ''0,3'' = Some [0, 3]"
    by (simp add: int_list_spec_def is_number_def isdigit_def base_value_def char_digit_def)
  show ?thesis using parse_cpu_list_mask [OF e _ _ s, of 0] by (simp add: vec_limit_def)
qed

text \<open>Where the mask goes wrong: for CPU 31 the shift of an \<open>int\<close> sets the sign bit and the
  conversion to 64 bits sets bits 31 to 63, so one number selects 33 CPUs; a number from 32 on, which
  \<open>MINI_KVM_MAX_VCPUS\<close> allows up to 63, is an undefined shift.\<close>

theorem cpu_bit_high:
  "(\<exists>b. cpu_bit 31 = Inr b \<and> (\<forall>i < 64. bit b i \<longleftrightarrow> 31 \<le> i)) \<and> (32 \<le> k \<longrightarrow> cpu_bit k = Inl BadShift)"
proof -
  have sh: "bit (scast (push_bit n 1 :: u32) :: u64) i \<longleftrightarrow> 31 \<le> i" if "n = 31" and "i < 64" for n i
    using bit_int_shift [of n i] that by auto
  have "cpu_bit 31 = Inr (scast (push_bit 31 1 :: u32))" by (simp add: cpu_bit_def)
  moreover have "\<forall>i < 64. bit (scast (push_bit 31 1 :: u32) :: u64) i \<longleftrightarrow> 31 \<le> i"
    by (intro allI impI sh) (rule refl)
  ultimately show ?thesis by (auto simp: cpu_bit_def word_le_nat_alt)
qed

end
