(* ===== verification/Guest_Memory.thy ===== *)
theory Guest_Memory imports Kvm_Data begin

text \<open>
  The code that writes and reads guest memory: \<open>kvm_setup_pages\<close> (\<open>src/kvm/kvm.c\<close>) and
  \<open>load_kernel\<close> (\<open>src/commands/run.c\<close>). Every access is checked against the mapping of
  \<open>mem_size\<close> bytes. The page tables are interpreted by \<open>page_walk\<close>, the four-level translation
  of the x86-64 architecture, which is the specification they are proved against. The interface
  between the tables and the memory that holds them is the locale \<open>word_memory\<close>.
\<close>

section \<open>Byte and word access\<close>

definition guest_write :: "nat \<Rightarrow> u8 list \<Rightarrow> (nat \<Rightarrow> u8) \<Rightarrow> nat \<Rightarrow> u8" where
  "guest_write a bs m = (\<lambda>i. if a \<le> i \<and> i < a + length bs then bs ! (i - a) else m i)"

text \<open>A store of bytes through \<open>kvm->mem + a\<close>.\<close>

definition mem_write :: "Kvm \<Rightarrow> nat \<Rightarrow> u8 list \<Rightarrow> Kvm res" where
  "mem_write kvm a bs =
     (if mem kvm = 0 then Inl NullDeref
      else if a + length bs \<le> unat (mem_size kvm)
      then Inr (kvm\<lparr>guest := guest_write a bs (guest kvm)\<rparr>)
      else Inl OutOfBounds)"

text \<open>A load of one byte through \<open>kvm->mem + a\<close>.\<close>

definition mem_read :: "Kvm \<Rightarrow> nat \<Rightarrow> u8 res" where
  "mem_read kvm a =
     (if mem kvm = 0 then Inl NullDeref
      else if a < unat (mem_size kvm) then Inr (guest kvm a) else Inl OutOfBounds)"

definition load64 :: "(nat \<Rightarrow> u8) \<Rightarrow> nat \<Rightarrow> u64" where
  "load64 m a = word_of_nat (of_le (map m [a..<a + 8]))"

definition store64 :: "nat \<Rightarrow> u64 \<Rightarrow> (nat \<Rightarrow> u8) \<Rightarrow> nat \<Rightarrow> u8" where
  "store64 a w m = guest_write a (le64 w) m"

section \<open>Page tables\<close>

definition kvm_setup_pages :: "Kvm \<Rightarrow> (MiniKVMError \<times> Kvm) res" where
  "kvm_setup_pages kvm =
     (let plm4_addr = PLM4_ADDR;
          pdpt_addr = plm4_addr + PAGE_SIZE;
          pdt_addr = pdpt_addr + PAGE_SIZE
      in if sint (mem_size kvm) < MINIMUM_MEMORY_REQUIRED
         then Inr (MINI_KVM_NOT_ENOUGH_MEMORY, kvm)
         else
           res_bind (mem_write kvm (unat plm4_addr) (replicate (unat (PAGE_SIZE * 3)) 0)) (\<lambda>k1.
           res_bind (mem_write k1 (unat plm4_addr)
                       (le64 (or (or (and pdpt_addr PT_ADDR_MASK) PT_PRESENT) PT_RW))) (\<lambda>k2.
           res_bind (mem_write k2 (unat pdpt_addr)
                       (le64 (or (or (and pdt_addr PT_ADDR_MASK) PT_PRESENT) PT_RW))) (\<lambda>k3.
           res_bind (mem_write k3 (unat pdt_addr)
                       (le64 (or (or PT_PAGE_SIZE PT_PRESENT) PT_RW))) (\<lambda>k4.
           Inr (MINI_KVM_SUCCESS, k4))))))"

text \<open>
  \<open>load_kernel\<close> with its two pointers given; the kernel image is \<^term>\<open>None\<close> when no file was
  read. The copy is as long as the image, whatever the size of the memory.
\<close>

definition load_kernel :: "Kvm option \<Rightarrow> u8 list option \<Rightarrow> u64 \<Rightarrow> (MiniKVMError \<times> Kvm option) res" where
  "load_kernel kvm kernel_code addr =
     (case kvm of None \<Rightarrow> Inr (MINI_KVM_INTERNAL_ERROR, kvm)
      | Some k \<Rightarrow>
        (case kernel_code of None \<Rightarrow> Inr (MINI_KVM_INTERNAL_ERROR, kvm)
         | Some code \<Rightarrow>
           if length code = 0 then Inr (MINI_KVM_INTERNAL_ERROR, kvm)
           else if mem k = 0 then Inr (MINI_KVM_INTERNAL_ERROR, kvm)
           else res_bind (mem_write k (unat addr) code) (\<lambda>k'. Inr (MINI_KVM_SUCCESS, Some k'))))"

section \<open>Address translation\<close>

text \<open>
  The four-level walk from \<open>cr3\<close>: bit 0 of an entry is the present bit, bit 7 of an entry of the
  second or third level makes it a large page, bits 12 to 51 are the address of the next table.
\<close>

definition pt_index :: "u64 \<Rightarrow> nat \<Rightarrow> nat" where
  "pt_index va level = unat (and (drop_bit (12 + 9 * level) va) 0x1ff)"

definition pt_entry :: "(nat \<Rightarrow> u64) \<Rightarrow> u64 \<Rightarrow> nat \<Rightarrow> u64" where
  "pt_entry ld table i = ld (unat (and table PT_ADDR_MASK) + 8 * i)"

definition pt_page :: "u64 \<Rightarrow> u64 \<Rightarrow> nat \<Rightarrow> u64" where
  "pt_page e va n = or (and (and e PT_ADDR_MASK) (not (mask n))) (and va (mask n))"

definition page_walk :: "(nat \<Rightarrow> u64) \<Rightarrow> u64 \<Rightarrow> u64 \<Rightarrow> u64 option" where
  "page_walk ld cr3 va =
     (let e4 = pt_entry ld cr3 (pt_index va 3) in if \<not> bit e4 0 then None
      else let e3 = pt_entry ld e4 (pt_index va 2) in if \<not> bit e3 0 then None
      else if bit e3 7 then Some (pt_page e3 va 30)
      else let e2 = pt_entry ld e3 (pt_index va 1) in if \<not> bit e2 0 then None
      else if bit e2 7 then Some (pt_page e2 va 21)
      else let e1 = pt_entry ld e2 (pt_index va 0) in if \<not> bit e1 0 then None
      else Some (pt_page e1 va 12))"

section \<open>The interface of word memory\<close>

locale word_memory =
  fixes load :: "'m \<Rightarrow> nat \<Rightarrow> u64"
    and store :: "nat \<Rightarrow> u64 \<Rightarrow> 'm \<Rightarrow> 'm"
  assumes load_store_same: "load (store a w m) a = w"
    and load_store_other: "a + 8 \<le> b \<or> b + 8 \<le> a \<Longrightarrow> load (store a w m) b = load m b"
begin

text \<open>Storing one entry into a table of zeros leaves every other entry of it zero.\<close>

lemma table_entry:
  assumes "\<And>i. i < 512 \<Longrightarrow> load m (t + 8 * i) = 0" and "j < 512"
  shows "load (store t e m) (t + 8 * j) = (if j = 0 then e else 0)"
  using assms by (cases "j = 0") (simp_all add: load_store_same load_store_other)

lemma table_other:
  assumes "t + 8 \<le> t' \<or> t' + 8 * 512 \<le> t" and "j < 512"
  shows "load (store t e m) (t' + 8 * j) = load m (t' + 8 * j)"
  using assms by (intro load_store_other) auto

text \<open>
  Three tables of 512 entries, one page apart, with one entry each: what a reader of the memory
  finds in them once the entries are stored in order.
\<close>

lemma three_tables:
  fixes e2 e3 e4 :: u64
  assumes "\<And>i. i < 512 \<Longrightarrow> load m (t + 8 * i) = 0"
    and "\<And>i. i < 512 \<Longrightarrow> load m (t + 4096 + 8 * i) = 0"
    and "\<And>i. i < 512 \<Longrightarrow> load m (t + 8192 + 8 * i) = 0"
    and "j < 512"
  defines "m' \<equiv> store (t + 8192) e2 (store (t + 4096) e3 (store t e4 m))"
  shows "load m' (t + 8 * j) = (if j = 0 then e4 else 0)"
    and "load m' (t + 4096 + 8 * j) = (if j = 0 then e3 else 0)"
    and "load m' (t + 8192 + 8 * j) = (if j = 0 then e2 else 0)"
proof -
  let ?m1 = "store t e4 m" and ?m2 = "store (t + 4096) e3 (store t e4 m)"
  have "load m' (t + 8 * j) = load ?m1 (t + 8 * j)"
    using assms(4) by (simp add: m'_def load_store_other)
  then show "load m' (t + 8 * j) = (if j = 0 then e4 else 0)"
    using table_entry [OF assms(1,4)] by simp
  have "load m' (t + 4096 + 8 * j) = load ?m2 (t + 4096 + 8 * j)"
    using assms(4) by (simp add: m'_def load_store_other)
  moreover have "load ?m1 (t + 4096 + 8 * i) = 0" if "i < 512" for i
    using that assms(2) by (simp add: load_store_other)
  ultimately show "load m' (t + 4096 + 8 * j) = (if j = 0 then e3 else 0)"
    using table_entry [of ?m1 "t + 4096" j e3] assms(4) by simp
  have "load ?m2 (t + 8192 + 8 * i) = 0" if "i < 512" for i
    using that assms(3) by (simp add: load_store_other)
  then show "load m' (t + 8192 + 8 * j) = (if j = 0 then e2 else 0)"
    using table_entry [of ?m2 "t + 8192" j e2] assms(4) by (simp add: m'_def)
qed

end

section \<open>Guest memory as word memory\<close>

lemma le64_digits: "le64 w = map (\<lambda>i. word_of_nat (unat w div 256 ^ i)) [0..<8]"
proof -
  have "ucast (drop_bit (8 * i) w) = (word_of_nat (unat w div 256 ^ i) :: u8)" for i
  proof -
    have "unat (drop_bit (8 * i) w) = unat w div 256 ^ i"
      by (simp only: unat_drop_bit_eq) (simp add: drop_bit_eq_div power_mult)
    then show ?thesis by (simp only: ucast_via_nat)
  qed
  then show ?thesis by (simp add: le64_def)
qed

lemma of_le_le64 [simp]: "of_le (le64 w) = unat w"
  using unat_u64_less [of w] by (simp add: le64_digits of_le_digits)

lemma map_guest_write_same: "map (guest_write a bs m) [a..<a + length bs] = bs"
  by (rule nth_equalityI) (simp_all add: guest_write_def)

lemma map_guest_write_other:
  "b + n \<le> a \<or> a + length bs \<le> b \<Longrightarrow> map (guest_write a bs m) [b..<b + n] = map m [b..<b + n]"
  by (auto simp: guest_write_def)

interpretation gmem: word_memory load64 store64
proof unfold_locales
  fix a b :: nat and w :: u64 and m :: "nat \<Rightarrow> u8"
  show "load64 (store64 a w m) a = w"
    using map_guest_write_same [of a "le64 w" m] by (simp add: load64_def store64_def)
  show "load64 (store64 a w m) b = load64 m b" if "a + 8 \<le> b \<or> b + 8 \<le> a"
    using map_guest_write_other [of b 8 a "le64 w" m] that
    by (simp only: load64_def store64_def length_le64 disj_commute)
qed

lemma load64_zeros: "(\<And>i. i < 8 \<Longrightarrow> m (a + i) = 0) \<Longrightarrow> load64 m a = 0"
proof -
  assume z: "\<And>i. i < 8 \<Longrightarrow> m (a + i) = 0"
  have "map m [a..<a + 8] = replicate 8 0"
    by (rule nth_equalityI) (simp_all add: z)
  then show ?thesis by (simp add: load64_def numeral_eq_Suc)
qed

lemma load64_cong: "(\<And>i. i < 8 \<Longrightarrow> m (a + i) = m' (a + i)) \<Longrightarrow> load64 m a = load64 m' a"
proof -
  assume z: "\<And>i. i < 8 \<Longrightarrow> m (a + i) = m' (a + i)"
  have "map m [a..<a + 8] = map m' [a..<a + 8]"
    by (rule nth_equalityI) (simp_all add: z)
  then show ?thesis by (simp only: load64_def)
qed

section \<open>The tables the program builds\<close>

text \<open>The memory after \<open>kvm_setup_pages\<close>, as one expression.\<close>

definition boot_tables :: "(nat \<Rightarrow> u8) \<Rightarrow> nat \<Rightarrow> u8" where
  "boot_tables m = store64 0x3000 0x83 (store64 0x2000 0x3003 (store64 0x1000 0x2003
     (guest_write 0x1000 (replicate 0x3000 0) m)))"

lemma setup_pages_eq:
  "kvm_setup_pages kvm =
    (if sint (mem_size kvm) < 0x5000 then Inr (MINI_KVM_NOT_ENOUGH_MEMORY, kvm)
     else if mem kvm = 0 then Inl NullDeref
     else Inr (MINI_KVM_SUCCESS, kvm\<lparr>guest := boot_tables (guest kvm)\<rparr>))"
proof -
  have big: "0x4000 \<le> unat (mem_size kvm)" if "\<not> sint (mem_size kvm) < 0x5000"
    using that sint_le_unat [of "mem_size kvm"] by linarith
  show ?thesis
  proof (cases "sint (mem_size kvm) < 0x5000")
    case True
    then show ?thesis by (simp add: kvm_setup_pages_def)
  next
    case False
    with big [OF False] show ?thesis
      by (simp add: kvm_setup_pages_def mem_write_def boot_tables_def store64_def)
  qed
qed

lemma boot_tables_entry:
  assumes "j < 512"
  shows "load64 (boot_tables m) (0x1000 + 8 * j) = (if j = 0 then 0x2003 else 0)"
    and "load64 (boot_tables m) (0x2000 + 8 * j) = (if j = 0 then 0x3003 else 0)"
    and "load64 (boot_tables m) (0x3000 + 8 * j) = (if j = 0 then 0x83 else 0)"
proof -
  let ?z = "guest_write 0x1000 (replicate 0x3000 0) m"
  have z: "load64 ?z (0x1000 + k) = 0" if "k + 8 \<le> 0x3000" for k
    using that by (intro load64_zeros) (simp add: guest_write_def)
  have t: "load64 ?z (4096 + 8 * i) = 0" "load64 ?z (4096 + 4096 + 8 * i) = 0"
    "load64 ?z (4096 + 8192 + 8 * i) = 0" if "i < 512" for i
    using that z [of "8 * i"] z [of "4096 + 8 * i"] z [of "8192 + 8 * i"] by (simp_all add: add.assoc)
  show "load64 (boot_tables m) (0x1000 + 8 * j) = (if j = 0 then 0x2003 else 0)"
    and "load64 (boot_tables m) (0x2000 + 8 * j) = (if j = 0 then 0x3003 else 0)"
    and "load64 (boot_tables m) (0x3000 + 8 * j) = (if j = 0 then 0x83 else 0)"
    using gmem.three_tables [of ?z 4096 j "0x83" "0x3003" "0x2003", OF t assms]
    by (simp_all add: boot_tables_def)
qed

lemma pt_index_less: "pt_index va level < 512"
proof -
  have "and (drop_bit (12 + 9 * level) va) 0x1ff \<le> (0x1ff :: u64)" by (rule word_and_le1)
  then show ?thesis by (simp add: pt_index_def word_le_nat_alt)
qed

lemma unat_and_mask9: "unat (and (x :: u64) 0x1ff) = unat x mod 512"
proof -
  have "and x 0x1ff = take_bit 9 x" by (simp add: take_bit_eq_mask mask_eq_exp_minus_1)
  then show ?thesis by (simp add: unat_take_bit)
qed

lemma pt_index_eq: "pt_index va level = unat va div 2 ^ (12 + 9 * level) mod 512"
  by (simp only: pt_index_def unat_and_mask9 unat_drop_bit_eq) (simp add: drop_bit_eq_div)

text \<open>
  The virtual addresses of the first two megabytes are those whose three upper indices are 0.
\<close>

lemma low_2M_iff:
  assumes "unat va < 2 ^ 48"
  shows "unat va < 0x200000 \<longleftrightarrow> pt_index va 3 = 0 \<and> pt_index va 2 = 0 \<and> pt_index va 1 = 0"
proof
  assume "unat va < 0x200000"
  then show "pt_index va 3 = 0 \<and> pt_index va 2 = 0 \<and> pt_index va 1 = 0"
    by (simp add: pt_index_eq)
next
  assume z: "pt_index va 3 = 0 \<and> pt_index va 2 = 0 \<and> pt_index va 1 = 0"
  define n where "n = unat va div 0x200000"
  have "n div 512 div 512 < 512" using assms by (simp add: n_def div_mult2_eq [symmetric] less_mult_imp_div_less)
  moreover have "n div 512 div 512 mod 512 = 0" using z by (simp add: pt_index_eq n_def div_mult2_eq [symmetric])
  ultimately have "n div 512 < 512" by (simp add: div_eq_0_iff)
  moreover have "n div 512 mod 512 = 0" using z by (simp add: pt_index_eq n_def div_mult2_eq [symmetric])
  ultimately have "n < 512" by (simp add: div_eq_0_iff)
  moreover have "n mod 512 = 0" using z by (simp add: pt_index_eq n_def)
  ultimately have "n = 0" by simp
  then show "unat va < 0x200000" by (simp add: n_def div_eq_0_iff)
qed

lemma walk_boot_tables:
  assumes "\<And>a. 0x1000 \<le> a \<Longrightarrow> a + 8 \<le> 0x4000 \<Longrightarrow> load64 m a = load64 (boot_tables m0) a"
    and "unat va < 2 ^ 48"
  shows "page_walk (load64 m) PLM4_ADDR va = (if unat va < 0x200000 then Some va else None)"
proof -
  have e: "load64 m (0x1000 + 8 * pt_index va l) = (if pt_index va l = 0 then 0x2003 else 0)"
    "load64 m (0x2000 + 8 * pt_index va l) = (if pt_index va l = 0 then 0x3003 else 0)"
    "load64 m (0x3000 + 8 * pt_index va l) = (if pt_index va l = 0 then 0x83 else 0)" for l
    using pt_index_less [of va l] boot_tables_entry [of "pt_index va l" m0] assms(1) by simp_all
  have "pt_page 0x83 va 21 = va" if "unat va < 0x200000"
  proof -
    have "take_bit 21 va = va"
      using that by (simp add: word_unat_eq_iff unat_take_bit)
    then show ?thesis by (simp add: pt_page_def take_bit_eq_mask mask_eq_exp_minus_1)
  qed
  moreover have "load64 m 0x1000 = 0x2003" "load64 m 0x2000 = 0x3003" "load64 m 0x3000 = 0x83"
    using boot_tables_entry [of 0 m0] assms(1) by simp_all
  ultimately show ?thesis
    using low_2M_iff [OF assms(2)]
    by (simp add: page_walk_def Let_def pt_entry_def e bit_numeral_rec bit_0)
qed

text \<open>A kernel above the tables does not disturb them.\<close>

lemma walk_after_kernel:
  assumes "unat va < 0x200000"
  shows "page_walk (load64 (guest_write 0x4000 code (boot_tables m))) PLM4_ADDR va = Some va"
proof -
  have "load64 (guest_write 0x4000 code (boot_tables m)) a = load64 (boot_tables m) a" if "a + 8 \<le> 0x4000" for a
    using that by (intro load64_cong) (simp add: guest_write_def)
  then show ?thesis
    using walk_boot_tables [of "guest_write 0x4000 code (boot_tables m)" m va] assms by simp
qed

lemma load_kernel_eq:
  "code \<noteq> [] \<Longrightarrow> mem k \<noteq> 0 \<Longrightarrow> load_kernel (Some k) (Some code) addr =
    (if unat addr + length code \<le> unat (mem_size k)
     then Inr (MINI_KVM_SUCCESS, Some (k\<lparr>guest := guest_write (unat addr) code (guest k)\<rparr>))
     else Inl OutOfBounds)"
  by (simp add: load_kernel_def mem_write_def)

text \<open>A machine with the smallest memory \<open>kvm_setup_pages\<close> accepts, for the witnesses.\<close>

definition small_vm :: Kvm where
  "small_vm = zero_kvm\<lparr>mem := 0x7f0000000000, mem_size := 0x5000\<rparr>"

lemma small_vm_pages:
  "kvm_setup_pages small_vm = Inr (MINI_KVM_SUCCESS, small_vm\<lparr>guest := boot_tables (guest small_vm)\<rparr>)"
  by (simp add: setup_pages_eq small_vm_def)

section \<open>Properties\<close>

text \<open>C7. The page tables \<open>kvm_setup_pages\<close> builds are an identity mapping of the first two megabytes
  and of nothing else: the hardware walk from \<open>PLM4_ADDR\<close> (what \<open>cr3\<close> is set to) maps every 48-bit
  virtual address below 2 MiB to itself and faults on every other.\<close>

theorem setup_pages_identity_map:
  assumes "kvm_setup_pages kvm = Inr (MINI_KVM_SUCCESS, kvm')" and "unat va < 2 ^ 48"
  shows "page_walk (load64 (guest kvm')) PLM4_ADDR va = (if unat va < 0x200000 then Some va else None)"
proof -
  have "guest kvm' = boot_tables (guest kvm)"
    using assms(1) by (auto simp: setup_pages_eq split: if_splits)
  then show ?thesis using walk_boot_tables [of _ "guest kvm", OF _ assms(2)] by simp
qed

theorem setup_pages_identity_map_witness:
  "\<exists>kvm'. kvm_setup_pages small_vm = Inr (MINI_KVM_SUCCESS, kvm')
     \<and> page_walk (load64 (guest kvm')) PLM4_ADDR 0x4000 = Some 0x4000
     \<and> page_walk (load64 (guest kvm')) PLM4_ADDR 0x200000 = None"
  using setup_pages_identity_map [OF small_vm_pages, of "0x4000"]
    setup_pages_identity_map [OF small_vm_pages, of "0x200000"]
  by (simp add: small_vm_pages)

text \<open>\<open>kvm_setup_pages\<close> on every branch, for mapped memory: below the minimum it refuses and
  changes nothing (a size of 2^63 or more counts as negative); otherwise it succeeds, without an
  access outside the memory, and changes only the bytes from 0x1000 up to 0x4000.\<close>

theorem setup_pages_total:
  assumes "mem kvm \<noteq> 0"
  shows "kvm_setup_pages kvm = Inr (MINI_KVM_NOT_ENOUGH_MEMORY, kvm) \<and> sint (mem_size kvm) < 0x5000
     \<or> (\<exists>kvm'. kvm_setup_pages kvm = Inr (MINI_KVM_SUCCESS, kvm') \<and> 0x5000 \<le> sint (mem_size kvm)
          \<and> kvm'\<lparr>guest := guest kvm\<rparr> = kvm
          \<and> (\<forall>a. a < 0x1000 \<or> 0x4000 \<le> a \<longrightarrow> guest kvm' a = guest kvm a))"
  using assms by (auto simp: setup_pages_eq boot_tables_def store64_def guest_write_def)

text \<open>The boot image: after \<open>kvm_setup_pages\<close> and a successful \<open>load_kernel\<close> at
  \<open>BOOTLOADER_ADDR\<close> the identity mapping still holds, and every byte of the kernel is at the guest
  physical address its virtual address from \<open>BOOTLOADER_ADDR\<close> on is translated to.\<close>

theorem boot_image_mapped:
  assumes "kvm_setup_pages kvm = Inr (MINI_KVM_SUCCESS, k1)"
    and "load_kernel (Some k1) (Some code) BOOTLOADER_ADDR = Inr (MINI_KVM_SUCCESS, Some k2)"
  shows "(\<forall>va. unat va < 0x200000 \<longrightarrow> page_walk (load64 (guest k2)) PLM4_ADDR va = Some va)
     \<and> (\<forall>i < length code. guest k2 (unat BOOTLOADER_ADDR + i) = code ! i)"
proof (intro conjI allI impI)
  have g1: "guest k1 = boot_tables (guest kvm)"
    using assms(1) by (auto simp: setup_pages_eq split: if_splits)
  have g2: "guest k2 = guest_write 0x4000 code (guest k1)"
    using assms(2) by (auto simp: load_kernel_def mem_write_def res_iff split: if_splits)
  show "page_walk (load64 (guest k2)) PLM4_ADDR va = Some va" if "unat va < 0x200000" for va
    using walk_after_kernel [OF that] by (simp add: g1 g2)
  show "guest k2 (unat BOOTLOADER_ADDR + i) = code ! i" if "i < length code" for i
    using that by (simp add: g2 guest_write_def)
qed

text \<open>C37. \<open>load_kernel\<close> does not compare the size of the kernel with the memory: given a kernel and
  mapped memory, it writes outside the guest memory exactly when the kernel is longer than the
  memory after \<open>addr\<close>, and otherwise it succeeds.\<close>

theorem load_kernel_overflow_iff:
  assumes "code \<noteq> []" and "mem k \<noteq> 0"
  shows "load_kernel (Some k) (Some code) addr = Inl OutOfBounds
     \<longleftrightarrow> unat (mem_size k) < unat addr + length code"
  using assms by (simp add: load_kernel_eq not_le)

theorem load_kernel_overflow_iff_witness:
  "load_kernel (Some small_vm) (Some (replicate 4097 0)) BOOTLOADER_ADDR = Inl OutOfBounds"
proof -
  have c: "replicate 4097 (0::u8) \<noteq> []" and m: "mem small_vm \<noteq> 0" by (simp_all add: small_vm_def)
  show ?thesis using load_kernel_overflow_iff [OF c m, of BOOTLOADER_ADDR] by (simp add: small_vm_def)
qed

end
