(* ===== verification/Dump.thy ===== *)
theory Dump imports Guest_Memory begin

text \<open>
  The text output of \<open>src/kvm/kvm.c\<close>: \<open>mini_kvm_dump_mem\<close>, \<open>mini_kvm_print_regs\<close>,
  \<open>mini_kvm_print_sregs\<close> and \<open>mini_kvm_vm_state_str\<close>. The text written to the descriptor is the
  result. The arithmetic of the dump is kept at the widths of the source (\<open>start\<close> and \<open>end\<close> 64
  bits, the loop counters 32); the loop over the words of a line can wrap around and then need not
  end, so it is a partial function, \<^term>\<open>None\<close> meaning that it does not return. \<open>dump_text\<close> is
  what a dump should show.
\<close>

section \<open>Memory dump\<close>

text \<open>\<open>%02hx\<close> of one byte.\<close>

definition hex_byte :: "u8 \<Rightarrow> string" where
  "hex_byte b = zero_pad 2 (hex_string (unat b))"

text \<open>
  The loop \<open>for (int32_t word_offset = word_size - 1; word_offset >= 0; word_offset--)\<close>: the
  number of its rounds, and its output after \<open>k\<close> more rounds.
\<close>

definition word_rounds :: "u32 \<Rightarrow> nat" where
  "word_rounds word_size = (if sint (word_size - 1) < 0 then 0 else unat (word_size - 1) + 1)"

fun dump_word :: "Kvm \<Rightarrow> u64 \<Rightarrow> u32 \<Rightarrow> nat \<Rightarrow> string res" where
  "dump_word kvm start offset 0 = Inr []"
| "dump_word kvm start offset (Suc k) =
     res_bind (mem_read kvm (unat start + unat (offset + word_of_nat k))) (\<lambda>b.
     res_bind (dump_word kvm start offset k) (\<lambda>rest. Inr (hex_byte b @ rest)))"

partial_function (option) dump_line_words ::
  "Kvm \<Rightarrow> u64 \<Rightarrow> u64 \<Rightarrow> u32 \<Rightarrow> u32 \<Rightarrow> u32 \<Rightarrow> u32 \<Rightarrow> string \<Rightarrow> string res option" where
  "dump_line_words kvm start end word_size bytes_per_line line word out =
     (if word < bytes_per_line then
        let offset = word + bytes_per_line * line in
        if end < ucast offset + start then Some (Inr out)
        else (case dump_word kvm start offset (word_rounds word_size) of
                Inl e \<Rightarrow> Some (Inl e)
              | Inr txt \<Rightarrow> dump_line_words kvm start end word_size bytes_per_line line
                             (word + word_size) (out @ txt @ '' ''))
      else Some (Inr out))"

definition dump_line ::
  "Kvm \<Rightarrow> u64 \<Rightarrow> u64 \<Rightarrow> u32 \<Rightarrow> u32 \<Rightarrow> u32 \<Rightarrow> string \<Rightarrow> string res option" where
  "dump_line kvm start end word_size bytes_per_line line out =
     (case dump_line_words kvm start end word_size bytes_per_line line 0
             (out @ ''0x'' @ zero_pad 8 (hex_string (unat (start + ucast (line * bytes_per_line)))) @ [CHR 0x09])
      of None \<Rightarrow> None
       | Some (Inl e) \<Rightarrow> Some (Inl e)
       | Some (Inr txt) \<Rightarrow> Some (Inr (txt @ [CHR 0x0A])))"

fun dump_lines ::
  "Kvm \<Rightarrow> u64 \<Rightarrow> u64 \<Rightarrow> u32 \<Rightarrow> u32 \<Rightarrow> nat list \<Rightarrow> string \<Rightarrow> string res option" where
  "dump_lines kvm start end word_size bytes_per_line [] out = Some (Inr out)"
| "dump_lines kvm start end word_size bytes_per_line (line # lines) out =
     (case dump_line kvm start end word_size bytes_per_line (word_of_nat line) out of
        None \<Rightarrow> None
      | Some (Inl e) \<Rightarrow> Some (Inl e)
      | Some (Inr out') \<Rightarrow> dump_lines kvm start end word_size bytes_per_line lines out')"

definition dump_header :: "nat \<Rightarrow> nat \<Rightarrow> string" where
  "dump_header start end = ''mem dump: @'' @ dec_string start @ '' -> @'' @ dec_string end @ [CHR 0x0A]"

text \<open>The aligned bounds, the cut at the end of the memory (a signed comparison) and the line count.\<close>

definition dump_start :: "u64 \<Rightarrow> u32 \<Rightarrow> u64" where
  "dump_start start word_size = start - start mod ucast word_size"

definition dump_end :: "Kvm \<Rightarrow> u64 \<Rightarrow> u32 \<Rightarrow> u64" where
  "dump_end kvm end word_size =
     (let ws = ucast word_size;
          end1 = (if end mod ws = 0 then end else end - end mod ws + ws)
      in if sint (mem_size kvm) < sint end1 then mem_size kvm else end1)"

definition dump_nb_lines :: "u64 \<Rightarrow> u64 \<Rightarrow> u32 \<Rightarrow> u32" where
  "dump_nb_lines start end bytes_per_line =
     (let bpl = ucast bytes_per_line
      in ucast ((end - start) div bpl + (if (end - start) mod bpl \<noteq> 0 then 1 else 0)))"

definition mini_kvm_dump_mem :: "Kvm \<Rightarrow> u64 \<Rightarrow> u64 \<Rightarrow> u32 \<Rightarrow> u32 \<Rightarrow> string res option" where
  "mini_kvm_dump_mem kvm start end word_size bytes_per_line =
     (if word_size = 0 then Some (Inl DivByZero)
      else let start' = dump_start start word_size; end' = dump_end kvm end word_size
           in if bytes_per_line = 0 then Some (Inl DivByZero)
              else dump_lines kvm start' end' word_size bytes_per_line
                     [0..<unat (dump_nb_lines start' end' bytes_per_line)]
                     (dump_header (unat start') (unat end')))"

section \<open>Registers\<close>

definition hex_reg :: "u64 \<Rightarrow> string" where
  "hex_reg w = ''0x'' @ zero_pad 16 (hex_string (unat w))"

definition print_row :: "(string \<times> u64) list \<Rightarrow> string" where
  "print_row cells =
     concat (map (\<lambda>(i, n, v). (if i = 0 then [] else [CHR 0x09]) @ n @ hex_reg v)
       (zip [0..<length cells] cells)) @ [CHR 0x0A]"

definition mini_kvm_print_regs :: "kvm_regs \<Rightarrow> string" where
  "mini_kvm_print_regs regs =
     print_row [(''rax '', rax regs), (''rbx '', rbx regs), (''rcx '', rcx regs), (''rdx '', rdx regs)]
   @ print_row [(''r8  '', r8 regs), (''r9  '', r9 regs), (''r10 '', r10 regs), (''r11 '', r11 regs)]
   @ print_row [(''r12 '', r12 regs), (''r13 '', r13 regs), (''r14 '', r14 regs), (''r15 '', r15 regs)]
   @ print_row [(''rsp '', rsp regs), (''rbp '', rbp regs), (''rip '', rip regs), (''rflags '', rflags regs)]
   @ print_row [(''rdi '', rdi regs), (''rsi '', rsi regs)]"

definition mini_kvm_print_sregs :: "kvm_sregs \<Rightarrow> string" where
  "mini_kvm_print_sregs sregs =
     print_row [(''cr0 '', sr_cr0 sregs), (''cr2 '', sr_cr2 sregs), (''cr3 '', sr_cr3 sregs), (''cr4 '', sr_cr4 sregs)]"

fun mini_kvm_vm_state_str :: "VMState \<Rightarrow> string" where
  "mini_kvm_vm_state_str MINI_KVM_PAUSED = ''paused''"
| "mini_kvm_vm_state_str MINI_KVM_RUNNING = ''running''"
| "mini_kvm_vm_state_str MINI_KVM_SHUTDOWN = ''shutdown''"

section \<open>What a dump should show\<close>

definition word_text :: "(nat \<Rightarrow> u8) \<Rightarrow> nat \<Rightarrow> nat \<Rightarrow> string" where
  "word_text m a w = concat (map (\<lambda>k. hex_byte (m (a + k))) (rev [0..<w]))"

definition line_text :: "(nat \<Rightarrow> u8) \<Rightarrow> nat \<Rightarrow> nat \<Rightarrow> nat list \<Rightarrow> string" where
  "line_text m a w js = concat (map (\<lambda>j. word_text m (a + j * w) w @ '' '') js)"

definition dump_text :: "(nat \<Rightarrow> u8) \<Rightarrow> nat \<Rightarrow> nat \<Rightarrow> nat \<Rightarrow> nat \<Rightarrow> nat list \<Rightarrow> string" where
  "dump_text m start w b n lines =
     concat (map (\<lambda>l. ''0x'' @ zero_pad 8 (hex_string (start + l * b)) @ [CHR 0x09]
       @ line_text m (start + l * b) w [0..<n] @ [CHR 0x0A]) lines)"

text \<open>The range a dump covers, aligned to the word size and cut at the end of the memory.\<close>

definition dump_lo :: "nat \<Rightarrow> nat \<Rightarrow> nat" where
  "dump_lo start w = start - start mod w"

definition dump_hi :: "nat \<Rightarrow> nat \<Rightarrow> nat \<Rightarrow> nat" where
  "dump_hi end w msize = min msize (if end mod w = 0 then end else end - end mod w + w)"

section \<open>Lemmas\<close>

declare dump_line_words.simps [code]

lemma word_rounds_eq: "0 < unat w \<Longrightarrow> unat w < 2 ^ 31 \<Longrightarrow> word_rounds w = unat w"
proof -
  assume w: "0 < unat w" "unat w < 2 ^ 31"
  have "w \<noteq> 0" using w(1) by auto
  then have u: "unat (w - 1) = unat w - 1" by (rule unat_minus_one)
  then have "unat (w - 1) < 2 ^ 31" using w by linarith
  then have "sint (w - 1) = int (unat (w - 1))" by (rule sint_small_u32)
  then have "0 \<le> sint (w - 1)" by (simp only: of_nat_0_le_iff)
  then show ?thesis using w u by (simp add: word_rounds_def)
qed

lemma dump_word_eq:
  assumes "mem kvm \<noteq> 0" and "unat start + unat offset + k \<le> unat (mem_size kvm)"
    and "unat offset + k \<le> 2 ^ 32"
  shows "dump_word kvm start offset k = Inr (word_text (guest kvm) (unat start + unat offset) k)"
  using assms(2,3)
proof (induction k)
  case 0
  show ?case by (simp add: word_text_def)
next
  case (Suc k)
  then have "unat (offset + word_of_nat k) = unat offset + k"
    by (simp add: unat_word_ariths unat_of_nat)
  with Suc assms(1) show ?case
    by (simp add: mem_read_def word_text_def add.assoc)
qed

text \<open>
  The geometry of a dump: words of \<open>word_size\<close> bytes, \<open>n\<close> of them on a line, and the addresses
  from \<open>start\<close> to \<open>end\<close> inside the memory, less than 4 GiB of them.
\<close>

definition dump_geometry :: "Kvm \<Rightarrow> u64 \<Rightarrow> u64 \<Rightarrow> u32 \<Rightarrow> u32 \<Rightarrow> nat \<Rightarrow> bool" where
  "dump_geometry kvm start end word_size bytes_per_line n \<longleftrightarrow>
     mem kvm \<noteq> 0 \<and> 0 < unat word_size \<and> 0 < n
     \<and> unat bytes_per_line = n * unat word_size \<and> unat bytes_per_line < 2 ^ 31
     \<and> unat end \<le> unat (mem_size kvm) \<and> unat start \<le> unat end
     \<and> unat end - unat start < 2 ^ 32"

lemma dump_geometryD:
  assumes "dump_geometry kvm start end word_size bytes_per_line n"
  shows "mem kvm \<noteq> 0" and "0 < unat word_size" and "0 < n"
    and "unat bytes_per_line = n * unat word_size" and "unat bytes_per_line < 2 ^ 31"
    and "unat end \<le> unat (mem_size kvm)" and "unat start \<le> unat end"
    and "unat end - unat start < 2 ^ 32" and "unat word_size < 2 ^ 31"
proof -
  show *: "mem kvm \<noteq> 0" "0 < unat word_size" "0 < n"
    "unat bytes_per_line = n * unat word_size" "unat bytes_per_line < 2 ^ 31"
    "unat end \<le> unat (mem_size kvm)" "unat start \<le> unat end" "unat end - unat start < 2 ^ 32"
    using assms by (simp_all add: dump_geometry_def)
  have "unat word_size \<le> n * unat word_size" using *(3) by simp
  then show "unat word_size < 2 ^ 31" using *(4,5) by linarith
qed

text \<open>One word at offset \<open>x\<close> of the range, when it lies inside the range.\<close>

lemma dump_offset:
  assumes "x < 2 ^ 32" and "x + unat start < 2 ^ 64"
  shows "unat (ucast (word_of_nat x :: u32) + start) = x + unat (start :: u64)"
proof -
  have "unat (ucast (word_of_nat x :: u32) :: u64) = x"
    using assms(1) by (simp add: unsigned_ucast_eq unat_of_nat take_bit_nat_eq_self)
  then show ?thesis using assms(2) by (simp only: unat_word_ariths) simp
qed

lemma dump_word_at:
  assumes g: "dump_geometry kvm start end word_size bytes_per_line n"
    and x: "x + unat word_size \<le> unat end - unat start"
  shows "\<not> end < ucast (word_of_nat x :: u32) + start"
    and "dump_word kvm start (word_of_nat x) (word_rounds word_size)
      = Inr (word_text (guest kvm) (unat start + x) (unat word_size))"
proof -
  note d = dump_geometryD [OF g]
  have xs: "x < 2 ^ 32" using x d(8) by linarith
  have "x + unat start < 2 ^ 64" using x d(7) unat_u64_less [of "end"] by linarith
  then show "\<not> end < ucast (word_of_nat x :: u32) + start"
    using x d(7) dump_offset [OF xs, of start] by (simp add: word_less_nat_alt)
  have "unat (word_of_nat x :: u32) = x" using xs by (rule unat_of_nat_u32)
  then show "dump_word kvm start (word_of_nat x) (word_rounds word_size)
      = Inr (word_text (guest kvm) (unat start + x) (unat word_size))"
    using dump_word_eq [OF d(1), of start "word_of_nat x" "unat word_size"] x d
    by (simp add: word_rounds_eq)
qed

text \<open>
  The words of a line from the \<open>i\<close>-th on. With \<open>k\<close> words of the line inside the range, the loop
  prints them and goes on with the word after.
\<close>

lemma dump_line_prefix:
  assumes g: "dump_geometry kvm start end word_size bytes_per_line n"
    and fits: "l * unat bytes_per_line + k * unat word_size \<le> unat end - unat start"
    and k: "k \<le> n" and i: "i \<le> k"
  shows "dump_line_words kvm start end word_size bytes_per_line (word_of_nat l)
      (word_of_nat (i * unat word_size)) out
    = dump_line_words kvm start end word_size bytes_per_line (word_of_nat l)
      (word_of_nat (k * unat word_size))
      (out @ line_text (guest kvm) (unat start + l * unat bytes_per_line) (unat word_size) [i..<k])"
  using i
proof (induction "k - i" arbitrary: i out)
  case 0
  then show ?case by (simp add: line_text_def)
next
  case (Suc r)
  note d = dump_geometryD [OF g]
  let ?w = "unat word_size" and ?b = "unat bytes_per_line"
  let ?x = "i * ?w + l * ?b"
  have ik: "i < k" using Suc by simp
  have "Suc i * ?w \<le> k * ?w" using ik by (intro mult_le_mono1) simp
  then have x: "?x + ?w \<le> unat end - unat start" using fits by simp
  have "i * ?w < n * ?w" using ik k d(2) by simp
  then have "i * ?w < ?b" and "i * ?w < 2 ^ 32"
    using d(4) unat_u32_less [of bytes_per_line] by linarith+
  then have "unat (word_of_nat (i * ?w) :: u32) < ?b" using unat_of_nat_u32 [of "i * ?w"] by metis
  then have lt: "(word_of_nat (i * ?w) :: u32) < bytes_per_line" by (simp add: word_less_nat_alt)
  have off: "word_of_nat (i * ?w) + bytes_per_line * word_of_nat l = (word_of_nat ?x :: u32)"
    by (simp add: mult.commute)
  have nxt: "word_of_nat (i * ?w) + word_size = (word_of_nat (Suc i * ?w) :: u32)"
    by (simp add: add.commute)
  have "dump_line_words kvm start end word_size bytes_per_line (word_of_nat l) (word_of_nat (i * ?w)) out
      = dump_line_words kvm start end word_size bytes_per_line (word_of_nat l) (word_of_nat (Suc i * ?w))
          (out @ word_text (guest kvm) (unat start + ?x) ?w @ '' '')"
    using lt dump_word_at [OF g x]
    by (subst dump_line_words.simps) (simp only: Let_def off nxt if_True if_False sum.case)
  also have "\<dots> = dump_line_words kvm start end word_size bytes_per_line (word_of_nat l) (word_of_nat (k * ?w))
      ((out @ word_text (guest kvm) (unat start + ?x) ?w @ '' '')
        @ line_text (guest kvm) (unat start + l * ?b) ?w [Suc i..<k])"
    using Suc ik by (intro Suc.hyps(1)) simp_all
  finally show ?case
    using ik by (simp add: upt_conv_Cons line_text_def add.assoc add.commute [of "i * ?w"])
qed

lemma dump_line_full:
  assumes g: "dump_geometry kvm start end word_size bytes_per_line n"
    and fits: "Suc l * unat bytes_per_line \<le> unat end - unat start"
  shows "dump_line kvm start end word_size bytes_per_line (word_of_nat l) out
    = Some (Inr (out @ dump_text (guest kvm) (unat start) (unat word_size) (unat bytes_per_line) n [l]))"
proof -
  note d = dump_geometryD [OF g]
  let ?w = "unat word_size" and ?b = "unat bytes_per_line"
  have "dump_line_words kvm start end word_size bytes_per_line (word_of_nat l) 0 o1
      = Some (Inr (o1 @ line_text (guest kvm) (unat start + l * ?b) ?w [0..<n]))" for o1
  proof -
    have "word_of_nat (n * ?w) = bytes_per_line" by (simp only: d(4) [symmetric]) simp
    then have "dump_line_words kvm start end word_size bytes_per_line (word_of_nat l)
        (word_of_nat (n * ?w)) o2 = Some (Inr o2)" for o2
      by (subst dump_line_words.simps) simp
    then show ?thesis using dump_line_prefix [OF g, of l n 0 o1] fits d(4) by simp
  qed
  moreover have "unat (start + ucast (word_of_nat l * bytes_per_line)) = unat start + l * ?b"
  proof -
    have lb: "l * ?b < 2 ^ 32" using fits d(8) by simp
    have "word_of_nat l * bytes_per_line = (word_of_nat (l * ?b) :: u32)" by simp
    moreover have "l * ?b + unat start < 2 ^ 64"
      using fits d(7) unat_u64_less [of "end"] by simp
    ultimately show ?thesis
      using dump_offset [OF lb, of start] by (simp only: add.commute)
  qed
  ultimately show ?thesis by (simp add: dump_line_def dump_text_def)
qed

lemma dump_lines_full:
  assumes g: "dump_geometry kvm start end word_size bytes_per_line n"
    and fits: "\<And>l. l \<in> set ls \<Longrightarrow> Suc l * unat bytes_per_line \<le> unat end - unat start"
  shows "dump_lines kvm start end word_size bytes_per_line ls out
    = Some (Inr (out @ dump_text (guest kvm) (unat start) (unat word_size) (unat bytes_per_line) n ls))"
  using fits
proof (induction ls arbitrary: out)
  case Nil
  show ?case by (simp add: dump_text_def)
next
  case (Cons l ls)
  then show ?case using dump_line_full [OF g, of l out] by (simp add: dump_text_def)
qed

lemma dump_lines_append:
  "dump_lines kvm start end word_size bytes_per_line ls out = Some (Inr out') \<Longrightarrow>
    dump_lines kvm start end word_size bytes_per_line (ls @ ms) out
      = dump_lines kvm start end word_size bytes_per_line ms out'"
  by (induction ls arbitrary: out) (auto split: option.splits sum.splits)

text \<open>
  A line that ends with the range, before its last word: the test \<open>offset + start > end\<close> lets the
  word at \<open>end\<close> through, which at the end of the memory is outside it.
\<close>

lemma dump_line_partial:
  assumes g: "dump_geometry kvm start end word_size bytes_per_line n"
    and rest: "unat end - unat start = l * unat bytes_per_line + k * unat word_size"
    and k: "k < n" and top: "unat end = unat (mem_size kvm)"
    and room: "unat end - unat start + unat word_size \<le> 2 ^ 32"
  shows "dump_line kvm start end word_size bytes_per_line (word_of_nat l) out = Some (Inl OutOfBounds)"
proof -
  note d = dump_geometryD [OF g]
  let ?w = "unat word_size" and ?b = "unat bytes_per_line"
  let ?x = "k * ?w + l * ?b"
  have xs: "?x < 2 ^ 32" using rest d(8) by linarith
  have "?x + unat start = unat end" using rest d(7) by simp
  then have not: "\<not> end < ucast (word_of_nat ?x :: u32) + start"
    using dump_offset [OF xs, of start] unat_u64_less [of "end"] by (simp only: word_less_nat_alt)
  have "k * ?w < n * ?w" using k d(2) by simp
  then have "k * ?w < ?b" and "k * ?w < 2 ^ 32"
    using d(4) unat_u32_less [of bytes_per_line] by linarith+
  then have "unat (word_of_nat (k * ?w) :: u32) < ?b" using unat_of_nat_u32 [of "k * ?w"] by metis
  then have lt: "(word_of_nat (k * ?w) :: u32) < bytes_per_line" by (simp add: word_less_nat_alt)
  have off: "word_of_nat (k * ?w) + bytes_per_line * word_of_nat l = (word_of_nat ?x :: u32)"
    by (simp add: mult.commute)
  obtain r where r: "?w = Suc r" using d(2) by (cases ?w) auto
  have "?x + r < 2 ^ 32" using room rest r by linarith
  then have "unat (word_of_nat (?x + r) :: u32) = ?x + r" by (rule unat_of_nat_u32)
  then have "unat start + unat (word_of_nat ?x + word_of_nat r :: u32) \<ge> unat (mem_size kvm)"
    using \<open>?x + unat start = unat end\<close> top by (simp only: of_nat_add [symmetric])
  then have "dump_word kvm start (word_of_nat ?x) (word_rounds word_size) = Inl OutOfBounds"
    using d(1) r by (simp add: word_rounds_eq [OF d(2,9)] mem_read_def not_less)
  then have "dump_line_words kvm start end word_size bytes_per_line (word_of_nat l)
      (word_of_nat (k * ?w)) o2 = Some (Inl OutOfBounds)" for o2
    using lt not by (subst dump_line_words.simps) (simp only: Let_def off if_True if_False sum.case)
  then show ?thesis
    using dump_line_prefix [OF g, of l k 0] rest k by (simp add: dump_line_def)
qed

lemma unat_ucast_u64: "unat (ucast (w :: u32) :: u64) = unat w"
  using unat_u32_less [of w] by (simp add: unsigned_ucast_eq take_bit_nat_eq_self)

lemma unat_align_down: "unat (x - x mod ucast (w :: u32) :: u64) = unat x - unat x mod unat w"
proof -
  have "x mod ucast w \<le> x" by (simp add: word_le_nat_alt unat_mod_distrib)
  then show ?thesis by (simp add: unat_sub unat_mod_distrib unat_ucast_u64)
qed

lemma unat_dump_start: "unat (dump_start start w) = dump_lo (unat start) (unat w)"
  by (simp add: dump_start_def dump_lo_def unat_align_down)

lemma unat_dump_end:
  assumes "unat (mem_size kvm) < 2 ^ 63" and "unat end + unat w < 2 ^ 63"
  shows "unat (dump_end kvm end w) = dump_hi (unat end) (unat w) (unat (mem_size kvm))"
proof -
  define end1 where "end1 = (if end mod ucast w = 0 then end else end - end mod ucast w + ucast w :: u64)"
  have "unat (end - end mod ucast w + ucast w) = unat end - unat end mod unat w + unat w"
    using assms(2) by (simp only: unat_word_ariths(1) unat_align_down unat_ucast_u64) simp
  moreover have "end mod ucast w = 0 \<longleftrightarrow> unat end mod unat w = 0"
    by (simp add: word_unat_eq_iff unat_mod_distrib unat_ucast_u64)
  ultimately have e1: "unat end1 = (if unat end mod unat w = 0 then unat end
      else unat end - unat end mod unat w + unat w)"
    by (simp add: end1_def)
  then have "unat end1 < 2 ^ 63" using assms(2) by (auto split: if_splits)
  then have "sint (mem_size kvm) < sint end1 \<longleftrightarrow> unat (mem_size kvm) < unat end1"
    using assms(1) by (simp only: sint_small_u64 of_nat_less_iff)
  then have "unat (dump_end kvm end w) = min (unat (mem_size kvm)) (unat end1)"
    by (simp add: dump_end_def Let_def end1_def [symmetric] min_def)
  then show ?thesis by (simp only: e1 dump_hi_def)
qed

lemma unat_dump_nb_lines:
  assumes "unat start \<le> unat end" and "unat end - unat start < 2 ^ 32" and "0 < unat b"
  shows "unat (dump_nb_lines start end b) = (unat end - unat start) div unat b
      + (if (unat end - unat start) mod unat b = 0 then 0 else 1)"
proof -
  define r where "r = unat end - unat start"
  define q where "q = r div unat b + (if r mod unat b = 0 then 0 else 1)"
  have diff: "unat (end - start) = r"
    using assms(1) by (simp add: unat_sub word_le_nat_alt r_def)
  have "q \<le> r"
  proof (cases "r mod unat b = 0")
    case True
    then show ?thesis by (simp add: q_def)
  next
    case False
    then have "unat b \<noteq> 1" by auto
    then have "2 \<le> unat b" using assms(3) by simp
    moreover have "0 < r" using False by (cases r) auto
    ultimately have "r div unat b < r" by simp
    then show ?thesis by (simp add: q_def)
  qed
  then have q: "q < 2 ^ 32" using assms(2) r_def by linarith
  have "(end - start) mod ucast b \<noteq> 0 \<longleftrightarrow> r mod unat b \<noteq> 0"
    by (simp add: word_unat_eq_iff unat_mod_distrib unat_ucast_u64 diff)
  then have "unat ((end - start) div ucast b + (if (end - start) mod ucast b \<noteq> 0 then 1 else 0)) = q"
    using q by (simp add: unat_word_ariths(1) unat_div_distrib unat_ucast_u64 diff q_def)
  then show ?thesis
    using q by (simp add: dump_nb_lines_def Let_def unsigned_ucast_eq take_bit_nat_eq_self q_def r_def)
qed

lemma dump_mem_eq:
  assumes "0 < unat w" and "0 < unat b"
  shows "mini_kvm_dump_mem kvm start end w b
    = dump_lines kvm (dump_start start w) (dump_end kvm end w) w b
        [0..<unat (dump_nb_lines (dump_start start w) (dump_end kvm end w) b)]
        (dump_header (unat (dump_start start w)) (unat (dump_end kvm end w)))"
proof -
  have "w \<noteq> 0" and "b \<noteq> 0" using assms by auto
  then show ?thesis by (simp add: mini_kvm_dump_mem_def Let_def)
qed

lemma hex_byte_value: "base_value 16 (hex_byte b) = unat b"
  by (simp add: hex_byte_def hex_string_def base_value_base_string)

lemma length_hex_byte: "length (hex_byte b) = 2"
proof -
  have "length (hex_string (unat b)) \<le> 2"
    using unat_u8_less [of b] base_string_length_le [of 16 2 "unat b"] by (simp add: hex_string_def)
  then show ?thesis by (simp add: hex_byte_def)
qed

text \<open>The text of a whole number of lines.\<close>

lemma dump_mem_range_text:
  assumes "mem kvm \<noteq> 0" and "unat (mem_size kvm) < 2 ^ 63" and "unat end + unat w < 2 ^ 63"
    and "0 < unat w" and "0 < n" and "unat b = n * unat w" and "unat b < 2 ^ 31"
    and lo: "lo = dump_lo (unat start) (unat w)"
    and hi: "hi = dump_hi (unat end) (unat w) (unat (mem_size kvm))"
    and "lo \<le> hi" and "hi - lo < 2 ^ 32" and lines: "hi - lo = nb * unat b"
  shows "mini_kvm_dump_mem kvm start end w b
    = Some (Inr (dump_header lo hi @ dump_text (guest kvm) lo (unat w) (unat b) n [0..<nb]))"
proof -
  let ?s = "dump_start start w" and ?e = "dump_end kvm end w"
  have s: "unat ?s = lo" by (simp add: unat_dump_start lo)
  have e: "unat ?e = hi" using assms(2,3) by (simp add: unat_dump_end hi)
  have g: "dump_geometry kvm ?s ?e w b n"
    using assms by (simp add: dump_geometry_def s e) (simp add: dump_hi_def)
  have b: "0 < unat b" using assms(4-6) by simp
  have "unat (dump_nb_lines ?s ?e b) = nb"
    using unat_dump_nb_lines [of ?s ?e b] assms(10,11) b lines by (simp add: s e)
  moreover have "Suc l * unat b \<le> hi - lo" if "l < nb" for l
    using that lines by (metis Suc_leI mult_le_mono1)
  ultimately show ?thesis
    using dump_mem_eq [OF assms(4) b] dump_lines_full [OF g, of "[0..<nb]"] by (simp add: s e)
qed

section \<open>Properties\<close>

text \<open>C19. \<open>mini_kvm_dump_mem\<close> returns, reads only guest memory and shows exactly the requested range:
  when a line is a whole number of words, and the range, aligned to words and cut at the end of the
  memory, is a whole number of lines and less than 4 GiB (memory and end below \<open>2 ^ 63\<close>, a line below 2 GiB), the text is the header and then, line by line, the address and every word of the
  line in order.\<close>

theorem dump_mem_shows_range:
  assumes "mem kvm \<noteq> 0" and "unat (mem_size kvm) < 2 ^ 63" and "unat end + unat w < 2 ^ 63"
    and "0 < unat w" and "0 < n" and "unat b = n * unat w" and "unat b < 2 ^ 31"
    and lo: "lo = dump_lo (unat start) (unat w)"
    and hi: "hi = dump_hi (unat end) (unat w) (unat (mem_size kvm))"
    and "lo \<le> hi" and "hi - lo < 2 ^ 32" and lines: "hi - lo = nb * unat b"
  shows "mini_kvm_dump_mem kvm start end w b
    = Some (Inr (dump_header lo hi @ dump_text (guest kvm) lo (unat w) (unat b) n [0..<nb]))"
  using assms by (rule dump_mem_range_text)

theorem dump_mem_shows_range_witness:
  "mini_kvm_dump_mem small_vm 0x4fe0 0x5000 2 16
    = Some (Inr (dump_header 0x4fe0 0x5000 @ dump_text (guest small_vm) 0x4fe0 2 16 8 [0..<2]))"
proof -
  have "mini_kvm_dump_mem small_vm 0x4fe0 0x5000 2 16 = Some (Inr (dump_header 0x4fe0 0x5000
      @ dump_text (guest small_vm) 0x4fe0 (unat (2 :: u32)) (unat (16 :: u32)) 8 [0..<2]))"
    by (rule dump_mem_shows_range) (simp_all add: small_vm_def dump_lo_def dump_hi_def)
  then show ?thesis by simp
qed

text \<open>Each printed word, read as a hexadecimal number, is the little-endian value of the bytes of
  the word in guest memory, and it takes two digits for each byte.\<close>

theorem dump_word_value:
  "base_value 16 (word_text m a w) = of_le (map m [a..<a + w]) \<and> length (word_text m a w) = 2 * w"
proof (induction w arbitrary: a)
  case 0
  show ?case by (simp add: word_text_def)
next
  case (Suc w)
  have "word_text m a (Suc w) = word_text m (Suc a) w @ hex_byte (m a)"
    by (simp add: word_text_def upt_conv_Cons map_Suc_upt [symmetric] rev_map comp_def del: upt_Suc)
  moreover have "[a..<a + Suc w] = a # [Suc a..<Suc a + w]" by (simp add: upt_conv_Cons del: upt_Suc)
  ultimately show ?case
    using Suc [of "Suc a"] by (simp add: base_value_append length_hex_byte hex_byte_value del: upt_Suc)
qed

text \<open>C38. The dump runs past its end on a partial last line: when a line is a whole number of words, and the
  range, less than 4 GiB, ends at the end of the memory and is a whole number of words but not of lines, \<open>mini_kvm_dump_mem\<close> reads the word after
  the last one, outside the guest memory.\<close>

theorem dump_mem_partial_line_overrun:
  assumes "mem kvm \<noteq> 0" and "unat (mem_size kvm) < 2 ^ 63" and "unat end + unat w < 2 ^ 63"
    and "0 < unat w" and "unat b = n * unat w" and "unat b < 2 ^ 31"
    and lo: "lo = dump_lo (unat start) (unat w)"
    and hi: "unat (mem_size kvm) = dump_hi (unat end) (unat w) (unat (mem_size kvm))"
    and "lo \<le> unat (mem_size kvm)" and "unat (mem_size kvm) - lo + unat w \<le> 2 ^ 32"
    and rest: "unat (mem_size kvm) - lo = l * unat b + k * unat w" and "0 < k" and "k < n"
  shows "mini_kvm_dump_mem kvm start end w b = Some (Inl OutOfBounds)"
proof -
  let ?s = "dump_start start w" and ?e = "dump_end kvm end w" and ?hi = "unat (mem_size kvm)"
  have s: "unat ?s = lo" by (simp add: unat_dump_start lo)
  have e: "unat ?e = ?hi" using assms(2,3) hi by (simp add: unat_dump_end)
  have g: "dump_geometry kvm ?s ?e w b n"
    using assms(1,4-6,9,10,13) by (simp add: dump_geometry_def s e)
  have b: "0 < unat b" using assms(4,5,13) by simp
  have "k * unat w < unat b" and "0 < k * unat w" using assms(4,5,12,13) by simp_all
  then have "(?hi - lo) div unat b = l" and "(?hi - lo) mod unat b \<noteq> 0"
    by (simp_all add: rest)
  then have n: "unat (dump_nb_lines ?s ?e b) = Suc l"
    using unat_dump_nb_lines [of ?s ?e b] assms(4,9,10) b by (simp add: s e)
  have "Suc m * unat b \<le> ?hi - lo" if "m < l" for m
    using that mult_le_mono1 [of "Suc m" l "unat b"] rest by simp
  then have full: "dump_lines kvm ?s ?e w b [0..<l] o1
      = Some (Inr (o1 @ dump_text (guest kvm) lo (unat w) (unat b) n [0..<l]))" for o1
    using dump_lines_full [OF g, of "[0..<l]" o1] by (simp add: s e)
  have "dump_line kvm ?s ?e w b (word_of_nat l) o2 = Some (Inl OutOfBounds)" for o2
    using dump_line_partial [OF g, of l k o2] rest assms(10,13) by (simp add: s e)
  then show ?thesis
    using dump_mem_eq [OF assms(4) b] dump_lines_append [OF full, of "[l]"] by (simp add: n s e)
qed

theorem dump_mem_partial_line_overrun_witness:
  "mini_kvm_dump_mem small_vm 0x4ff8 0x5000 2 16 = Some (Inl OutOfBounds)"
  using dump_mem_partial_line_overrun [of small_vm "0x5000" 2 16 8 "0x4ff8" "0x4ff8" 0 4]
  by (simp add: small_vm_def dump_lo_def dump_hi_def)

end
