(* ===== verification/Status_Client.thy ===== *)
theory Status_Client imports Commands Conversion Dump begin

text \<open>
  The client command \<open>mini_kvm status\<close> (\<open>src/commands/status.c\<close>): its arguments, the commands it
  builds from them, and what it prints of the answers. What a command prints is part of its result.
  The arrays \<open>cmds\<close> and \<open>mem_range\<close> have the sizes the structures give them, and a store past their
  end is a fault.
\<close>

section \<open>Arguments\<close>

definition MEM_RANGE_DEFAULTS :: "u64 list" where
  "MEM_RANGE_DEFAULTS = [0, -1, 2, 16]"

definition status_opts_def :: "option_def list" where
  "status_opts_def = [\<lparr>opt_name = ''name'', opt_has_arg = required_argument, opt_val = CHR ''n''\<rparr>,
     \<lparr>opt_name = ''vcpu'', opt_has_arg = required_argument, opt_val = CHR ''v''\<rparr>,
     \<lparr>opt_name = ''regs'', opt_has_arg = no_argument, opt_val = CHR ''r''\<rparr>,
     \<lparr>opt_name = ''mem'', opt_has_arg = required_argument, opt_val = CHR ''m''\<rparr>,
     \<lparr>opt_name = ''help'', opt_has_arg = no_argument, opt_val = CHR ''h''\<rparr>]"

text \<open>The structure \<open>MiniKvmStatusArgs\<close>, and the status of the parsing loop with \<open>errno\<close>.\<close>

record MiniKvmStatusArgs =
  sa_name :: "string option"
  sa_regs :: bool
  sa_mem_range :: "u64 vec option"
  sa_vcpus :: u64
  sa_cmd_count :: nat
  sa_cmds :: "MiniKvmStatusCommandType list"
  sa_ret :: MiniKVMError
  sa_errno :: int

definition zero_status_args :: "int \<Rightarrow> MiniKvmStatusArgs" where
  "zero_status_args e0 = \<lparr>sa_name = None, sa_regs = False, sa_mem_range = None, sa_vcpus = 0, sa_cmd_count = 0,
     sa_cmds = replicate 7 MINI_KVM_COMMAND_NONE, sa_ret = MINI_KVM_SUCCESS, sa_errno = e0\<rparr>"

text \<open>\<open>args->cmds[args->cmd_count] = type; args->cmd_count += 1\<close>\<close>

definition push_cmd :: "MiniKvmStatusCommandType \<Rightarrow> MiniKvmStatusArgs \<Rightarrow> MiniKvmStatusArgs res" where
  "push_cmd t s =
     (if sa_cmd_count s < length (sa_cmds s)
      then Inr (s\<lparr>sa_cmds := (sa_cmds s)[sa_cmd_count s := t], sa_cmd_count := sa_cmd_count s + 1\<rparr>)
      else Inl OutOfBounds)"

definition status_arg_body :: "MiniKvmStatusArgs \<Rightarrow> opt_event \<Rightarrow> MiniKvmStatusArgs res" where
  "status_arg_body s e =
     (let (c, optarg) = e in
      if c = CHR ''n'' then
        (case optarg of None \<Rightarrow> Inl NullDeref | Some a \<Rightarrow> Inr (s\<lparr>sa_name := Some a\<rparr>))
      else if c = CHR ''r'' then push_cmd MINI_KVM_COMMAND_SHOW_REGS (s\<lparr>sa_regs := True\<rparr>)
      else if c = CHR ''v'' then
        res_bind (mini_kvm_parse_cpu_list optarg (sa_vcpus s) (sa_errno s)) (\<lambda>(r, m, e').
          let s1 = s\<lparr>sa_vcpus := m, sa_errno := e'\<rparr> in
          Inr (if r \<noteq> MINI_KVM_SUCCESS then s1\<lparr>sa_ret := MINI_KVM_ARGS_FAILED\<rparr> else s1))
      else if c = CHR ''m'' then
        (case optarg of None \<Rightarrow> Inl NullDeref
         | Some a \<Rightarrow> res_bind (mini_kvm_parse_int_list a (sa_errno s)) (\<lambda>(r, l, e').
             let s1 = s\<lparr>sa_mem_range := Some l, sa_errno := e'\<rparr> in
             push_cmd MINI_KVM_COMMAND_DUMP_MEM (if r \<noteq> 0 then s1\<lparr>sa_ret := MINI_KVM_ARGS_FAILED\<rparr> else s1)))
      else if c = CHR ''h'' \<or> c = CHR ''?'' then Inr (s\<lparr>sa_ret := MINI_KVM_ARGS_FAILED\<rparr>)
      else Inr s)"

definition status_args_failed :: "MiniKvmStatusArgs \<Rightarrow> bool" where
  "status_args_failed s \<longleftrightarrow> sa_ret s = MINI_KVM_ARGS_FAILED"

text \<open>The C expression \<open>!0\<close> is 1.\<close>

definition status_parse_args :: "string list \<Rightarrow> int \<Rightarrow> MiniKvmStatusArgs res" where
  "status_parse_args argv e0 =
     res_bind (scan_opts status_args_failed status_arg_body (zero_status_args e0)
         (getopt_long ''n:v:rm:h'' status_opts_def (tl argv))) (\<lambda>s.
       let s1 = (if sa_vcpus s = 0 \<and> sa_regs s then s\<lparr>sa_vcpus := 1\<rparr> else s) in
       if sa_cmd_count s1 = 0 then push_cmd MINI_KVM_COMMAND_SHOW_STATE s1 else Inr s1)"

section \<open>Building and sending commands\<close>

definition fill_mem_range :: "u64 vec option \<Rightarrow> u64 list res" where
  "fill_mem_range l =
     (case l of None \<Rightarrow> Inl NullDeref
      | Some v \<Rightarrow> if vec_size v > 4 then Inl OutOfBounds
                  else Inr (vec_list v @ drop (vec_size v) MEM_RANGE_DEFAULTS))"

definition status_build_command ::
  "env \<Rightarrow> MiniKvmStatusArgs \<Rightarrow> nat \<Rightarrow> MiniKvmStatusCommand \<Rightarrow> world
     \<Rightarrow> (MiniKVMError \<times> MiniKvmStatusCommand \<times> world) res" where
  "status_build_command env args cmd_index cmd w =
     (if cmd_index < length (sa_cmds args) then
        let type = sa_cmds args ! cmd_index in
        case type of
          MINI_KVM_COMMAND_SHOW_STATE \<Rightarrow> Inr (MINI_KVM_SUCCESS, cmd\<lparr>cmd_type := type\<rparr>, w)
        | MINI_KVM_COMMAND_SHOW_REGS \<Rightarrow>
            Inr (MINI_KVM_SUCCESS, cmd\<lparr>cmd_type := type, cmd_vcpus := sa_vcpus args\<rparr>, w)
        | MINI_KVM_COMMAND_DUMP_MEM \<Rightarrow>
            res_bind (fill_mem_range (sa_mem_range args)) (\<lambda>range.
              let (r, w1) = os_call env Getpid w in
              Inr (MINI_KVM_SUCCESS, cmd\<lparr>cmd_type := type, cmd_mem_range := range, cmd_pid := rv r\<rparr>, w1))
        | _ \<Rightarrow> Inr (MINI_KVM_SUCCESS, cmd, w)
      else Inl OutOfBounds)"

definition status_send_command ::
  "env \<Rightarrow> MiniKvmStatusArgs \<Rightarrow> int \<Rightarrow> nat \<Rightarrow> MiniKvmStatusResult \<Rightarrow> world
     \<Rightarrow> (MiniKVMError \<times> MiniKvmStatusResult \<times> world) res" where
  "status_send_command env args fd cmd_index res w =
     res_bind (status_build_command env args cmd_index zero_command w) (\<lambda>(r1, cmd, w1).
       if r1 \<noteq> MINI_KVM_SUCCESS then Inr (MINI_KVM_STATUS_COMMAND_FAILED, res, w1)
       else let (r2, res', w2) = mini_kvm_ipc_send_cmd env fd cmd res w1 in
       if r2 \<noteq> 0 then Inr (MINI_KVM_STATUS_COMMAND_FAILED, res', w2)
       else Inr (MINI_KVM_SUCCESS, res', w2))"

section \<open>Answers\<close>

definition show_vcpu :: "MiniKvmStatusResult \<Rightarrow> nat \<Rightarrow> string" where
  "show_vcpu res i =
     (if \<not> bit (res_vcpus res) i then []
      else ''VCPU '' @ dec_string i @ '' regs'' @ nl @ mini_kvm_print_regs (res_regs res ! i) @ nl
         @ ''VCPU '' @ dec_string i @ '' sregs'' @ nl @ mini_kvm_print_sregs (res_sregs res ! i))"

definition status_handle_command_result :: "MiniKvmStatusArgs \<Rightarrow> MiniKvmStatusResult \<Rightarrow> string" where
  "status_handle_command_result args res =
     (if res_error res \<noteq> MINI_KVM_SUCCESS then
        (if res_error res = MINI_KVM_STATUS_CMD_VM_NOT_PAUSED
         then ''VM '' @ c_str (sa_name args) @ '' is not paused, please pause the VM before sending request'' @ nl
         else [])
      else case res_cmd_type res of
        MINI_KVM_COMMAND_SHOW_STATE \<Rightarrow>
          c_str (sa_name args) @ '' state: '' @ mini_kvm_vm_state_str (res_state res) @ nl
      | MINI_KVM_COMMAND_SHOW_REGS \<Rightarrow> concat (map (show_vcpu res) [0..<MINI_KVM_MAX_VCPUS])
      | _ \<Rightarrow> [])"

fun status_loop ::
  "env \<Rightarrow> MiniKvmStatusArgs \<Rightarrow> int \<Rightarrow> nat list \<Rightarrow> MiniKvmStatusResult \<Rightarrow> string \<Rightarrow> world
     \<Rightarrow> (MiniKVMError \<times> string \<times> world) res" where
  "status_loop env args fd [] res out w = Inr (MINI_KVM_SUCCESS, out, w)"
| "status_loop env args fd (i # is) res out w =
     res_bind (status_send_command env args fd i res w) (\<lambda>(ret, res', w').
       if ret \<noteq> MINI_KVM_SUCCESS then Inr (ret, out, w')
       else status_loop env args fd is res' (out @ status_handle_command_result args res') w')"

definition status_print_help :: string where
  "status_print_help = ''USAGE:'' @ nl @ tab_char @ ''mini_kvm status [options] ...'' @ nl @ ''OPTIONS:'' @ nl
     @ tab_char @ ''--name/-n: set the name of the virtual machine'' @ nl
     @ tab_char @ ''--regs/-r: request register state'' @ nl
     @ tab_char @ ''--vcpus/-v: specify a target VCPU list'' @ nl
     @ tab_char @ ''--mem/-m: dump memory format is start_addr,[,end_addr][,word_size][,bytes_per_line]'' @ nl
     @ tab_char @ ''--help/-h: print this message'' @ nl"

definition mini_kvm_status :: "env \<Rightarrow> string list \<Rightarrow> world \<Rightarrow> (MiniKVMError \<times> string \<times> world) res" where
  "mini_kvm_status env argv w =
     res_bind (status_parse_args argv (errno w)) (\<lambda>args.
       let ret = sa_ret args; w0 = w\<lparr>errno := sa_errno args\<rparr> in
       if ret \<noteq> MINI_KVM_SUCCESS then Inr (ret, status_print_help, w0)
       else case sa_name args of None \<Rightarrow> Inr (ret, ''no VM name was specified, exiting ...'' @ nl, w0)
       | Some name \<Rightarrow>
         let (alive, w1) = mini_kvm_check_vm env name w0 in
         if alive < 0 then Inr (ret, ''VM '' @ name @ '' is not running, exiting ...'' @ nl, w1)
         else res_bind (mini_kvm_ipc_connect env name w1) (\<lambda>(fd, w2).
           if fd < 0 then Inr (MINI_KVM_INTERNAL_ERROR, [], w2)
           else res_bind (status_loop env args fd [0..<sa_cmd_count args] zero_result [] w2)
             (\<lambda>(ret', out, w3). Inr (ret', out, snd (os_call env (Close fd) w3)))))"

section \<open>Lemmas\<close>

interpretation status_parser: arg_parser status_args_failed status_arg_body
  by unfold_locales (auto simp: status_arg_body_def status_args_failed_def)

text \<open>A list of at most four printed numbers is short.\<close>

lemma dec_string_length: "length (dec_string (unat (w :: u64))) \<le> 20"
proof -
  have "unat w < 10 ^ 20" using unat_u64_less [of w] by simp
  then show ?thesis unfolding dec_string_def by (intro base_string_length_le) simp_all
qed

lemma comma_join_length: "(\<And>f. f \<in> set fs \<Longrightarrow> length f \<le> b) \<Longrightarrow> length (comma_join fs) \<le> (b + 1) * length fs"
proof (induction fs rule: comma_join.induct)
  case (3 f g fs)
  then have "length (comma_join (g # fs)) \<le> (b + 1) * length (g # fs)" "length f \<le> b" by simp_all
  then show ?case by simp
qed auto

definition list_text :: "u64 list \<Rightarrow> string" where
  "list_text ws = comma_join (map (\<lambda>w. dec_string (unat w)) ws)"

lemma list_text_length: "length (list_text ws) \<le> 21 * length ws"
  using comma_join_length [of "map (\<lambda>w. dec_string (unat w)) ws" 20] dec_string_length
  by (auto simp: list_text_def)

lemma parse_list_text:
  assumes "ws \<noteq> []" and "length ws \<le> 1000" and "errno_clear e"
  obtains l where "mini_kvm_parse_int_list (list_text ws) e = Inr (0, l, e)" and "vec_list l = ws"
    and "vec_size l = length ws"
proof -
  have "length (list_text ws) \<le> vec_limit"
    using list_text_length [of ws] assms(2) by (simp add: vec_limit_def)
  with parse_int_list_equiv_spec_core [OF assms(3)] int_list_spec_join [OF assms(1)]
  obtain l where "mini_kvm_parse_int_list (list_text ws) e = Inr (0, l, e)" "vec_grown l" "vec_list l = ws"
    by (force simp: list_text_def comp_def)
  with that show thesis by (metis cvec.size_elems)
qed

lemma getopt_mem_option:
  "getopt_long ''n:v:rm:h'' status_opts_def [''-m'', a] = [(CHR ''m'', Some a)]"
  using getopt_short_arg [of "''n:v:rm:h''" "CHR ''m''" status_opts_def a "[]"] by simp

lemma getopt_regs_options:
  "getopt_long ''n:v:rm:h'' status_opts_def (replicate n ''-r'') = replicate n (CHR ''r'', None)"
  by (induction n) (simp_all add: getopt_long.simps)

lemma scan_regs_options:
  "sa_ret s = MINI_KVM_SUCCESS \<Longrightarrow> length (sa_cmds s) = 7 \<Longrightarrow> sa_cmd_count s \<le> 7 \<Longrightarrow>
    scan_opts status_args_failed status_arg_body s (replicate n (CHR ''r'', None)) =
    (if sa_cmd_count s + n \<le> 7 then
       Inr (s\<lparr>sa_regs := (sa_regs s \<or> 0 < n), sa_cmd_count := sa_cmd_count s + n,
              sa_cmds := take (sa_cmd_count s) (sa_cmds s) @ replicate n MINI_KVM_COMMAND_SHOW_REGS
                @ drop (sa_cmd_count s + n) (sa_cmds s)\<rparr>)
     else Inl OutOfBounds)"
proof (induction n arbitrary: s)
  case 0
  then show ?case by simp
next
  case (Suc n)
  show ?case
  proof (cases "sa_cmd_count s < 7")
    case False
    with Suc.prems show ?thesis by (simp add: status_args_failed_def status_arg_body_def push_cmd_def)
  next
    case True
    let ?s = "s\<lparr>sa_regs := True, sa_cmds := (sa_cmds s)[sa_cmd_count s := MINI_KVM_COMMAND_SHOW_REGS],
      sa_cmd_count := sa_cmd_count s + 1\<rparr>"
    have b: "status_arg_body s (CHR ''r'', None) = Inr ?s"
      using True Suc.prems by (simp add: status_arg_body_def push_cmd_def)
    have "take (Suc (sa_cmd_count s)) (sa_cmds ?s) = take (sa_cmd_count s) (sa_cmds s) @ [MINI_KVM_COMMAND_SHOW_REGS]"
      using True Suc.prems by (simp add: take_Suc_update)
    then show ?thesis
      using Suc.IH [of ?s] Suc.prems True b by (simp add: status_args_failed_def)
  qed
qed

section \<open>Properties\<close>

text \<open>C26. The range of a memory dump: \<open>mini_kvm status -m\<close> with one to four comma-separated numbers
  builds one DUMP_MEM command whose range is those numbers completed by the defaults (start 0, end
  -1, two bytes per word, 16 bytes per line), in the name of the calling process; with more than
  four it writes past the end of the range array of the command.\<close>

theorem status_mem_range:
  assumes "ws \<noteq> []" and "length ws \<le> 1000" and "errno_clear e"
  shows "\<exists>args. status_parse_args [cmd0, ''-m'', list_text ws] e = Inr args \<and> sa_ret args = MINI_KVM_SUCCESS
    \<and> sa_cmd_count args = 1
    \<and> (if length ws \<le> 4
       then \<exists>cmd w'. status_build_command env args 0 zero_command w = Inr (MINI_KVM_SUCCESS, cmd, w')
         \<and> cmd_type cmd = MINI_KVM_COMMAND_DUMP_MEM \<and> cmd_mem_range cmd = ws @ drop (length ws) [0, -1, 2, 16]
         \<and> cmd_pid cmd = rv (env (trace w) Getpid)
       else status_build_command env args 0 zero_command w = Inl OutOfBounds)"
proof -
  obtain l where l: "mini_kvm_parse_int_list (list_text ws) e = Inr (0, l, e)" "vec_list l = ws"
    "vec_size l = length ws"
    by (rule parse_list_text [OF assms])
  show ?thesis
    by (simp add: status_parse_args_def getopt_mem_option zero_status_args_def status_args_failed_def
        status_arg_body_def l push_cmd_def status_build_command_def fill_mem_range_def MEM_RANGE_DEFAULTS_def
        Let_def split_beta not_le)
qed

theorem status_mem_range_witness:
  "\<exists>args cmd w'. status_parse_args [''status'', ''-m'', list_text [4096]] 0 = Inr args
     \<and> status_build_command linux_ok args 0 zero_command fresh_world = Inr (MINI_KVM_SUCCESS, cmd, w')
     \<and> cmd_mem_range cmd = [4096, -1, 2, 16]"
proof -
  have a: "[4096 :: u64] \<noteq> []" "length [4096 :: u64] \<le> 1000" "errno_clear 0" by (simp_all add: errno_clear_def)
  show ?thesis using status_mem_range [OF a, of "''status''" linux_ok fresh_world] by auto
qed

text \<open>Asking for registers without a CPU list: \<open>n\<close> options \<open>-r\<close> give \<open>n\<close> SHOW_REGS commands for CPU 0
  alone, although the comment in the source says that all CPUs are then selected; with more than
  seven of them the command array overflows.\<close>

theorem status_regs_default:
  assumes "0 < n"
  shows "if n \<le> 7
    then \<exists>args. status_parse_args (cmd0 # replicate n ''-r'') e = Inr args \<and> sa_cmd_count args = n
      \<and> (\<forall>i < n. status_build_command env args i zero_command w = Inr (MINI_KVM_SUCCESS,
            zero_command\<lparr>cmd_type := MINI_KVM_COMMAND_SHOW_REGS, cmd_vcpus := 1\<rparr>, w))
    else status_parse_args (cmd0 # replicate n ''-r'') e = Inl OutOfBounds"
  using assms scan_regs_options [of "zero_status_args e" n]
  by (auto simp: status_parse_args_def getopt_regs_options zero_status_args_def status_build_command_def
      nth_append Let_def)

theorem status_regs_default_witness:
  "\<exists>args. status_parse_args [''status'', ''-r''] 0 = Inr args \<and> sa_cmd_count args = 1
     \<and> status_parse_args (''status'' # replicate 8 ''-r'') 0 = Inl OutOfBounds"
proof -
  have p: "0 < (1::nat)" "0 < (8::nat)" by simp_all
  show ?thesis
    using status_regs_default [OF p(1), of "''status''" 0] status_regs_default [OF p(2), of "''status''" 0] by auto
qed

end
