(* ===== verification/Logger.thy ===== *)
theory Logger imports Os begin

text \<open>
  \<open>src/core/logger.c\<close>: the levels, the state of the logger and the line it writes. The time of day
  (\<open>%H:%M:%S\<close>) and the formatted message are arguments of \<open>log_log\<close>; its lock is not modelled, since
  every call holds it from beginning to end. The buffers have the sizes of the source.
\<close>

section \<open>Levels\<close>

datatype LoggerLevel = LogTrace | LogInfo | LogWarn | LogError | LogDisable

fun level_num :: "LoggerLevel \<Rightarrow> nat" where
  "level_num LogTrace = 0"
| "level_num LogInfo = 1"
| "level_num LogWarn = 2"
| "level_num LogError = 3"
| "level_num LogDisable = 4"

lemma level_num_inject [simp]: "level_num a = level_num b \<longleftrightarrow> a = b"
  by (cases a; cases b) simp_all

instantiation LoggerLevel :: linorder
begin

definition less_eq_LoggerLevel :: "LoggerLevel \<Rightarrow> LoggerLevel \<Rightarrow> bool" where
  "less_eq_LoggerLevel a b \<longleftrightarrow> level_num a \<le> level_num b"

definition less_LoggerLevel :: "LoggerLevel \<Rightarrow> LoggerLevel \<Rightarrow> bool" where
  "less_LoggerLevel a b \<longleftrightarrow> level_num a < level_num b"

instance
  by standard (auto simp: less_eq_LoggerLevel_def less_LoggerLevel_def)

end

section \<open>State\<close>

datatype log_stream = Null_stream | Stdout | Log_file string

record LoggerState =
  log_output :: log_stream
  enable_color :: bool
  level :: LoggerLevel

definition initial_logger :: LoggerState where
  "initial_logger = \<lparr>log_output = Null_stream, enable_color = True, level = LogTrace\<rparr>"

definition parse_log_env :: "string option \<Rightarrow> LoggerLevel" where
  "parse_log_env char_level =
     (case char_level of None \<Rightarrow> LogTrace
      | Some s \<Rightarrow>
        if strncmp_eq s ''INFO'' 4 then LogInfo
        else if strncmp_eq s ''TRACE'' 5 then LogTrace
        else if strncmp_eq s ''WARN'' 4 then LogWarn
        else if strncmp_eq s ''ERROR'' 5 then LogError
        else if strncmp_eq s ''DISABLE'' 7 then LogDisable
        else LogTrace)"

definition logger_set_output :: "env \<Rightarrow> string option \<Rightarrow> LoggerState \<Rightarrow> world \<Rightarrow> LoggerState \<times> world" where
  "logger_set_output env path st w =
     (let w1 = (case log_output st of Log_file p \<Rightarrow> snd (os_call env (Fclose_write p) w) | _ \<Rightarrow> w) in
      case path of
        None \<Rightarrow> (st\<lparr>log_output := Stdout\<rparr>, w1)
      | Some p \<Rightarrow>
        if length p \<noteq> 0 then
          let (r, w2) = os_call env (Fopen_write p) w1 in
          (st\<lparr>log_output := (if rv r < 0 then Null_stream else Log_file p), enable_color := False\<rparr>, w2)
        else (st\<lparr>log_output := Stdout\<rparr>, w1))"

definition logger_init :: "env \<Rightarrow> string option \<Rightarrow> string option \<Rightarrow> LoggerState \<Rightarrow> world \<Rightarrow> LoggerState \<times> world" where
  "logger_init env logger_level path st w =
     (let (st1, w1) = logger_set_output env path st w in (st1\<lparr>level := parse_log_env logger_level\<rparr>, w1))"

definition logger_set_level :: "LoggerLevel \<Rightarrow> LoggerState \<Rightarrow> LoggerState" where
  "logger_set_level lvl st = st\<lparr>level := lvl\<rparr>"

definition logger_stop :: "env \<Rightarrow> LoggerState \<Rightarrow> world \<Rightarrow> world res" where
  "logger_stop env st w =
     (case log_output st of Stdout \<Rightarrow> Inr w | Null_stream \<Rightarrow> Inl NullDeref
      | Log_file p \<Rightarrow> Inr (snd (os_call env (Fclose_write p) w)))"

section \<open>Lines\<close>

definition level_str :: "string list" where
  "level_str = [''TRACE'', ''INFO '', ''WARN '', ''ERROR'']"

definition level_color :: "string list" where
  "level_color = map (\<lambda>s. CHR 0x1B # s) [''[1;34m'', ''[1;32m'', ''[1;33m'', ''[1;31m'', ''[0m'']"

text \<open>\<open>sprintf\<close> into a buffer of \<open>n\<close> characters, the terminating NUL included.\<close>

definition sprintf_buf :: "nat \<Rightarrow> string \<Rightarrow> string res" where
  "sprintf_buf n s = (if length s < n then Inr s else Inl OutOfBounds)"

definition level_text :: "LoggerState \<Rightarrow> LoggerLevel \<Rightarrow> string res" where
  "level_text st lvl =
     (if level_num lvl < length level_str then
        sprintf_buf 21
          (if enable_color st
           then level_color ! level_num lvl @ level_str ! level_num lvl @ level_color ! 4
           else level_str ! level_num lvl)
      else Inl OutOfBounds)"

text \<open>\<open>strftime\<close> writes at most 26 characters whatever the size of the buffer, here 13.\<close>

definition time_text :: "string \<Rightarrow> string res" where
  "time_text t = (if length t < 26 then sprintf_buf 13 t else Inl UseUninit)"

text \<open>The result is the text written, if the level of the logger lets the message through.\<close>

definition log_log :: "LoggerState \<Rightarrow> string \<Rightarrow> LoggerLevel \<Rightarrow> string \<Rightarrow> int \<Rightarrow> string \<Rightarrow> string option res" where
  "log_log st now lvl file line msg =
     (if lvl < level st then Inr None
      else res_bind (level_text st lvl) (\<lambda>level_buf.
        res_bind (time_text now) (\<lambda>time_buf.
        if log_output st = Null_stream then Inl NullDeref
        else Inr (Some (''['' @ time_buf @ ''] '' @ level_buf @ '' '' @ file @ '':'' @ int_string line @ '' ''
               @ msg @ [CHR 0x0A])))))"

section \<open>Properties\<close>

text \<open>Logging is safe and filtered: once the output has been set, a message of any level the
  macros use (trace to error) is written exactly when it is at least as severe as the level of the
  logger, inside the bounds of both buffers and ending with its own text and a newline; at level
  \<open>LogDisable\<close> nothing is written.\<close>

theorem log_log_filters:
  assumes "log_output st \<noteq> Null_stream" and "lvl \<noteq> LogDisable" and "length now = 8"
  shows "\<exists>line_text. log_log st now lvl file line msg = Inr line_text
    \<and> (line_text \<noteq> None \<longleftrightarrow> level st \<le> lvl)
    \<and> (level st = LogDisable \<longrightarrow> line_text = None)
    \<and> (\<forall>t. line_text = Some t \<longrightarrow> (\<exists>pre. t = pre @ msg @ [CHR 0x0A]))"
proof -
  obtain lb where lb: "level_text st lvl = Inr lb"
    using assms(2) by (cases lvl; cases "enable_color st") (auto simp: level_text_def sprintf_buf_def level_str_def level_color_def)
  have "time_text now = Inr now" using assms(3) by (simp add: time_text_def sprintf_buf_def)
  moreover have "level st = LogDisable \<Longrightarrow> lvl < level st"
    using assms(2) by (cases lvl) (simp_all add: less_LoggerLevel_def)
  ultimately show ?thesis
    using lb assms(1) by (auto simp: log_log_def not_less)
qed

theorem log_log_filters_witness:
  "\<exists>t. log_log (initial_logger\<lparr>log_output := Stdout, level := LogWarn\<rparr>) ''12:34:56'' LogError ''kvm.c'' 64 ''no device'' = Inr (Some t)
     \<and> log_log (initial_logger\<lparr>log_output := Stdout, level := LogWarn\<rparr>) ''12:34:56'' LogInfo ''kvm.c'' 67 ''opened'' = Inr None"
proof -
  let ?st = "initial_logger\<lparr>log_output := Stdout, level := LogWarn\<rparr>"
  have a: "log_output ?st \<noteq> Null_stream" "length ''12:34:56'' = 8" "LogError \<noteq> LogDisable" "LogInfo \<noteq> LogDisable" by simp_all
  have o: "level ?st \<le> LogError" "\<not> level ?st \<le> LogInfo" by (simp_all add: less_eq_LoggerLevel_def)
  show ?thesis
    using log_log_filters [OF a(1,3,2), of "''kvm.c''" 64 "''no device''"]
      log_log_filters [OF a(1,4,2), of "''kvm.c''" 67 "''opened''"] o by auto
qed

end
