(* ===== verification/Run_Args.thy ===== *)
theory Run_Args imports Getopt Conversion Logger begin

text \<open>
  The arguments of \<open>mini_kvm run\<close> (\<open>src/commands/run.c\<close>): \<open>aligned_to_pages\<close>, \<open>parse_mem\<close> and
  \<open>run_parse_args\<close>. The status is an integer, since \<open>parse_mem\<close> may return -1. The number of CPUs is
  a 32-bit field into which \<open>mini_kvm_to_uint\<close> stores 64 bits: the upper half lands in the low half
  of \<open>mem_size\<close>, the next field of the structure.
\<close>

section \<open>Memory sizes\<close>

definition aligned_to_pages :: "u64 \<Rightarrow> u64" where
  "aligned_to_pages m = (if m mod PAGE_SIZE = 0 then m else m - m mod PAGE_SIZE + PAGE_SIZE)"

text \<open>The unit of a size: its scale, or none when the last character is neither a unit nor a digit.\<close>

definition mem_unit :: "char \<Rightarrow> nat option" where
  "mem_unit c =
     (if c = CHR ''K'' then Some 10 else if c = CHR ''M'' then Some 20 else if c = CHR ''G'' then Some 30
      else if mini_kvm_is_uint (Some [c]) 1 then Some 0 else None)"

text \<open>The result is the status, the size left in \<open>*mem\<close> and \<open>errno\<close>.\<close>

definition parse_mem :: "string \<Rightarrow> u64 \<Rightarrow> int \<Rightarrow> (int \<times> u64 \<times> int) res" where
  "parse_mem arg m e =
     (if length arg = 0 then Inr (-1, m, e)
      else case mem_unit (last arg) of
        None \<Rightarrow> Inr (error_code MINI_KVM_ARGS_FAILED, m, e)
      | Some unit_scale \<Rightarrow>
        let n = length arg - (if unit_scale \<noteq> 0 then 1 else 0) in
        if \<not> mini_kvm_is_uint (Some arg) n then Inr (-1, m, e)
        else res_bind (mini_kvm_to_uint (Some arg) n m e) (\<lambda>(_, v, e').
          Inr (error_code MINI_KVM_SUCCESS, aligned_to_pages (push_bit unit_scale v), e')))"

section \<open>Arguments\<close>

definition run_opts_def :: "option_def list" where
  "run_opts_def = [\<lparr>opt_name = ''name'', opt_has_arg = required_argument, opt_val = CHR ''n''\<rparr>,
     \<lparr>opt_name = ''log'', opt_has_arg = optional_argument, opt_val = CHR ''l''\<rparr>,
     \<lparr>opt_name = ''help'', opt_has_arg = no_argument, opt_val = CHR ''h''\<rparr>,
     \<lparr>opt_name = ''vcpu'', opt_has_arg = required_argument, opt_val = CHR ''v''\<rparr>,
     \<lparr>opt_name = ''disk'', opt_has_arg = required_argument, opt_val = CHR ''d''\<rparr>,
     \<lparr>opt_name = ''mem'', opt_has_arg = required_argument, opt_val = CHR ''m''\<rparr>,
     \<lparr>opt_name = ''kernel'', opt_has_arg = required_argument, opt_val = CHR ''k''\<rparr>]"

definition run_print_help :: string where
  "run_print_help = ''USAGE:'' @ nl @ tab_char @ ''mini_kvm run [options] ...'' @ nl @ ''OPTIONS:'' @ nl
     @ tab_char @ ''--name/-n: set the name of the virtual machine'' @ nl
     @ tab_char @ ''--log/-l: enable logging, can specify an output file with --log=output.txt'' @ nl
     @ tab_char @ ''--mem/-m: memory allocated to the virtual machine in bytes'' @ nl
     @ tab_char @ ''--vcpu/-v: number of vcpus dedicated to the virtual machine'' @ nl
     @ tab_char @ ''--help/-h: print this message'' @ nl"

text \<open>
  The structure \<open>MiniKvmRunArgs\<close>, the status of the parsing loop, what has been printed, the logger and
  the world.
\<close>

record MiniKvmRunArgs =
  ra_name :: "string option"
  log_enabled :: bool
  ra_vcpu :: u32
  ra_mem_size :: u64
  kernel_code :: "u8 list option"
  ra_ret :: int
  ra_out :: string
  ra_log :: LoggerState
  ra_world :: world

definition zero_run_args :: "LoggerState \<Rightarrow> world \<Rightarrow> MiniKvmRunArgs" where
  "zero_run_args st w = \<lparr>ra_name = None, log_enabled = False, ra_vcpu = 0, ra_mem_size = 0, kernel_code = None,
     ra_ret = 0, ra_out = [], ra_log = st, ra_world = w\<rparr>"

text \<open>The eight bytes at \<open>&args->vcpu\<close>, read and written as one \<open>uint64_t\<close>.\<close>

definition vcpu_word :: "MiniKvmRunArgs \<Rightarrow> u64" where
  "vcpu_word s = or (ucast (ra_vcpu s)) (push_bit 32 (ra_mem_size s))"

definition store_vcpu_word :: "u64 \<Rightarrow> MiniKvmRunArgs \<Rightarrow> MiniKvmRunArgs" where
  "store_vcpu_word v s = s\<lparr>ra_vcpu := ucast v,
     ra_mem_size := or (push_bit 32 (drop_bit 32 (ra_mem_size s))) (drop_bit 32 v)\<rparr>"

definition run_arg_body :: "env \<Rightarrow> MiniKvmRunArgs \<Rightarrow> opt_event \<Rightarrow> MiniKvmRunArgs res" where
  "run_arg_body env s ev =
     (let (c, optarg) = ev; w = ra_world s in
      if c = CHR ''n'' then
        (case optarg of None \<Rightarrow> Inl NullDeref | Some a \<Rightarrow> Inr (s\<lparr>ra_name := Some a\<rparr>))
      else if c = CHR ''l'' then
        (case optarg of None \<Rightarrow> Inr (s\<lparr>log_enabled := True\<rparr>)
         | Some p \<Rightarrow> let (st, w1) = logger_set_output env (Some p) (ra_log s) w in
             Inr (s\<lparr>log_enabled := True, ra_log := st, ra_world := w1\<rparr>))
      else if c = CHR ''m'' then
        (case optarg of None \<Rightarrow> Inl NullDeref
         | Some a \<Rightarrow> res_bind (parse_mem a (ra_mem_size s) (errno w)) (\<lambda>(r, m, e').
             Inr (s\<lparr>ra_ret := r, ra_mem_size := m, ra_world := w\<lparr>errno := e'\<rparr>\<rparr>)))
      else if c = CHR ''v'' then
        (case optarg of None \<Rightarrow> Inl NullDeref
         | Some a \<Rightarrow>
           let s1 = (if \<not> mini_kvm_is_uint (Some a) (length a)
                     then s\<lparr>ra_ret := error_code MINI_KVM_ARGS_FAILED\<rparr> else s) in
           res_bind (mini_kvm_to_uint (Some a) (length a) (vcpu_word s1) (errno w)) (\<lambda>(_, v, e').
             Inr (store_vcpu_word v (s1\<lparr>ra_world := w\<lparr>errno := e'\<rparr>\<rparr>))))
      else if c = CHR ''k'' then
        (case optarg of None \<Rightarrow> Inl NullDeref
         | Some p \<Rightarrow> let (r, w1) = os_call env (Fopen_read p) w in
             if rv r < 0 then Inl NullDeref
             else Inr (s\<lparr>kernel_code := Some (case rdata r of Bytes bs \<Rightarrow> bs | _ \<Rightarrow> []), ra_world := w1\<rparr>))
      else if c = CHR ''h'' \<or> c = CHR ''?'' then
        Inr (s\<lparr>ra_ret := error_code MINI_KVM_ARGS_FAILED, ra_out := ra_out s @ run_print_help\<rparr>)
      else Inr s)"

definition run_args_failed :: "MiniKvmRunArgs \<Rightarrow> bool" where
  "run_args_failed s \<longleftrightarrow> ra_ret s = error_code MINI_KVM_ARGS_FAILED"

definition run_parse_args :: "env \<Rightarrow> string list \<Rightarrow> LoggerState \<Rightarrow> world \<Rightarrow> MiniKvmRunArgs res" where
  "run_parse_args env argv st w =
     res_bind (scan_opts run_args_failed (run_arg_body env) (zero_run_args st w)
         (getopt_long ''l::v:d:m:n:k:h'' run_opts_def (tl argv))) (\<lambda>s.
       Inr (s\<lparr>ra_vcpu := (if ra_vcpu s = 0 then 1 else ra_vcpu s)\<rparr>))"

section \<open>Lemmas\<close>

interpretation run_parser: arg_parser run_args_failed "run_arg_body env"
  by unfold_locales (auto simp: run_arg_body_def run_args_failed_def)

text \<open>Rounding up to pages, in the natural numbers.\<close>

definition page_round :: "nat \<Rightarrow> nat" where
  "page_round n = (n + 4095) div 4096 * 4096"

lemma page_round_eq: "page_round n = (if n mod 4096 = 0 then n else n - n mod 4096 + 4096)"
proof -
  have n: "n = n div 4096 * 4096 + n mod 4096" by simp
  define q r where "q = n div 4096" and "r = n mod 4096"
  have "n = q * 4096 + r" "r < 4096" using n by (simp_all only: q_def r_def)
  moreover have "(q * 4096 + r + 4095) div 4096 = q + (if r = 0 then 0 else 1)"
    using \<open>r < 4096\<close> div_nat_eqI [of "q + (if r = 0 then 0 else 1)" 4096 "q * 4096 + r + 4095"] by (auto split: if_splits)
  ultimately show ?thesis by (auto simp: page_round_def)
qed

lemma unat_aligned_to_pages:
  assumes "page_round (unat m) < 2 ^ 64"
  shows "unat (aligned_to_pages m) = page_round (unat m)"
proof -
  have r: "unat (m mod 0x1000) = unat m mod 4096" by (simp add: unat_mod)
  then have z: "m mod 0x1000 = 0 \<longleftrightarrow> unat m mod 4096 = 0" by (metis unat_eq_zero)
  have s: "unat (m - m mod 0x1000) = unat m - unat m mod 4096"
    using r by (simp add: unat_sub word_le_nat_alt)
  show ?thesis
    using assms z s unat_u64_less [of m]
    by (auto simp: aligned_to_pages_def page_round_eq unat_word_ariths)
qed

lemma getopt_run_m: "getopt_long ''l::v:d:m:n:k:h'' run_opts_def (''-m'' # a # rest)
    = (CHR ''m'', Some a) # getopt_long ''l::v:d:m:n:k:h'' run_opts_def rest"
  using getopt_short_arg [of "''l::v:d:m:n:k:h''" "CHR ''m''"] by simp

lemma getopt_run_v: "getopt_long ''l::v:d:m:n:k:h'' run_opts_def (''-v'' # a # rest)
    = (CHR ''v'', Some a) # getopt_long ''l::v:d:m:n:k:h'' run_opts_def rest"
  using getopt_short_arg [of "''l::v:d:m:n:k:h''" "CHR ''v''"] by simp

text \<open>The units and their scales.\<close>

definition unit_scale_of :: "string \<Rightarrow> nat \<Rightarrow> bool" where
  "unit_scale_of u k \<longleftrightarrow> (u, k) \<in> {([], 0), (''K'', 10), (''M'', 20), (''G'', 30)}"

lemma page_round_ge: "n \<le> page_round n"
  by (simp add: page_round_eq) (metis add_diff_cancel_left' le_add1 le_diff_conv mod_less_divisor not_le
      less_imp_le_nat zero_less_numeral le_add2 add.commute)

lemma parse_mem_digits:
  assumes "unit_scale_of u k" and "page_round (n * 2 ^ k) < 2 ^ 64" and "errno_clear e"
  shows "parse_mem (dec_string n @ u) m e = Inr (0, word_of_nat (page_round (n * 2 ^ k)), e)"
proof -
  have big: "n * 2 ^ k < 2 ^ 64" using assms(2) page_round_ge [of "n * 2 ^ k"] by linarith
  have n: "n < 2 ^ 64" using big by (metis less_le_trans mult.commute mult_le_mono2 nat_mult_1_right not_le one_le_power one_le_numeral order_le_less_trans mult_1)
  have d: "\<forall>c \<in> set (dec_string n). isdigit c" using isdigit_dec_string by blast
  have last: "isdigit (last (dec_string n))" using d by simp
  have u: "mem_unit (last (dec_string n @ u)) = Some k"
    using assms(1) last by (auto simp: unit_scale_of_def mem_unit_def)
  have l: "length (dec_string n @ u) - (if k \<noteq> 0 then 1 else 0) = length (dec_string n)"
    using assms(1) by (auto simp: unit_scale_of_def)
  have t: "mini_kvm_to_uint (Some (dec_string n @ u)) (length (dec_string n)) m e = Inr (0, word_of_nat n, e)"
    using to_uint_digits [of "dec_string n" u "length (dec_string n)" e m] d n assms(1,3)
    by (auto simp: unit_scale_of_def)
  have p: "unat (push_bit k (word_of_nat n) :: u64) = n * 2 ^ k"
    using big n assms(1) by (auto simp: push_bit_eq_mult unat_word_ariths unat_of_nat unit_scale_of_def)
  have "aligned_to_pages (push_bit k (word_of_nat n)) = word_of_nat (page_round (n * 2 ^ k))"
    using unat_aligned_to_pages [of "push_bit k (word_of_nat n)"] assms(2) p
    by (simp add: word_unat_eq_iff unat_of_nat)
  with d show ?thesis
    unfolding parse_mem_def u option.case Let_def l t by simp
qed

text \<open>What \<open>-v\<close> stores: the number itself, and zeros over the low half of the memory size.\<close>

lemma run_body_vcpu:
  assumes "errno_clear (errno (ra_world s))" and "n < 2 ^ 32"
  shows "run_arg_body env s (CHR ''v'', Some (dec_string n)) = Inr (s\<lparr>ra_vcpu := word_of_nat n,
    ra_mem_size := push_bit 32 (drop_bit 32 (ra_mem_size s)), ra_world := ra_world s\<rparr>)"
proof -
  have d: "\<forall>c \<in> set (dec_string n). isdigit c" using isdigit_dec_string by blast
  have n: "n < 2 ^ 64" using assms(2) by simp
  have t: "mini_kvm_to_uint (Some (dec_string n)) (length (dec_string n)) x (errno (ra_world s))
      = Inr (0, word_of_nat n, errno (ra_world s))" for x
    using to_uint_digits [of "dec_string n" "[]" "length (dec_string n)" "errno (ra_world s)" x] d n assms(1) by simp
  have h: "drop_bit 32 (word_of_nat n :: u64) = 0"
  proof -
    have "unat (drop_bit 32 (word_of_nat n :: u64)) = n div 2 ^ 32"
      using assms(2) by (simp only: unat_drop_bit_eq) (simp add: drop_bit_eq_div unat_of_nat)
    then show ?thesis using assms(2) by (simp add: word_unat_eq_iff)
  qed
  have c: "(ucast (word_of_nat n :: u64) :: u32) = word_of_nat n"
    using assms(2) by (simp add: word_unat_eq_iff unat_ucast_u32 unat_of_nat)
  show ?thesis
    using d by (simp add: run_arg_body_def t store_vcpu_word_def h c)
qed

lemma run_body_mem:
  assumes "errno_clear (errno (ra_world s))" and "unit_scale_of u k" and "page_round (n * 2 ^ k) < 2 ^ 64"
  shows "run_arg_body env s (CHR ''m'', Some (dec_string n @ u)) =
    Inr (s\<lparr>ra_ret := 0, ra_mem_size := word_of_nat (page_round (n * 2 ^ k)), ra_world := ra_world s\<rparr>)"
  by (simp add: run_arg_body_def parse_mem_digits [OF assms(2,3,1)])

section \<open>Properties\<close>

text \<open>C27. Memory sizes: a decimal number with no unit or with K, M or G is read as that many bytes,
  times 2^10, 2^20 or 2^30, rounded up to whole pages, as long as the rounded size fits 64 bits.\<close>

theorem parse_mem_units:
  assumes "unit_scale_of u k" and "page_round (n * 2 ^ k) < 2 ^ 64" and "errno_clear e"
  shows "\<exists>m'. parse_mem (dec_string n @ u) m e = Inr (0, m', e) \<and> unat m' = page_round (n * 2 ^ k)
    \<and> 4096 dvd unat m' \<and> n * 2 ^ k \<le> unat m' \<and> unat m' < n * 2 ^ k + 4096"
proof -
  have "unat (word_of_nat (page_round (n * 2 ^ k)) :: u64) = page_round (n * 2 ^ k)"
    using assms(2) by (rule unat_of_nat_u64)
  moreover have "page_round x < x + 4096" for x by (simp add: page_round_eq)
  moreover have "4096 dvd page_round x" for x by (simp add: page_round_def)
  ultimately show ?thesis using parse_mem_digits [OF assms] page_round_ge by simp
qed

theorem parse_mem_units_witness: "\<exists>m'. parse_mem (dec_string 5 @ ''K'') 0 0 = Inr (0, m', 0) \<and> unat m' = 8192"
proof -
  have a: "unit_scale_of ''K'' 10" "page_round (5 * 2 ^ 10) < 2 ^ 64" "errno_clear 0"
    by (simp_all add: unit_scale_of_def page_round_def errno_clear_def)
  show ?thesis using parse_mem_units [OF a, of 0] by (auto simp: page_round_def)
qed

text \<open>C40. The order of \<open>-m\<close> and \<open>-v\<close> matters: \<open>-v N -m S\<close> gives \<open>N\<close> CPUs (at least one) and the size \<open>S\<close>, while
  \<open>-m S -v N\<close> loses the low 32 bits of the size, which makes every size below 4 GiB zero.\<close>

theorem vcpu_option_clears_memory_size:
  assumes "unit_scale_of u k" and "page_round (n * 2 ^ k) < 2 ^ 64" and "errno_clear (errno w)" and "0 < c" and "c < 2 ^ 32"
  defines "size_arg \<equiv> dec_string n @ u" and "msize \<equiv> word_of_nat (page_round (n * 2 ^ k)) :: u64"
  shows "(\<exists>args. run_parse_args env [cmd0, ''-v'', dec_string c, ''-m'', size_arg] st w = Inr args
      \<and> ra_ret args = 0 \<and> ra_vcpu args = word_of_nat c \<and> ra_mem_size args = msize)
    \<and> (\<exists>args. run_parse_args env [cmd0, ''-m'', size_arg, ''-v'', dec_string c] st w = Inr args
      \<and> ra_ret args = 0 \<and> ra_vcpu args = word_of_nat c \<and> ra_mem_size args = push_bit 32 (drop_bit 32 msize))"
proof -
  have c0: "(word_of_nat c :: u32) \<noteq> 0" using assms(4,5) by (simp add: word_unat_eq_iff unat_of_nat)
  note b = run_body_vcpu [OF _ assms(5)] run_body_mem [OF _ assms(1,2)]
  show ?thesis
    using assms(3) c0
    by (simp add: run_parse_args_def getopt_run_v getopt_run_m b zero_run_args_def run_args_failed_def
        size_arg_def msize_def)
qed

theorem vcpu_option_clears_memory_size_witness:
  "\<exists>args. run_parse_args linux_ok [''run'', ''-m'', dec_string 64 @ ''M'', ''-v'', dec_string 2] initial_logger fresh_world = Inr args
     \<and> ra_vcpu args = 2 \<and> ra_mem_size args = 0"
proof -
  have a: "unit_scale_of ''M'' 20" "page_round (64 * 2 ^ 20) < 2 ^ 64" "errno_clear (errno fresh_world)" "0 < (2::nat)" "(2::nat) < 2 ^ 32"
    by (simp_all add: unit_scale_of_def page_round_def errno_clear_def fresh_world_def)
  show ?thesis
    using vcpu_option_clears_memory_size [OF a, of linux_ok "''run''" initial_logger]
    by (auto simp: page_round_def)
qed

end
