(* ===== verification/Kvm_Setup.thy ===== *)
theory Kvm_Setup imports Guest_Memory Os begin

text \<open>
  \<open>src/kvm/kvm.c\<close>: creation of the virtual machine and its CPUs, paging, and cleanup; and
  \<open>check_cpu_vendor\<close> of \<open>src/core/core.c\<close>. Each function takes the operating system \<open>env\<close> and the
  world and returns its status, the structures it changed and the world. The \<open>cpuid\<close> instruction is
  a parameter too. The constant \<open>KVM_API_VERSION\<close> of the kernel header is 12, its documented value.
\<close>

section \<open>CPU vendor\<close>

datatype MiniKVMCPUVendor = GenuineIntel | AuthenticAMD

fun vendor_name :: "MiniKVMCPUVendor \<Rightarrow> string" where
  "vendor_name GenuineIntel = ''GenuineIntel''"
| "vendor_name AuthenticAMD = ''AuthenticAMD''"

type_synonym cpuid_insn = "u32 \<Rightarrow> u32 \<Rightarrow> u32 \<times> u32 \<times> u32 \<times> u32"

text \<open>
  The array \<open>out\<close> is indexed by \<open>EAX, EBX, ECX, EDX\<close>. Both \<open>"=a"\<close> and \<open>"=b"\<close> name \<open>out[EBX]\<close>;
  the operands are stored in the order they are written, so \<open>ebx\<close> stays and \<open>out[EAX]\<close> keeps the
  function number.
\<close>

definition native_cpuid :: "cpuid_insn \<Rightarrow> u32 \<Rightarrow> u32 list" where
  "native_cpuid cpuid function = (let (a, b, c, d) = cpuid function 0 in [function, b, c, d])"

definition le32_chars :: "u32 \<Rightarrow> string" where
  "le32_chars w = map (\<lambda>i. char_of (unat (and (drop_bit (8 * i) w) 0xff))) [0..<4]"

definition check_cpu_vendor :: "cpuid_insn \<Rightarrow> MiniKVMCPUVendor \<Rightarrow> bool" where
  "check_cpu_vendor cpuid v =
     (let out = native_cpuid cpuid 0;
          name = le32_chars (out ! 1) @ le32_chars (out ! 3) @ le32_chars (out ! 2)
      in strncmp_eq (vendor_name v) (takeWhile (\<lambda>c. of_char c \<noteq> (0::nat)) name) 13)"

section \<open>The virtual machine\<close>

definition TSS_ADDR :: u64 where [simp]: "TSS_ADDR = 0xfffbd000"
definition IDENTITY_MAP_ADDR :: u64 where [simp]: "IDENTITY_MAP_ADDR = 0xfffbc000"
definition MAX_CPUID_ENTRIES :: nat where [simp]: "MAX_CPUID_ENTRIES = 100"
definition KVM_API_VERSION :: int where [simp]: "KVM_API_VERSION = 12"
definition MAP_FAILED :: u64 where [simp]: "MAP_FAILED = -1"

definition MINI_KVM_CAPS :: "kvm_cap list" where
  "MINI_KVM_CAPS = [KVM_CAP_USER_MEMORY, KVM_CAP_SET_TSS_ADDR, KVM_CAP_EXT_CPUID]"

text \<open>Both results are compared with \<open>< -1\<close>, as the source has it.\<close>

definition kvm_setup_irq :: "env \<Rightarrow> Kvm \<Rightarrow> world \<Rightarrow> MiniKVMError \<times> world" where
  "kvm_setup_irq env kvm w =
     (let (r1, w1) = os_call env (Ioctl (vm_fd kvm) KVM_CREATE_IRQCHIP) w in
      if rv r1 < -1 then (MINI_KVM_FAILED_IOCTL, w1)
      else let (r2, w2) = os_call env (Ioctl (vm_fd kvm) KVM_CREATE_PIT2) w1 in
      if rv r2 < -1 then (MINI_KVM_FAILED_IOCTL, w2)
      else (MINI_KVM_SUCCESS, w2))"

fun check_caps :: "env \<Rightarrow> int \<Rightarrow> kvm_cap list \<Rightarrow> world \<Rightarrow> bool \<times> world" where
  "check_caps env fd [] w = (True, w)"
| "check_caps env fd (c # cs) w =
     (let (r, w1) = os_call env (Ioctl fd (KVM_CHECK_EXTENSION c)) w in
      if rv r < 0 then (False, w1) else check_caps env fd cs w1)"

text \<open>
  The two Intel-only calls: \<open>if (ioctl(...), 0)\<close> is a comma expression, whose value is 0, so their
  results are never looked at.
\<close>

definition setup_intel :: "env \<Rightarrow> cpuid_insn \<Rightarrow> Kvm \<Rightarrow> world \<Rightarrow> world" where
  "setup_intel env cpuid kvm w =
     (if check_cpu_vendor cpuid GenuineIntel
      then let (_, w1) = os_call env (Ioctl (kvm_fd kvm) (KVM_SET_TSS_ADDR TSS_ADDR)) w;
               (_, w2) = os_call env (Ioctl (kvm_fd kvm) (KVM_SET_IDENTITY_MAP_ADDR IDENTITY_MAP_ADDR)) w1
           in w2
      else w)"

text \<open>The guest memory: an anonymous mapping, which reads as zeros, registered as slot 0.\<close>

definition setup_memory :: "env \<Rightarrow> Kvm \<Rightarrow> u64 \<Rightarrow> world \<Rightarrow> MiniKVMError \<times> Kvm \<times> world" where
  "setup_memory env kvm msize w =
     (if msize = 0 then (MINI_KVM_FAILED_ALLOCATION, kvm, w)
      else let (r, w1) = os_call env (Mmap_anonymous msize) w;
               k1 = kvm\<lparr>mem_size := msize, mem := word_of_int (rv r)\<rparr> in
      if mem k1 = MAP_FAILED then (MINI_KVM_FAILED_ALLOCATION, k1, w1)
      else let region = \<lparr>slot = 0, flags = 0, guest_phys_addr = 0, memory_size = mem_size k1,
                         userspace_addr = mem k1\<rparr>;
               k2 = k1\<lparr>guest := (\<lambda>_. 0), u_region := region\<rparr>;
               (r2, w2) = os_call env (Ioctl (vm_fd k2) (KVM_SET_USER_MEMORY_REGION region)) w1 in
      if rv r2 < 0 then (MINI_KVM_FAILED_MEMORY_REGION_CREATION, k2, w2)
      else let (e, w3) = kvm_setup_irq env k2 w2 in
      if e \<noteq> MINI_KVM_SUCCESS then (MINI_KVM_FAILED_VM_CREATION, k2, w3)
      else (MINI_KVM_SUCCESS, k2, w3))"

definition mini_kvm_setup_kvm ::
  "env \<Rightarrow> cpuid_insn \<Rightarrow> Kvm \<Rightarrow> u64 \<Rightarrow> world \<Rightarrow> MiniKVMError \<times> Kvm \<times> world" where
  "mini_kvm_setup_kvm env cpuid kvm msize w =
     (let k0 = kvm\<lparr>vcpus := vec_new, vm_state := MINI_KVM_PAUSED, paused := 0, pause_lock := False\<rparr>;
          (r1, w1) = os_call env (Open ''/dev/kvm'' O_RDWR) w;
          k1 = k0\<lparr>kvm_fd := rv r1\<rparr> in
      if kvm_fd k1 < 0 then (MINI_KVM_NO_DEVICE, k1, w1)
      else let (r2, w2) = os_call env (Ioctl (kvm_fd k1) KVM_GET_API_VERSION) w1 in
      if rv r2 \<noteq> KVM_API_VERSION then (MINI_KVM_WRONG_VERSION, k1, w2)
      else let (r3, w3) = os_call env (Ioctl (kvm_fd k1) KVM_CREATE_VM) w2;
               k2 = k1\<lparr>vm_fd := rv r3\<rparr> in
      if vm_fd k2 < 0 then (MINI_KVM_FAILED_VM_CREATION, k2, w3)
      else let (ok, w4) = check_caps env (kvm_fd k2) MINI_KVM_CAPS w3 in
      if \<not> ok then (MINI_KVM_UNSUPPORTED_CAPS, k2, w4)
      else setup_memory env k2 msize (setup_intel env cpuid k2 w4))"

section \<open>Virtual CPUs\<close>

definition kvm_setup_cpuid :: "env \<Rightarrow> Kvm \<Rightarrow> VCpu \<Rightarrow> world \<Rightarrow> MiniKVMError \<times> world" where
  "kvm_setup_cpuid env kvm vcpu w =
     (let (r1, w1) = os_call env (Ioctl (kvm_fd kvm) (KVM_GET_SUPPORTED_CPUID MAX_CPUID_ENTRIES)) w in
      if rv r1 < 0 then (MINI_KVM_FAILED_IOCTL, w1)
      else let entries = (case rdata r1 of Bytes bs \<Rightarrow> bs | _ \<Rightarrow> []);
               (r2, w2) = os_call env (Ioctl (vcpu_fd vcpu) (KVM_SET_CPUID2 entries)) w1 in
      if rv r2 < 0 then (MINI_KVM_FAILED_IOCTL, w2)
      else (MINI_KVM_SUCCESS, w2))"

definition boot_regs :: "Kvm \<Rightarrow> u64 \<Rightarrow> kvm_regs" where
  "boot_regs kvm start_addr =
     zero_regs\<lparr>rip := start_addr, rsp := mem_size kvm - 1, rbp := mem_size kvm - 1, rflags := 1\<rparr>"

definition flat_segment :: "kvm_segment \<Rightarrow> kvm_segment" where
  "flat_segment seg = seg\<lparr>seg_selector := 0, seg_base := 0\<rparr>"

definition boot_sregs :: "kvm_sregs \<Rightarrow> kvm_sregs" where
  "boot_sregs sr = sr\<lparr>sr_cs := flat_segment (sr_cs sr), sr_ds := flat_segment (sr_ds sr),
     sr_ss := flat_segment (sr_ss sr)\<rparr>"

definition mini_kvm_setup_vcpu ::
  "env \<Rightarrow> Kvm \<Rightarrow> VCpu \<Rightarrow> u64 \<Rightarrow> world \<Rightarrow> MiniKVMError \<times> VCpu \<times> world" where
  "mini_kvm_setup_vcpu env kvm vcpu start_addr w =
     (let v1 = vcpu\<lparr>vcpu_regs := boot_regs kvm start_addr\<rparr>;
          (r1, w1) = os_call env (Ioctl (vcpu_fd v1) (KVM_SET_REGS (vcpu_regs v1))) w in
      if rv r1 < 0 then (MINI_KVM_FAILED_VCPU_CREATION, v1, w1)
      else let (r2, w2) = os_call env (Ioctl (vcpu_fd v1) KVM_GET_SREGS) w1 in
      if rv r2 < 0 then (MINI_KVM_FAILED_VCPU_CREATION, v1, w2)
      else let got = (case rdata r2 of Sregs sr \<Rightarrow> sr | _ \<Rightarrow> vcpu_sregs v1);
               v2 = v1\<lparr>vcpu_sregs := boot_sregs got\<rparr>;
               (r3, w3) = os_call env (Ioctl (vcpu_fd v2) (KVM_SET_SREGS (vcpu_sregs v2))) w2 in
      if rv r3 < 0 then (MINI_KVM_FAILED_VCPU_CREATION, v2, w3)
      else let (e, w4) = kvm_setup_cpuid env kvm v2 w3 in
      if e \<noteq> MINI_KVM_SUCCESS then (MINI_KVM_FAILED_VCPU_CREATION, v2, w4)
      else (MINI_KVM_SUCCESS, v2, w4))"

definition mini_kvm_add_vcpu ::
  "env \<Rightarrow> Kvm option \<Rightarrow> world \<Rightarrow> (MiniKVMError \<times> Kvm option \<times> world) res" where
  "mini_kvm_add_vcpu env kvm w =
     (case kvm of None \<Rightarrow> Inr (MINI_KVM_FAILED_VCPU_CREATION, kvm, w)
      | Some k \<Rightarrow>
        let v0 = zero_vcpu\<lparr>vcpu_id := ucast (len (vcpus k))\<rparr>;
            (r1, w1) = os_call env (Ioctl (vm_fd k) (KVM_CREATE_VCPU (vcpu_id v0))) w;
            v1 = v0\<lparr>vcpu_fd := rv r1\<rparr> in
        if vcpu_fd v1 < 0 then Inr (MINI_KVM_FAILED_VCPU_CREATION, kvm, w1)
        else let (r2, w2) = os_call env (Ioctl (kvm_fd k) KVM_GET_VCPU_MMAP_SIZE) w1;
                 v2 = v1\<lparr>mem_region_size := rv r2\<rparr> in
        if mem_region_size v2 \<le> 0 then Inr (MINI_KVM_FAILED_VCPU_CREATION, kvm, w2)
        else let (r3, w3) = os_call env (Mmap_shared (vcpu_fd v2) (mem_region_size v2)) w2;
                 v3 = v2\<lparr>kvm_run := word_of_int (rv r3)\<rparr> in
        if kvm_run v3 = MAP_FAILED then Inr (MINI_KVM_FAILED_VCPU_CREATION, kvm, w3)
        else let (e, v4, w4) = mini_kvm_setup_vcpu env k v3 BOOTLOADER_ADDR w3 in
        if e \<noteq> MINI_KVM_SUCCESS then Inr (MINI_KVM_FAILED_VCPU_CREATION, kvm, w4)
        else res_bind (vec_append (vcpus k) v4)
               (\<lambda>vs. Inr (MINI_KVM_SUCCESS, Some (k\<lparr>vcpus := vs\<rparr>), w4)))"

section \<open>Paging\<close>

definition code_seg :: kvm_segment where
  "code_seg = zero_segment\<lparr>seg_base := 0, seg_limit := 0xffffffff, seg_selector := push_bit 3 1,
     seg_present := 1, seg_type := 11, seg_dpl := 0, seg_db := 0, seg_s := 1, seg_l := 1, seg_g := 1\<rparr>"

definition data_seg :: kvm_segment where
  "data_seg = code_seg\<lparr>seg_selector := push_bit 3 2, seg_type := 3\<rparr>"

definition long_mode_sregs :: "kvm_sregs \<Rightarrow> kvm_sregs" where
  "long_mode_sregs sr = sr\<lparr>sr_cr0 := or CR0_PE CR0_PG, sr_cr3 := PLM4_ADDR, sr_cr4 := CR4_PAE,
     sr_efer := or EFER_LME EFER_LMA, sr_cs := code_seg,
     sr_ds := data_seg, sr_es := data_seg, sr_fs := data_seg, sr_gs := data_seg\<rparr>"

definition mini_kvm_configure_paging ::
  "env \<Rightarrow> Kvm \<Rightarrow> world \<Rightarrow> (MiniKVMError \<times> Kvm \<times> world) res" where
  "mini_kvm_configure_paging env kvm w =
     res_bind (kvm_setup_pages kvm) (\<lambda>(ret, k1).
       if ret \<noteq> MINI_KVM_SUCCESS then Inr (ret, k1, w)
       else res_bind (vec_get (vcpus k1) 0) (\<lambda>vcpu.
         let v1 = vcpu\<lparr>vcpu_sregs := long_mode_sregs (vcpu_sregs vcpu)\<rparr> in
         res_bind (vec_put (vcpus k1) 0 v1) (\<lambda>vs.
           let k2 = k1\<lparr>vcpus := vs\<rparr>;
               (r, w1) = os_call env (Ioctl (vcpu_fd v1) (KVM_SET_SREGS (vcpu_sregs v1))) w in
           if rv r < 0 then Inr (MINI_KVM_FAILED_IOCTL, k2, w1)
           else Inr (ret, k2, w1))))"

section \<open>Cleanup\<close>

text \<open>Joining a thread that never returns does not return either.\<close>

definition join_vcpu :: "env \<Rightarrow> VCpu \<Rightarrow> world \<Rightarrow> world res" where
  "join_vcpu env v w =
     (if vcpu_thread v \<noteq> 0
      then let (r, w1) = os_call env (Pthread_join (vcpu_thread v)) w in if rdata r = Never then Inl Hang else Inr w1
      else Inr w)"

definition clean_vcpu :: "env \<Rightarrow> VCpu \<Rightarrow> world \<Rightarrow> world res" where
  "clean_vcpu env v w =
     res_bind (join_vcpu env v w) (\<lambda>w1.
       let w2 = snd (os_call env (Munmap (kvm_run v) (word_of_int (mem_region_size v))) w1)
       in Inr (snd (os_call env (Close (vcpu_fd v)) w2)))"

definition mini_kvm_clean_kvm :: "env \<Rightarrow> Kvm \<Rightarrow> world \<Rightarrow> world res" where
  "mini_kvm_clean_kvm env kvm w =
     res_bind
       (res_fold (\<lambda>w i. res_bind (vec_get (vcpus kvm) i) (\<lambda>v. clean_vcpu env v w)) w
          [0..<vec_size (vcpus kvm)])
       (\<lambda>w1.
          let w2 = (if kvm_name kvm \<noteq> None then snd (os_call env (Close (fs_fd kvm)) w1) else w1);
              w3 = (if mem kvm \<noteq> 0 then snd (os_call env (Munmap (mem kvm) (mem_size kvm)) w2) else w2);
              w4 = snd (os_call env (Close (kvm_fd kvm)) w3)
          in Inr (snd (os_call env (Close (vm_fd kvm)) w4)))"

section \<open>Lemmas\<close>

text \<open>A call with its answer and the calls made so far; the proofs below step through calls by it.\<close>

lemmas os_steps = Let_def split_beta os_call_fst os_call_trace

lemma check_caps_trace:
  "fst (check_caps env fd cs w) \<Longrightarrow>
    trace (snd (check_caps env fd cs w)) = trace w @ map (\<lambda>c. Ioctl fd (KVM_CHECK_EXTENSION c)) cs"
  by (induction cs arbitrary: w) (auto simp: os_steps split: if_splits)

lemma setup_intel_trace:
  "trace (setup_intel env cpuid k w) = trace w
    @ (if check_cpu_vendor cpuid GenuineIntel
       then [Ioctl (kvm_fd k) (KVM_SET_TSS_ADDR TSS_ADDR),
             Ioctl (kvm_fd k) (KVM_SET_IDENTITY_MAP_ADDR IDENTITY_MAP_ADDR)] else [])"
  by (simp add: setup_intel_def os_steps)

lemma setup_memory_success:
  assumes "setup_memory env k0 msize w = (MINI_KVM_SUCCESS, k, w')"
  shows "msize \<noteq> 0" and "mem k \<noteq> MAP_FAILED"
    and "k = k0\<lparr>mem_size := msize, mem := mem k, guest := (\<lambda>_. 0),
      u_region := \<lparr>slot = 0, flags = 0, guest_phys_addr = 0, memory_size = msize, userspace_addr = mem k\<rparr>\<rparr>"
    and "trace w' = trace w @ [Mmap_anonymous msize,
      Ioctl (vm_fd k) (KVM_SET_USER_MEMORY_REGION (u_region k)),
      Ioctl (vm_fd k) KVM_CREATE_IRQCHIP, Ioctl (vm_fd k) KVM_CREATE_PIT2]"
  using assms
  by (auto simp: setup_memory_def kvm_setup_irq_def os_steps split: if_splits)

text \<open>The calls a complete setup makes, given the descriptors and the region.\<close>

definition setup_calls :: "cpuid_insn \<Rightarrow> int \<Rightarrow> int \<Rightarrow> kvm_userspace_memory_region \<Rightarrow> syscall list" where
  "setup_calls cpuid kfd vfd region =
     [Open ''/dev/kvm'' O_RDWR, Ioctl kfd KVM_GET_API_VERSION, Ioctl kfd KVM_CREATE_VM]
     @ map (\<lambda>c. Ioctl kfd (KVM_CHECK_EXTENSION c)) MINI_KVM_CAPS
     @ (if check_cpu_vendor cpuid GenuineIntel
        then [Ioctl kfd (KVM_SET_TSS_ADDR TSS_ADDR), Ioctl kfd (KVM_SET_IDENTITY_MAP_ADDR IDENTITY_MAP_ADDR)]
        else [])
     @ [Mmap_anonymous (memory_size region), Ioctl vfd (KVM_SET_USER_MEMORY_REGION region),
        Ioctl vfd KVM_CREATE_IRQCHIP, Ioctl vfd KVM_CREATE_PIT2]"

lemma setup_kvm_reaches_memory:
  assumes "mini_kvm_setup_kvm env cpuid kvm msize w = (MINI_KVM_SUCCESS, k, w')"
  obtains k2 w5 where "setup_memory env k2 msize w5 = (MINI_KVM_SUCCESS, k, w')"
    and "k2 = kvm\<lparr>vcpus := vec_new, vm_state := MINI_KVM_PAUSED, paused := 0, pause_lock := False,
          kvm_fd := kvm_fd k2, vm_fd := vm_fd k2\<rparr>"
    and "0 \<le> kvm_fd k2" and "0 \<le> vm_fd k2"
    and "trace w5 = trace w
          @ [Open ''/dev/kvm'' O_RDWR, Ioctl (kvm_fd k2) KVM_GET_API_VERSION, Ioctl (kvm_fd k2) KVM_CREATE_VM]
          @ map (\<lambda>c. Ioctl (kvm_fd k2) (KVM_CHECK_EXTENSION c)) MINI_KVM_CAPS
          @ (if check_cpu_vendor cpuid GenuineIntel
             then [Ioctl (kvm_fd k2) (KVM_SET_TSS_ADDR TSS_ADDR),
                   Ioctl (kvm_fd k2) (KVM_SET_IDENTITY_MAP_ADDR IDENTITY_MAP_ADDR)] else [])"
proof -
  define w1 where "w1 = snd (os_call env (Open ''/dev/kvm'' O_RDWR) w)"
  define kfd where "kfd = rv (env (trace w) (Open ''/dev/kvm'' O_RDWR))"
  define w2 where "w2 = snd (os_call env (Ioctl kfd KVM_GET_API_VERSION) w1)"
  define w3 where "w3 = snd (os_call env (Ioctl kfd KVM_CREATE_VM) w2)"
  define vfd where "vfd = rv (env (trace w2) (Ioctl kfd KVM_CREATE_VM))"
  define w4 where "w4 = snd (check_caps env kfd MINI_KVM_CAPS w3)"
  define k2 where "k2 = kvm\<lparr>vcpus := vec_new, vm_state := MINI_KVM_PAUSED, paused := 0,
    pause_lock := False, kvm_fd := kfd, vm_fd := vfd\<rparr>"
  note ds = w1_def [symmetric] w2_def [symmetric] w3_def [symmetric] w4_def [symmetric]
    kfd_def [symmetric] vfd_def [symmetric]
  have ok: "0 \<le> kfd" "0 \<le> vfd" "fst (check_caps env kfd MINI_KVM_CAPS w3)"
    "setup_memory env k2 msize (setup_intel env cpuid k2 w4) = (MINI_KVM_SUCCESS, k, w')"
    using assms
    by (simp_all add: mini_kvm_setup_kvm_def Let_def split_beta ds k2_def split: if_splits)
  show thesis
    by (rule that [OF ok(4)])
      (use ok in \<open>simp_all add: k2_def setup_intel_trace w4_def check_caps_trace w3_def w2_def w1_def\<close>)
qed

text \<open>What a VCPU setup writes, whether it succeeds or not.\<close>

lemma setup_vcpu_frame:
  assumes "mini_kvm_setup_vcpu env k v a w = (e, v', w')"
  shows "v' = v\<lparr>vcpu_regs := boot_regs k a, vcpu_sregs := vcpu_sregs v'\<rparr>"
    and "e = MINI_KVM_SUCCESS \<or> e = MINI_KVM_FAILED_VCPU_CREATION"
  using assms by (auto simp: mini_kvm_setup_vcpu_def os_steps split: if_splits)

text \<open>
  The virtual CPU a call of \<open>mini_kvm_add_vcpu\<close> makes: its number, its entry point and its stack.
\<close>

definition fresh_vcpu :: "Kvm \<Rightarrow> VCpu \<Rightarrow> bool" where
  "fresh_vcpu k v \<longleftrightarrow> vcpu_id v = ucast (len (vcpus k)) \<and> 0 \<le> vcpu_fd v \<and> 0 < mem_region_size v
     \<and> kvm_run v \<noteq> MAP_FAILED \<and> vcpu_regs v = boot_regs k BOOTLOADER_ADDR
     \<and> vcpu_thread v = 0 \<and> vcpu_running v = 0"

lemma add_vcpu_cases:
  assumes "vec_grown (vcpus k)" and "vec_size (vcpus k) < vec_limit"
  obtains w' where "mini_kvm_add_vcpu env (Some k) w = Inr (MINI_KVM_FAILED_VCPU_CREATION, Some k, w')"
  | v vs w' where "mini_kvm_add_vcpu env (Some k) w = Inr (MINI_KVM_SUCCESS, Some (k\<lparr>vcpus := vs\<rparr>), w')"
    and "vec_append (vcpus k) v = Inr vs" and "fresh_vcpu k v"
    and "vec_grown vs" and "vec_list vs = vec_list (vcpus k) @ [v]"
proof (cases "\<exists>w'. mini_kvm_add_vcpu env (Some k) w = Inr (MINI_KVM_FAILED_VCPU_CREATION, Some k, w')")
  case True
  with that(1) show thesis by blast
next
  case False
  define id where "id = (ucast (len (vcpus k)) :: u32)"
  define w1 where "w1 = snd (os_call env (Ioctl (vm_fd k) (KVM_CREATE_VCPU id)) w)"
  define fd where "fd = rv (env (trace w) (Ioctl (vm_fd k) (KVM_CREATE_VCPU id)))"
  define sz where "sz = rv (env (trace w1) (Ioctl (kvm_fd k) KVM_GET_VCPU_MMAP_SIZE))"
  define w2 where "w2 = snd (os_call env (Ioctl (kvm_fd k) KVM_GET_VCPU_MMAP_SIZE) w1)"
  define run where "run = (word_of_int (rv (env (trace w2) (Mmap_shared fd sz))) :: u64)"
  define w3 where "w3 = snd (os_call env (Mmap_shared fd sz) w2)"
  define v3 where "v3 = zero_vcpu\<lparr>vcpu_id := id, vcpu_fd := fd, mem_region_size := sz, kvm_run := run\<rparr>"
  obtain e v w4 where v: "mini_kvm_setup_vcpu env k v3 BOOTLOADER_ADDR w3 = (e, v, w4)"
    by (cases "mini_kvm_setup_vcpu env k v3 BOOTLOADER_ADDR w3")
  obtain vs where vs: "vec_append (vcpus k) v = Inr vs" "vec_grown vs"
    "vec_list vs = vec_list (vcpus k) @ [v]"
    using vec_grown_append [OF assms] by blast
  note ds = id_def [symmetric] w1_def [symmetric] fd_def [symmetric] sz_def [symmetric]
    w2_def [symmetric] run_def [symmetric] w3_def [symmetric]
  have ok: "0 \<le> fd" "0 < sz" "run \<noteq> MAP_FAILED" "e = MINI_KVM_SUCCESS"
    and r: "mini_kvm_add_vcpu env (Some k) w = Inr (MINI_KVM_SUCCESS, Some (k\<lparr>vcpus := vs\<rparr>), w4)"
    using False v vs(1)
    by (simp_all add: mini_kvm_add_vcpu_def Let_def split_beta ds v3_def split: if_splits)
  have "fresh_vcpu k v"
    unfolding fresh_vcpu_def
    by (subst (1 2 3 4 5 6 7) setup_vcpu_frame(1) [OF v])
      (use ok in \<open>simp add: v3_def id_def zero_vcpu_def\<close>)
  then show thesis by (rule that(2) [OF r vs(1) _ vs(2,3)])
qed

text \<open>The calls that release one virtual CPU.\<close>

definition vcpu_release :: "VCpu \<Rightarrow> syscall list" where
  "vcpu_release v = (if vcpu_thread v \<noteq> 0 then [Pthread_join (vcpu_thread v)] else [])
     @ [Munmap (kvm_run v) (word_of_int (mem_region_size v)), Close (vcpu_fd v)]"

text \<open>Whether the thread of a CPU, where one was started, is known to return, or not to return.\<close>

definition thread_returns :: "env \<Rightarrow> VCpu \<Rightarrow> bool" where
  "thread_returns env v \<longleftrightarrow> vcpu_thread v = 0 \<or> (\<forall>h. rdata (env h (Pthread_join (vcpu_thread v))) \<noteq> Never)"

definition thread_stays :: "env \<Rightarrow> VCpu \<Rightarrow> bool" where
  "thread_stays env v \<longleftrightarrow> vcpu_thread v \<noteq> 0 \<and> (\<forall>h. rdata (env h (Pthread_join (vcpu_thread v))) = Never)"

lemma clean_vcpu_returns:
  assumes "thread_returns env v"
  obtains w' where "clean_vcpu env v w = Inr w'" and "trace w' = trace w @ vcpu_release v"
proof -
  obtain w1 where "join_vcpu env v w = Inr w1"
    "trace w1 = trace w @ (if vcpu_thread v \<noteq> 0 then [Pthread_join (vcpu_thread v)] else [])"
    using assms by (cases "vcpu_thread v = 0") (simp_all add: join_vcpu_def thread_returns_def Let_def split_beta)
  then show thesis by (intro that) (simp add: clean_vcpu_def Let_def, simp add: vcpu_release_def)
qed

lemma clean_vcpu_cases: "clean_vcpu env v w = Inl Hang \<or> (\<exists>w'. clean_vcpu env v w = Inr w')"
  by (simp add: clean_vcpu_def join_vcpu_def Let_def split_beta)

lemma clean_vcpus_return:
  "\<forall>v \<in> set vs. thread_returns env v \<Longrightarrow>
    \<exists>w'. res_fold (\<lambda>w v. clean_vcpu env v w) w vs = Inr w' \<and> trace w' = trace w @ concat (map vcpu_release vs)"
proof (induction vs arbitrary: w)
  case (Cons v vs)
  obtain w1 where "clean_vcpu env v w = Inr w1" "trace w1 = trace w @ vcpu_release v"
    by (rule clean_vcpu_returns [of env v]) (use Cons.prems in auto)
  with Cons.IH [of w1] Cons.prems show ?case by auto
qed simp

lemma clean_vcpus_hang:
  "\<exists>v \<in> set vs. thread_stays env v \<Longrightarrow> res_fold (\<lambda>w v. clean_vcpu env v w) w vs = Inl Hang"
proof (induction vs arbitrary: w)
  case (Cons v vs)
  show ?case
  proof (cases "thread_stays env v")
    case True
    then show ?thesis by (simp add: clean_vcpu_def join_vcpu_def thread_stays_def Let_def split_beta)
  next
    case False
    with Cons show ?thesis using clean_vcpu_cases [of env v w] by auto
  qed
qed simp

lemma clean_kvm_hangs:
  "vec_ok (vcpus k) \<Longrightarrow> \<exists>v \<in> set (vec_list (vcpus k)). thread_stays env v \<Longrightarrow> mini_kvm_clean_kvm env k w = Inl Hang"
  by (simp add: mini_kvm_clean_kvm_def vec_iterate_res clean_vcpus_hang)

lemma clean_kvm_trace:
  assumes "vec_ok (vcpus k)" and "\<forall>v \<in> set (vec_list (vcpus k)). thread_returns env v"
  obtains w' where "mini_kvm_clean_kvm env k w = Inr w'"
    and "trace w' = trace w @ concat (map vcpu_release (vec_list (vcpus k)))
      @ (if kvm_name k \<noteq> None then [Close (fs_fd k)] else [])
      @ (if mem k \<noteq> 0 then [Munmap (mem k) (mem_size k)] else [])
      @ [Close (kvm_fd k), Close (vm_fd k)]"
proof -
  obtain w1 where "res_fold (\<lambda>w v. clean_vcpu env v w) w (vec_list (vcpus k)) = Inr w1"
    "trace w1 = trace w @ concat (map vcpu_release (vec_list (vcpus k)))"
    using clean_vcpus_return [OF assms(2)] by blast
  then show thesis by (intro that) (auto simp: mini_kvm_clean_kvm_def vec_iterate_res [OF assms(1)] Let_def)
qed

text \<open>An Intel \<open>cpuid\<close>, for the witnesses.\<close>

definition intel_cpuid :: cpuid_insn where
  "intel_cpuid f s = (0xd, 0x756e6547, 0x6c65746e, 0x49656e69)"

lemma add_vcpu_boots:
  assumes "vec_grown (vcpus k)" and "vec_size (vcpus k) < vec_limit" and "boots env"
  shows "\<exists>k' w'. mini_kvm_add_vcpu env (Some k) w = Inr (MINI_KVM_SUCCESS, Some k', w')"
proof (rule add_vcpu_cases [OF assms(1,2), where env = env and w = w])
  fix w' assume "mini_kvm_add_vcpu env (Some k) w = Inr (MINI_KVM_FAILED_VCPU_CREATION, Some k, w')"
  moreover have "\<not> 10 + uint (x :: u32) < 0" for x by (simp add: not_less)
  ultimately show ?thesis
    by (auto simp: mini_kvm_add_vcpu_def mini_kvm_setup_vcpu_def kvm_setup_cpuid_def os_call_boots [OF assms(3)]
        Let_def res_iff split: if_splits)
qed blast

lemma long_mode_sregs_bits:
  fixes sr
  defines "s \<equiv> long_mode_sregs sr"
  shows "bit (sr_cr0 s) 0" "bit (sr_cr0 s) 31" "bit (sr_cr4 s) 5" "bit (sr_efer s) 8" "bit (sr_efer s) 10"
    "seg_l (sr_cs s) = 1" "seg_db (sr_cs s) = 0" "sr_cr3 s = PLM4_ADDR"
  by (simp_all add: s_def long_mode_sregs_def code_seg_def bit_numeral_rec zero_segment_def)

lemma setup_kvm_established:
  assumes "mini_kvm_setup_kvm env cpuid kvm msize w = (MINI_KVM_SUCCESS, k, w')"
  shows "msize \<noteq> 0 \<and> mem_size k = msize \<and> (\<forall>a. guest k a = 0) \<and> mem k \<noteq> MAP_FAILED
    \<and> u_region k = \<lparr>slot = 0, flags = 0, guest_phys_addr = 0, memory_size = msize, userspace_addr = mem k\<rparr>
    \<and> vec_list (vcpus k) = [] \<and> vec_grown (vcpus k) \<and> vm_state k = MINI_KVM_PAUSED \<and> paused k = 0
    \<and> kvm_name k = kvm_name kvm \<and> 0 \<le> kvm_fd k \<and> 0 \<le> vm_fd k
    \<and> trace w' = trace w @ setup_calls cpuid (kvm_fd k) (vm_fd k) (u_region k)"
proof -
  obtain k2 w5 where a: "setup_memory env k2 msize w5 = (MINI_KVM_SUCCESS, k, w')"
    and b: "k2 = kvm\<lparr>vcpus := vec_new, vm_state := MINI_KVM_PAUSED, paused := 0, pause_lock := False,
      kvm_fd := kvm_fd k2, vm_fd := vm_fd k2\<rparr>" and c: "0 \<le> kvm_fd k2" "0 \<le> vm_fd k2"
    and d: "trace w5 = trace w
      @ [Open ''/dev/kvm'' O_RDWR, Ioctl (kvm_fd k2) KVM_GET_API_VERSION, Ioctl (kvm_fd k2) KVM_CREATE_VM]
      @ map (\<lambda>c. Ioctl (kvm_fd k2) (KVM_CHECK_EXTENSION c)) MINI_KVM_CAPS
      @ (if check_cpu_vendor cpuid GenuineIntel
         then [Ioctl (kvm_fd k2) (KVM_SET_TSS_ADDR TSS_ADDR),
               Ioctl (kvm_fd k2) (KVM_SET_IDENTITY_MAP_ADDR IDENTITY_MAP_ADDR)] else [])"
    by (rule setup_kvm_reaches_memory [OF assms])
  note m = setup_memory_success [OF a]
  have g: "vcpus k2 = vec_new" "vm_state k2 = MINI_KVM_PAUSED" "paused k2 = 0" "kvm_name k2 = kvm_name kvm"
    by (subst b, simp)+
  have f: "vm_fd k = vm_fd k2" "kvm_fd k = kvm_fd k2" "mem_size k = msize" "guest k = (\<lambda>_. 0)"
    "vcpus k = vcpus k2" "vm_state k = vm_state k2" "paused k = paused k2" "kvm_name k = kvm_name k2"
    "u_region k = \<lparr>slot = 0, flags = 0, guest_phys_addr = 0, memory_size = msize, userspace_addr = mem k\<rparr>"
    by (subst m(3), simp)+
  show ?thesis using m(1,2,4) c d by (simp add: f g setup_calls_def vec_grown_new)
qed

lemma setup_kvm_unlocked:
  assumes "mini_kvm_setup_kvm env cpuid kvm msize w = (MINI_KVM_SUCCESS, k, w')"
  shows "\<not> pause_lock k"
proof -
  obtain k2 w5 where a: "setup_memory env k2 msize w5 = (MINI_KVM_SUCCESS, k, w')"
    and b: "k2 = kvm\<lparr>vcpus := vec_new, vm_state := MINI_KVM_PAUSED, paused := 0, pause_lock := False,
      kvm_fd := kvm_fd k2, vm_fd := vm_fd k2\<rparr>"
    by (rule setup_kvm_reaches_memory [OF assms])
  have "\<not> pause_lock k2" by (subst b, simp)
  moreover have "pause_lock k = pause_lock k2" by (subst setup_memory_success(3) [OF a], simp)
  ultimately show ?thesis by simp
qed

section \<open>Properties\<close>

text \<open>C21. A successful \<open>mini_kvm_setup_kvm\<close> leaves a paused machine with no CPU whose whole memory,
  zero-filled, of the requested size (which is not 0), is the region registered with KVM at guest
  address 0; it has made exactly the calls of a setup, in that order, the TSS and identity map
  calls only on an Intel CPU.\<close>

theorem setup_kvm_success:
  assumes "mini_kvm_setup_kvm env cpuid kvm msize w = (MINI_KVM_SUCCESS, k, w')"
  shows "msize \<noteq> 0 \<and> mem_size k = msize \<and> (\<forall>a. guest k a = 0) \<and> mem k \<noteq> MAP_FAILED
    \<and> u_region k = \<lparr>slot = 0, flags = 0, guest_phys_addr = 0, memory_size = msize, userspace_addr = mem k\<rparr>
    \<and> vec_list (vcpus k) = [] \<and> vec_grown (vcpus k) \<and> vm_state k = MINI_KVM_PAUSED \<and> paused k = 0
    \<and> kvm_name k = kvm_name kvm \<and> 0 \<le> kvm_fd k \<and> 0 \<le> vm_fd k
    \<and> trace w' = trace w @ setup_calls cpuid (kvm_fd k) (vm_fd k) (u_region k)"
  by (rule setup_kvm_established [OF assms])

theorem setup_kvm_success_witness:
  "\<exists>k w'. mini_kvm_setup_kvm linux_ok intel_cpuid zero_kvm 0x5000 fresh_world = (MINI_KVM_SUCCESS, k, w')
     \<and> mem_size k = 0x5000 \<and> length (trace w') = 12"
proof -
  obtain k w' where r: "mini_kvm_setup_kvm linux_ok intel_cpuid zero_kvm 0x5000 fresh_world
      = (MINI_KVM_SUCCESS, k, w')"
    by (simp add: mini_kvm_setup_kvm_def setup_memory_def kvm_setup_irq_def setup_intel_def
        MINI_KVM_CAPS_def os_call_linux_ok Let_def split_beta)
  have i: "check_cpu_vendor intel_cpuid GenuineIntel"
    by code_simp
  show ?thesis
    using setup_kvm_success [OF r] r i by (simp add: fresh_world_def setup_calls_def MINI_KVM_CAPS_def)
qed

text \<open>The interrupt controller: when system calls report failure by -1, as documented,
  \<open>kvm_setup_irq\<close> reports success whatever its two calls answered, so that
  \<open>mini_kvm_setup_kvm\<close> succeeds without an interrupt controller.\<close>

theorem setup_irq_ignores_failure:
  assumes "fails_with_minus_one env"
  shows "\<exists>w'. kvm_setup_irq env kvm w = (MINI_KVM_SUCCESS, w')
    \<and> trace w' = trace w @ [Ioctl (vm_fd kvm) KVM_CREATE_IRQCHIP, Ioctl (vm_fd kvm) KVM_CREATE_PIT2]"
  using assms by (simp add: kvm_setup_irq_def fails_with_minus_one_def not_less os_steps)

text \<open>The host of the witness: every call fails.\<close>

definition linux_fail :: env where
  "linux_fail h c = \<lparr>rv = -1, rerr = EINVAL, rdata = No_data\<rparr>"

text \<open>\<open>mini_kvm_add_vcpu\<close> on a machine whose vector of CPUs is well-formed never faults. Either it
  fails and the machine is as before, or one CPU is added at the end: its number is the number of
  CPUs before, it starts at \<open>BOOTLOADER_ADDR\<close> with its stack at the last byte of memory, its run
  area is mapped, no thread runs it, and nothing else of the machine has changed.\<close>

theorem add_vcpu_appends:
  assumes "vec_grown (vcpus k)" and "vec_size (vcpus k) < 2 ^ 32"
  shows "\<exists>e k' w'. mini_kvm_add_vcpu env (Some k) w = Inr (e, Some k', w') \<and>
    (e = MINI_KVM_FAILED_VCPU_CREATION \<and> k' = k \<or>
     e = MINI_KVM_SUCCESS \<and> k'\<lparr>vcpus := vcpus k\<rparr> = k \<and> vec_grown (vcpus k') \<and>
     (\<exists>v. vec_list (vcpus k') = vec_list (vcpus k) @ [v] \<and> unat (vcpu_id v) = vec_size (vcpus k)
       \<and> rip (vcpu_regs v) = BOOTLOADER_ADDR \<and> rsp (vcpu_regs v) = mem_size k - 1
       \<and> rbp (vcpu_regs v) = mem_size k - 1 \<and> 0 \<le> vcpu_fd v \<and> kvm_run v \<noteq> MAP_FAILED
       \<and> vcpu_thread v = 0))"
proof -
  from assms(2) have lim: "vec_size (vcpus k) < vec_limit" by (simp add: vec_limit_def)
  show ?thesis
  proof (rule add_vcpu_cases [OF assms(1) lim, where env = env and w = w])
    fix w' assume "mini_kvm_add_vcpu env (Some k) w = Inr (MINI_KVM_FAILED_VCPU_CREATION, Some k, w')"
    then show ?thesis by simp
  next
    fix v vs w'
    assume r: "mini_kvm_add_vcpu env (Some k) w = Inr (MINI_KVM_SUCCESS, Some (k\<lparr>vcpus := vs\<rparr>), w')"
      and v: "fresh_vcpu k v" and vs: "vec_grown vs" "vec_list vs = vec_list (vcpus k) @ [v]"
    have "unat (vcpu_id v) = vec_size (vcpus k)"
      using v assms(2) by (simp add: fresh_vcpu_def vec_size_def unat_ucast_u32)
    with r v vs show ?thesis by (simp add: fresh_vcpu_def boot_regs_def)
  qed
qed

theorem add_vcpu_appends_witness:
  "\<exists>k' w' v. mini_kvm_add_vcpu linux_ok (Some small_vm) fresh_world = Inr (MINI_KVM_SUCCESS, Some k', w')
     \<and> vec_list (vcpus k') = [v] \<and> vcpu_id v = 0 \<and> rip (vcpu_regs v) = 0x4000 \<and> rsp (vcpu_regs v) = 0x4fff"
proof -
  have g: "vec_grown (vcpus small_vm)" and n: "vec_size (vcpus small_vm) < 2 ^ 32"
    and l: "vec_list (vcpus small_vm) = []"
    by (simp_all add: small_vm_def zero_kvm_def vec_grown_new) (simp add: vec_size_def vec_new_def)
  then have lim: "vec_size (vcpus small_vm) < vec_limit" by (simp add: vec_limit_def)
  show ?thesis
    using add_vcpu_appends [OF g n, of linux_ok fresh_world] add_vcpu_boots [OF g lim boots_linux_ok, of fresh_world] l
    by (force simp: small_vm_def zero_kvm_def vec_size_def vec_new_def unat_eq_zero)
qed

text \<open>\<open>mini_kvm_configure_paging\<close> with enough memory and at least one CPU: it never faults, and on
  success the first CPU, and it alone, is in 64-bit mode (protection, paging and PAE on, long mode
  enabled and active, a 64-bit code segment) with a \<open>cr3\<close> from which the hardware walk maps the
  first two megabytes to themselves; KVM was given exactly these registers.\<close>

theorem configure_paging_long_mode:
  assumes "vec_grown (vcpus kvm)" and "0 < vec_size (vcpus kvm)" and "mem kvm \<noteq> 0"
    and "0x5000 \<le> sint (mem_size kvm)"
  shows "\<exists>e k w'. mini_kvm_configure_paging env kvm w = Inr (e, k, w') \<and> e \<in> {MINI_KVM_SUCCESS, MINI_KVM_FAILED_IOCTL}
    \<and> tl (vec_list (vcpus k)) = tl (vec_list (vcpus kvm))
    \<and> (let v = hd (vec_list (vcpus k)); sr = vcpu_sregs v in
         bit (sr_cr0 sr) 0 \<and> bit (sr_cr0 sr) 31 \<and> bit (sr_cr4 sr) 5 \<and> bit (sr_efer sr) 8 \<and> bit (sr_efer sr) 10
         \<and> seg_l (sr_cs sr) = 1 \<and> seg_db (sr_cs sr) = 0
         \<and> (\<forall>va. unat va < 0x200000 \<longrightarrow> page_walk (load64 (guest k)) (sr_cr3 sr) va = Some va)
         \<and> trace w' = trace w @ [Ioctl (vcpu_fd v) (KVM_SET_SREGS sr)])"
proof -
  let ?k1 = "kvm\<lparr>guest := boot_tables (guest kvm)\<rparr>"
  let ?v = "vec_list (vcpus kvm) ! 0"
  let ?v1 = "?v\<lparr>vcpu_sregs := long_mode_sregs (vcpu_sregs ?v)\<rparr>"
  have p: "kvm_setup_pages kvm = Inr (MINI_KVM_SUCCESS, ?k1)"
    using assms(3,4) by (simp add: setup_pages_eq)
  have g: "vec_get (vcpus kvm) 0 = Inr ?v"
    using cvec.get_law [OF assms(1,2)] .
  obtain vs where vs: "vec_put (vcpus kvm) 0 ?v1 = Inr vs" "vec_grown vs"
    "vec_list vs = (vec_list (vcpus kvm))[0 := ?v1]"
    using cvec.put_law [OF assms(1,2)] by blast
  have ne: "vec_list (vcpus kvm) \<noteq> []"
    using assms(1,2) cvec.size_elems [OF assms(1)] by auto
  have walk: "page_walk (load64 (boot_tables (guest kvm))) PLM4_ADDR va = Some va"
    if "unat va < 0x200000" for va
    using walk_boot_tables [of "boot_tables (guest kvm)" "guest kvm" va] that by simp
  have vs': "vec_list vs = ?v1 # tl (vec_list (vcpus kvm))"
    using ne vs(3) by (cases "vec_list (vcpus kvm)") simp_all
  show ?thesis
    using walk long_mode_sregs_bits [of "vcpu_sregs ?v"]
    by (simp add: mini_kvm_configure_paging_def p g vs(1) vs' os_steps)
qed

theorem configure_paging_long_mode_witness:
  "\<exists>kvm k w'. mini_kvm_configure_paging linux_ok kvm fresh_world = Inr (MINI_KVM_SUCCESS, k, w')
     \<and> page_walk (load64 (guest k)) (sr_cr3 (vcpu_sregs (hd (vec_list (vcpus k))))) 0x4000 = Some 0x4000"
proof -
  let ?kvm = "small_vm\<lparr>vcpus := vec_new\<lparr>tab := [Some zero_vcpu, None], len := 1, capacity := 2\<rparr>\<rparr>"
  have a: "vec_grown (vcpus ?kvm)" "0 < vec_size (vcpus ?kvm)" "mem ?kvm \<noteq> 0"
    "0x5000 \<le> sint (mem_size ?kvm)"
    by (simp_all add: small_vm_def vec_grown_def vec_ok_def vec_size_def)
  have "mini_kvm_configure_paging linux_ok ?kvm fresh_world \<noteq> Inr (MINI_KVM_FAILED_IOCTL, k, w')" for k w'
    by (auto simp: mini_kvm_configure_paging_def setup_pages_eq os_call_linux_ok Let_def res_iff
        split: if_splits)
  moreover obtain e k w' where "mini_kvm_configure_paging linux_ok ?kvm fresh_world = Inr (e, k, w')"
    "e \<in> {MINI_KVM_SUCCESS, MINI_KVM_FAILED_IOCTL}"
    "page_walk (load64 (guest k)) (sr_cr3 (vcpu_sregs (hd (vec_list (vcpus k))))) 0x4000 = Some 0x4000"
    using configure_paging_long_mode [OF a, of linux_ok fresh_world] by (auto simp: Let_def)
  ultimately show ?thesis by blast
qed

text \<open>C22. \<open>mini_kvm_clean_kvm\<close> on a machine whose vector of CPUs is well-formed and whose CPU threads
  all return makes exactly these calls, in this order: for every CPU the join of its thread (if one was
  started), the unmapping of its run area and the closing of its descriptor; the closing of the
  directory of a named machine; the unmapping of the guest memory; and the closing of the two
  descriptors of KVM. The listening socket \<open>sock\<close> is not closed. If the thread of some CPU never
  returns, the function never returns.\<close>

theorem clean_kvm_releases:
  assumes "vec_ok (vcpus k)"
  shows "((\<forall>v \<in> set (vec_list (vcpus k)). vcpu_thread v \<noteq> 0 \<longrightarrow> (\<forall>h. rdata (env h (Pthread_join (vcpu_thread v))) \<noteq> Never)) \<longrightarrow>
      (\<exists>w'. mini_kvm_clean_kvm env k w = Inr w'
        \<and> trace w' = trace w
          @ concat (map (\<lambda>v. (if vcpu_thread v \<noteq> 0 then [Pthread_join (vcpu_thread v)] else [])
              @ [Munmap (kvm_run v) (word_of_int (mem_region_size v)), Close (vcpu_fd v)]) (vec_list (vcpus k)))
          @ (if kvm_name k \<noteq> None then [Close (fs_fd k)] else [])
          @ (if mem k \<noteq> 0 then [Munmap (mem k) (mem_size k)] else [])
          @ [Close (kvm_fd k), Close (vm_fd k)]))
    \<and> ((\<exists>v \<in> set (vec_list (vcpus k)). vcpu_thread v \<noteq> 0 \<and> (\<forall>h. rdata (env h (Pthread_join (vcpu_thread v))) = Never)) \<longrightarrow>
      mini_kvm_clean_kvm env k w = Inl Hang)"
proof (intro conjI impI)
  assume "\<forall>v \<in> set (vec_list (vcpus k)). vcpu_thread v \<noteq> 0 \<longrightarrow> (\<forall>h. rdata (env h (Pthread_join (vcpu_thread v))) \<noteq> Never)"
  then have "\<forall>v \<in> set (vec_list (vcpus k)). thread_returns env v" by (auto simp: thread_returns_def)
  from clean_kvm_trace [OF assms this, of w] show "\<exists>w'. mini_kvm_clean_kvm env k w = Inr w'
        \<and> trace w' = trace w
          @ concat (map (\<lambda>v. (if vcpu_thread v \<noteq> 0 then [Pthread_join (vcpu_thread v)] else [])
              @ [Munmap (kvm_run v) (word_of_int (mem_region_size v)), Close (vcpu_fd v)]) (vec_list (vcpus k)))
          @ (if kvm_name k \<noteq> None then [Close (fs_fd k)] else [])
          @ (if mem k \<noteq> 0 then [Munmap (mem k) (mem_size k)] else [])
          @ [Close (kvm_fd k), Close (vm_fd k)]"
    unfolding vcpu_release_def by blast
next
  assume "\<exists>v \<in> set (vec_list (vcpus k)). vcpu_thread v \<noteq> 0 \<and> (\<forall>h. rdata (env h (Pthread_join (vcpu_thread v))) = Never)"
  then show "mini_kvm_clean_kvm env k w = Inl Hang"
    by (intro clean_kvm_hangs [OF assms]) (simp add: thread_stays_def)
qed

text \<open>A machine with one started CPU, and a host on which its thread never returns, for the witness.\<close>

definition one_cpu_vm :: Kvm where
  "one_cpu_vm = small_vm\<lparr>kvm_fd := 3, vm_fd := 4,
     vcpus := \<lparr>tab = [Some (zero_vcpu\<lparr>vcpu_fd := 10, vcpu_thread := 101\<rparr>), None], len = 1, capacity = 2\<rparr>\<rparr>"

definition hanging_host :: env where
  "hanging_host h c = (case c of Pthread_join t \<Rightarrow> \<lparr>rv = 0, rerr = 0, rdata = Never\<rparr> | _ \<Rightarrow> linux_ok h c)"

theorem clean_kvm_releases_witness:
  "(\<exists>w'. mini_kvm_clean_kvm linux_ok one_cpu_vm fresh_world = Inr w'
     \<and> trace w' = [Pthread_join 101, Munmap 0 0, Close 10, Munmap 0x7f0000000000 0x5000, Close 3, Close 4])
   \<and> mini_kvm_clean_kvm hanging_host one_cpu_vm fresh_world = Inl Hang"
proof -
  have ok: "vec_ok (vcpus one_cpu_vm)" and l: "vec_list (vcpus one_cpu_vm) = [zero_vcpu\<lparr>vcpu_fd := 10, vcpu_thread := 101\<rparr>]"
    by (simp_all add: one_cpu_vm_def vec_ok_def vec_list_def vec_size_def)
  have j: "rdata (linux_ok h (Pthread_join t)) \<noteq> Never" "rdata (hanging_host h (Pthread_join t)) = Never" for h t
    by (simp_all add: linux_ok_def hanging_host_def)
  show ?thesis
    using clean_kvm_releases [OF ok, of linux_ok fresh_world] clean_kvm_releases [OF ok, of hanging_host fresh_world]
    by (simp add: l j) (simp add: one_cpu_vm_def small_vm_def zero_kvm_def zero_vcpu_def fresh_world_def)
qed

end
