(* ===== verification/Control.thy ===== *)
theory Control imports Dump Os begin

text \<open>
  The server's side of the control commands: \<open>mini_kvm_send_sig\<close>, \<open>mini_kvm_pause_vm\<close>,
  \<open>mini_kvm_resume_vm\<close>, \<open>mini_kvm_vcpu_run\<close>, \<open>mini_kvm_start_vm\<close> and \<open>mini_kvm_handle_io\<close>
  (\<open>src/kvm/kvm.c\<close>), and the handlers of \<open>src/commands/status.c\<close> with
  \<open>mini_kvm_status_handle_command\<close>. A handler runs without interference here: no CPU thread moves while
  the main thread handles commands, so that \<open>state\<close>, \<open>paused\<close> and \<open>pause_lock\<close> keep what the last
  handler left there. What the program does besides, such as the release of \<open>pause_lock\<close> by a CPU
  thread that enters \<open>pthread_cond_wait\<close>, is in \<open>Vcpu_Threads\<close>, and \<open>Machine_Run\<close> shows that what is
  here are its schedules of the main thread alone: a \<open>Hang\<close> of this theory is one of such a schedule.
  The text of a memory dump is one write to the descriptor it
  goes to.
\<close>

section \<open>Signals and the pause lock\<close>

definition SIGVMPAUSE :: int where [simp]: "SIGVMPAUSE = 34"
definition SIGVMRESUME :: int where [simp]: "SIGVMRESUME = 35"
definition SIGVMSHUTDOWN :: int where [simp]: "SIGVMSHUTDOWN = 36"

definition mini_kvm_send_sig :: "env \<Rightarrow> Kvm \<Rightarrow> int \<Rightarrow> world \<Rightarrow> world res" where
  "mini_kvm_send_sig env kvm signum w =
     res_fold (\<lambda>w i. res_bind (vec_get (vcpus kvm) i)
         (\<lambda>v. Inr (snd (os_call env (Pthread_kill (vcpu_thread v) signum) w)))) w
       [0..<vec_size (vcpus kvm)]"

definition mini_kvm_pause_vm :: "Kvm \<Rightarrow> Kvm res" where
  "mini_kvm_pause_vm kvm = (if pause_lock kvm then Inl Hang else Inr (kvm\<lparr>pause_lock := True, paused := 1\<rparr>))"

text \<open>The signal to \<open>pause_cond\<close> only concerns the threads that wait for it.\<close>

definition mini_kvm_resume_vm :: "Kvm \<Rightarrow> Kvm" where
  "mini_kvm_resume_vm kvm = kvm\<lparr>paused := 0, pause_lock := False\<rparr>"

section \<open>Starting the machine\<close>

definition mini_kvm_vcpu_run :: "env \<Rightarrow> Kvm \<Rightarrow> nat \<Rightarrow> world \<Rightarrow> (MiniKVMError \<times> Kvm \<times> world) res" where
  "mini_kvm_vcpu_run env kvm i w =
     res_bind (vec_get (vcpus kvm) i) (\<lambda>vcpu.
       let (r, w1) = os_call env (Pthread_create i) w in
       if rv r \<noteq> 0 then Inr (MINI_KVM_FAILED_RUN, kvm, w1)
       else let t = (case rdata r of Thread t \<Rightarrow> t | _ \<Rightarrow> vcpu_thread vcpu) in
       res_bind (vec_put (vcpus kvm) i (vcpu\<lparr>vcpu_thread := t\<rparr>))
         (\<lambda>vs. Inr (MINI_KVM_SUCCESS, kvm\<lparr>vcpus := vs\<rparr>, w1)))"

fun start_vcpus :: "env \<Rightarrow> Kvm \<Rightarrow> nat list \<Rightarrow> world \<Rightarrow> (MiniKVMError \<times> Kvm \<times> world) res" where
  "start_vcpus env kvm [] w = Inr (MINI_KVM_SUCCESS, kvm, w)"
| "start_vcpus env kvm (i # is) w =
     res_bind (mini_kvm_vcpu_run env kvm i w) (\<lambda>(ret, k1, w1).
       if ret \<noteq> MINI_KVM_SUCCESS then Inr (ret, k1, w1) else start_vcpus env k1 is w1)"

definition mini_kvm_start_vm :: "env \<Rightarrow> Kvm option \<Rightarrow> world \<Rightarrow> (MiniKVMError \<times> Kvm option \<times> world) res" where
  "mini_kvm_start_vm env kvm w =
     (case kvm of None \<Rightarrow> Inr (MINI_KVM_INTERNAL_ERROR, None, w)
      | Some k \<Rightarrow>
        if len (vcpus k) = 0 then Inr (MINI_KVM_INTERNAL_ERROR, kvm, w)
        else res_bind (start_vcpus env k [0..<vec_size (vcpus k)] w) (\<lambda>(ret, k1, w1).
          Inr (ret, Some (k1\<lparr>vm_state := MINI_KVM_RUNNING\<rparr>), w1)))"

section \<open>Port output\<close>

text \<open>
  \<open>kvm_run->io\<close>: the guest moves \<open>count\<close> times \<open>size\<close> bytes, which lie at \<open>data_offset\<close>. The
  handler reads neither \<open>size\<close> nor \<open>count\<close>: it writes the first byte.
\<close>

record io_exit =
  io_out :: bool          \<comment> \<open>whether \<open>direction\<close> is \<open>KVM_EXIT_IO_OUT\<close>\<close>
  io_size :: u8
  io_port :: u16
  io_count :: u32
  io_byte :: u8           \<comment> \<open>the byte at \<open>data_offset\<close>\<close>
  io_more :: "u8 list"    \<comment> \<open>the bytes that follow it\<close>

definition io_data :: "io_exit \<Rightarrow> u8 list" where
  "io_data io = take (unat (io_size io) * unat (io_count io)) (io_byte io # io_more io)"

definition mini_kvm_handle_io :: "env \<Rightarrow> io_exit \<Rightarrow> world \<Rightarrow> MiniKVMError \<times> world" where
  "mini_kvm_handle_io env io w =
     (if io_out io then
        (if io_port io = 0x3f8 then (MINI_KVM_SUCCESS, snd (os_call env (Write 1 [io_byte io]) w))
         else (MINI_KVM_INTERNAL_ERROR, w))
      else (MINI_KVM_SUCCESS, w))"

section \<open>Command handlers\<close>

type_synonym handler =
  "env \<Rightarrow> Kvm \<Rightarrow> MiniKvmStatusCommand \<Rightarrow> MiniKvmStatusResult \<Rightarrow> world
     \<Rightarrow> (MiniKVMError \<times> Kvm \<times> MiniKvmStatusResult \<times> world) res"

definition status_handle_none :: handler where
  "status_handle_none env kvm cmd res w = Inr (MINI_KVM_SUCCESS, kvm, res, w)"

definition status_handle_cmd_state :: handler where
  "status_handle_cmd_state env kvm cmd res w =
     Inr (MINI_KVM_SUCCESS, kvm, res\<lparr>res_state := vm_state kvm\<rparr>, w)"

definition status_handle_pause :: handler where
  "status_handle_pause env kvm cmd res w =
     (let k1 = kvm\<lparr>vm_state := MINI_KVM_PAUSED\<rparr> in
      res_bind (mini_kvm_send_sig env k1 SIGVMPAUSE w) (\<lambda>w1.
      res_bind (mini_kvm_pause_vm k1) (\<lambda>k2. Inr (MINI_KVM_SUCCESS, k2, res, w1))))"

definition status_handle_resume :: handler where
  "status_handle_resume env kvm cmd res w =
     (let k1 = kvm\<lparr>vm_state := MINI_KVM_RUNNING\<rparr> in
      res_bind (mini_kvm_send_sig env k1 SIGVMRESUME w) (\<lambda>w1.
      Inr (MINI_KVM_SUCCESS, mini_kvm_resume_vm k1, res, w1)))"

definition status_handle_shutdown :: handler where
  "status_handle_shutdown env kvm cmd res w =
     (let k1 = kvm\<lparr>vm_state := MINI_KVM_SHUTDOWN\<rparr> in
      res_bind (mini_kvm_send_sig env k1 SIGVMSHUTDOWN w) (\<lambda>w1.
      Inr (MINI_KVM_SUCCESS, (if paused k1 \<noteq> 0 then mini_kvm_resume_vm k1 else k1), res, w1)))"

text \<open>
  Both ioctls store through \<open>&res->regs\<close> and \<open>&res->sregs\<close>, which is the first element of each array
  whatever the index.
\<close>

fun regs_loop ::
  "env \<Rightarrow> Kvm \<Rightarrow> u64 \<Rightarrow> nat list \<Rightarrow> MiniKvmStatusResult \<Rightarrow> world \<Rightarrow> (MiniKVMError \<times> MiniKvmStatusResult \<times> world) res" where
  "regs_loop env kvm sel [] res w = Inr (MINI_KVM_SUCCESS, res, w)"
| "regs_loop env kvm sel (i # is) res w =
     (if 64 \<le> i then Inl BadShift
      else if \<not> bit sel i then regs_loop env kvm sel is res w
      else res_bind (vec_get (vcpus kvm) i) (\<lambda>vcpu.
        let (r1, w1) = os_call env (Ioctl (vcpu_fd vcpu) KVM_GET_REGS) w in
        if rv r1 \<noteq> 0 then Inr (MINI_KVM_INTERNAL_ERROR, res, w1)
        else let res1 = (case rdata r1 of Regs x \<Rightarrow> res\<lparr>res_regs := (res_regs res)[0 := x]\<rparr> | _ \<Rightarrow> res);
                 (r2, w2) = os_call env (Ioctl (vcpu_fd vcpu) KVM_GET_SREGS) w1 in
        if rv r2 \<noteq> 0 then Inr (MINI_KVM_INTERNAL_ERROR, res1, w2)
        else regs_loop env kvm sel is
               (case rdata r2 of Sregs x \<Rightarrow> res1\<lparr>res_sregs := (res_sregs res1)[0 := x]\<rparr> | _ \<Rightarrow> res1) w2))"

definition status_handle_regs :: handler where
  "status_handle_regs env kvm cmd res w =
     (if vm_state kvm \<noteq> MINI_KVM_PAUSED then Inr (MINI_KVM_STATUS_CMD_VM_NOT_PAUSED, kvm, res, w)
      else res_bind (regs_loop env kvm (cmd_vcpus cmd) [0..<vec_size (vcpus kvm)] res w)
        (\<lambda>(ret, res', w'). Inr (ret, kvm, res', w')))"

definition string_bytes :: "string \<Rightarrow> u8 list" where
  "string_bytes s = map (\<lambda>c. word_of_nat (of_char c)) s"

definition status_handle_dump_mem :: handler where
  "status_handle_dump_mem env kvm cmd res w =
     (if vm_state kvm \<noteq> MINI_KVM_PAUSED then Inr (MINI_KVM_STATUS_CMD_VM_NOT_PAUSED, kvm, res, w)
      else let (r, w1) = os_call env (Open (''/proc/'' @ int_string (cmd_pid cmd) @ ''/fd/1'') O_RDWR) w;
               range = cmd_mem_range cmd in
      if rv r \<noteq> -1 then
        (case mini_kvm_dump_mem kvm (range ! 0) (if range ! 1 = -1 then mem_size kvm else range ! 1)
                (ucast (range ! 2)) (ucast (range ! 3)) of
           None \<Rightarrow> Inl Hang
         | Some out \<Rightarrow> res_bind out (\<lambda>text.
             let w2 = snd (os_call env (Write (rv r) (string_bytes text)) w1);
                 w3 = snd (os_call env (Close (rv r)) w2)
             in Inr (MINI_KVM_SUCCESS, kvm, res, w3)))
      else Inr (MINI_KVM_INTERNAL_ERROR, kvm, res, w1))"

text \<open>The table of handlers; the number of commands itself is one past its end.\<close>

fun handlers :: "MiniKvmStatusCommandType \<Rightarrow> handler option" where
  "handlers MINI_KVM_COMMAND_NONE = Some status_handle_none"
| "handlers MINI_KVM_COMMAND_PAUSE = Some status_handle_pause"
| "handlers MINI_KVM_COMMAND_RESUME = Some status_handle_resume"
| "handlers MINI_KVM_COMMAND_SHUTDOWN = Some status_handle_shutdown"
| "handlers MINI_KVM_COMMAND_SHOW_STATE = Some status_handle_cmd_state"
| "handlers MINI_KVM_COMMAND_SHOW_REGS = Some status_handle_regs"
| "handlers MINI_KVM_COMMAND_DUMP_MEM = Some status_handle_dump_mem"
| "handlers MINI_KVM_COMMAND_COUNT = None"

definition mini_kvm_status_handle_command :: handler where
  "mini_kvm_status_handle_command env kvm cmd res w =
     (case handlers (cmd_type cmd) of None \<Rightarrow> Inl OutOfBounds
      | Some h \<Rightarrow> res_bind (h env kvm cmd res w) (\<lambda>(ret, k', res', w').
          Inr (ret, k', res'\<lparr>res_cmd_type := cmd_type cmd, res_vcpus := cmd_vcpus cmd, res_error := ret\<rparr>, w')))"

section \<open>Specification\<close>

text \<open>What a command does to the state of the machine.\<close>

fun vm_next :: "MiniKvmStatusCommandType \<Rightarrow> VMState \<Rightarrow> VMState" where
  "vm_next MINI_KVM_COMMAND_PAUSE s = MINI_KVM_PAUSED"
| "vm_next MINI_KVM_COMMAND_RESUME s = MINI_KVM_RUNNING"
| "vm_next MINI_KVM_COMMAND_SHUTDOWN s = MINI_KVM_SHUTDOWN"
| "vm_next _ s = s"

text \<open>The lock is held exactly while the machine is paused by a command.\<close>

definition lock_ok :: "Kvm \<Rightarrow> bool" where
  "lock_ok k \<longleftrightarrow> (pause_lock k \<longleftrightarrow> paused k \<noteq> 0)"

section \<open>Lemmas\<close>

lemma fold_os_call_trace:
  "trace (fold (\<lambda>v w. snd (os_call env (c v) w)) vs w) = trace w @ map c vs"
  by (induction vs arbitrary: w) simp_all

lemma send_sig_ok:
  assumes "vec_ok (vcpus kvm)"
  obtains w' where "mini_kvm_send_sig env kvm s w = Inr w'"
    and "trace w' = trace w @ map (\<lambda>v. Pthread_kill (vcpu_thread v) s) (vec_list (vcpus kvm))"
  using that by (simp add: mini_kvm_send_sig_def vec_iterate [OF assms]
      fold_os_call_trace [of env "\<lambda>v. Pthread_kill (vcpu_thread v) s"])

lemmas simple_handlers = status_handle_none_def status_handle_cmd_state_def status_handle_pause_def
  status_handle_resume_def status_handle_shutdown_def mini_kvm_pause_vm_def mini_kvm_resume_vm_def

lemma tl_update_0 [simp]: "tl (xs[0 := x]) = tl xs"
  by (cases xs) simp_all

lemma regs_loop_frame:
  "regs_loop env kvm sel is res w = Inr (ret, res', w') \<Longrightarrow>
    tl (res_regs res') = tl (res_regs res) \<and> tl (res_sregs res') = tl (res_sregs res)
      \<and> (ret = MINI_KVM_SUCCESS \<or> ret = MINI_KVM_INTERNAL_ERROR)"
proof (induction "is" arbitrary: res w)
  case Nil
  then show ?case by simp
next
  case (Cons i "is")
  show ?case
    using Cons.prems
    by (auto simp: res_iff Let_def split_beta split: if_splits payload.splits dest!: Cons.IH)
qed

lemma regs_loop_total:
  assumes "vec_ok (vcpus kvm)" and "\<And>i. i \<in> set is \<Longrightarrow> i < vec_size (vcpus kvm) \<and> i < 64"
  shows "\<exists>r. regs_loop env kvm sel is res w = Inr r"
  using assms(2)
proof (induction "is" arbitrary: res w)
  case Nil
  show ?case by simp
next
  case (Cons i "is")
  then have "vec_get (vcpus kvm) i = Inr (vec_list (vcpus kvm) ! i)" "\<not> 64 \<le> i"
    using vec_get_nth [OF assms(1), of i] by (auto simp: not_le)
  with Cons show ?case by (simp add: Let_def split_beta)
qed

lemma handle_regs_frame:
  "status_handle_regs env kvm cmd res w = Inr (ret, k', res', w') \<Longrightarrow> k' = kvm"
  by (auto simp: status_handle_regs_def res_iff split: if_splits)

lemma handle_dump_frame:
  "status_handle_dump_mem env kvm cmd res w = Inr (ret, k', res', w') \<Longrightarrow> k' = kvm \<and> res' = res"
  by (auto simp: status_handle_dump_mem_def res_iff Let_def split_beta split: if_splits option.splits)

text \<open>What the handlers may change of the machine, and that they keep the lock consistent.\<close>

lemma handler_frame:
  assumes "handlers t = Some h" and "h env kvm cmd res w = Inr (ret, k', res', w')"
  shows "k' = kvm\<lparr>vm_state := vm_next t (vm_state kvm), paused := paused k', pause_lock := pause_lock k'\<rparr>"
    and "lock_ok kvm \<Longrightarrow> lock_ok k'"
  using assms
  by (cases t; auto simp: simple_handlers Let_def res_iff lock_ok_def dest!: handle_regs_frame handle_dump_frame
      split: if_splits)+

lemma handle_command_cases:
  assumes "mini_kvm_status_handle_command env kvm cmd res w = Inr (ret, k', res', w')"
  obtains h res1 where "handlers (cmd_type cmd) = Some h" and "h env kvm cmd res w = Inr (ret, k', res1, w')"
    and "res' = res1\<lparr>res_cmd_type := cmd_type cmd, res_vcpus := cmd_vcpus cmd, res_error := ret\<rparr>"
  using assms by (auto simp: mini_kvm_status_handle_command_def res_iff split: option.splits)

text \<open>Starting the threads one after the other.\<close>

lemma vcpu_run_ok:
  assumes "vec_grown (vcpus k)" and "i < vec_size (vcpus k)"
  obtains w' where "mini_kvm_vcpu_run env k i w = Inr (MINI_KVM_FAILED_RUN, k, w')"
    and "trace w' = trace w @ [Pthread_create i]"
  | t vs w' where "mini_kvm_vcpu_run env k i w = Inr (MINI_KVM_SUCCESS, k\<lparr>vcpus := vs\<rparr>, w')"
    and "vec_grown vs" and "vec_list vs = (vec_list (vcpus k))[i := (vec_list (vcpus k) ! i)\<lparr>vcpu_thread := t\<rparr>]"
    and "trace w' = trace w @ [Pthread_create i]" and "vec_size vs = vec_size (vcpus k)"
proof (cases "rv (env (trace w) (Pthread_create i)) = 0")
  case False
  then show thesis
    using that(1) cvec.get_law [OF assms] by (simp add: mini_kvm_vcpu_run_def Let_def split_beta)
next
  case True
  let ?v = "vec_list (vcpus k) ! i"
  define t where "t = (case rdata (env (trace w) (Pthread_create i)) of Thread t \<Rightarrow> t | _ \<Rightarrow> vcpu_thread ?v)"
  obtain vs where vs: "vec_put (vcpus k) i (?v\<lparr>vcpu_thread := t\<rparr>) = Inr vs" "vec_grown vs"
    "vec_list vs = (vec_list (vcpus k))[i := ?v\<lparr>vcpu_thread := t\<rparr>]"
    using cvec.put_law [OF assms] by blast
  have "vec_size vs = vec_size (vcpus k)" using vs(2,3) assms(1) by (simp add: cvec.size_elems)
  with True vs show thesis
    using that(2) [of vs _ t] cvec.get_law [OF assms]
    by (simp add: mini_kvm_vcpu_run_def Let_def split_beta t_def)
qed

lemma start_vcpus_ok:
  assumes "vec_grown (vcpus k)" and "\<And>i. i \<in> set is \<Longrightarrow> i < vec_size (vcpus k)"
  shows "\<exists>ret vs w' n. start_vcpus env k is w = Inr (ret, k\<lparr>vcpus := vs\<rparr>, w') \<and> vec_grown vs
    \<and> vec_size vs = vec_size (vcpus k) \<and> trace w' = trace w @ map Pthread_create (take n is)
    \<and> map vcpu_fd (vec_list vs) = map vcpu_fd (vec_list (vcpus k))
    \<and> (ret = MINI_KVM_SUCCESS \<and> n = length is \<or> ret = MINI_KVM_FAILED_RUN \<and> n \<le> length is)"
  using assms
proof (induction "is" arbitrary: k w)
  case Nil
  then show ?case by (intro exI [of _ MINI_KVM_SUCCESS] exI [of _ "vcpus k"]) simp
next
  case (Cons i "is")
  have i: "i < vec_size (vcpus k)" using Cons.prems(2) by simp
  show ?case
  proof (rule vcpu_run_ok [OF Cons.prems(1) i, where env = env and w = w])
    fix w' assume "mini_kvm_vcpu_run env k i w = Inr (MINI_KVM_FAILED_RUN, k, w')"
      "trace w' = trace w @ [Pthread_create i]"
    with Cons.prems(1) show ?thesis
      by (intro exI [of _ MINI_KVM_FAILED_RUN] exI [of _ "vcpus k"] exI [of _ w'] exI [of _ 1]) simp
  next
    fix t vs w'
    assume r: "mini_kvm_vcpu_run env k i w = Inr (MINI_KVM_SUCCESS, k\<lparr>vcpus := vs\<rparr>, w')"
      and vs: "vec_grown vs" "vec_list vs = (vec_list (vcpus k))[i := (vec_list (vcpus k) ! i)\<lparr>vcpu_thread := t\<rparr>]"
      and t: "trace w' = trace w @ [Pthread_create i]" and n: "vec_size vs = vec_size (vcpus k)"
    have fds: "map vcpu_fd (vec_list vs) = map vcpu_fd (vec_list (vcpus k))"
      using i cvec.size_elems [OF Cons.prems(1)]
      by (simp add: vs(2) map_update nth_map [of i "vec_list (vcpus k)" vcpu_fd, symmetric] del: nth_map)
    obtain ret vs' w2 m where "start_vcpus env (k\<lparr>vcpus := vs\<rparr>) is w' = Inr (ret, k\<lparr>vcpus := vs'\<rparr>, w2)"
      "vec_grown vs'" "vec_size vs' = vec_size vs" "trace w2 = trace w' @ map Pthread_create (take m is)"
      "map vcpu_fd (vec_list vs') = map vcpu_fd (vec_list vs)"
      "ret = MINI_KVM_SUCCESS \<and> m = length is \<or> ret = MINI_KVM_FAILED_RUN \<and> m \<le> length is"
      using Cons.IH [of "k\<lparr>vcpus := vs\<rparr>" w'] vs(1) n Cons.prems(2) by auto
    with r t n fds show ?thesis
      by (intro exI [of _ ret] exI [of _ vs'] exI [of _ w2] exI [of _ "Suc m"]) simp
  qed
qed

section \<open>Properties\<close>

text \<open>C8. The command server refines the state machine of the three states: a command that is handled
  takes the machine to the state \<open>vm_next\<close> says, changes nothing else of it but the pause flag and
  its lock, keeps the lock held exactly while the flag is set, and answers with the command's own
  type, CPU mask and status.\<close>

theorem handle_command_refines:
  assumes "mini_kvm_status_handle_command env kvm cmd res w = Inr (ret, k', res', w')"
  shows "k' = kvm\<lparr>vm_state := vm_next (cmd_type cmd) (vm_state kvm), paused := paused k', pause_lock := pause_lock k'\<rparr>
    \<and> (lock_ok kvm \<longrightarrow> lock_ok k')
    \<and> res_cmd_type res' = cmd_type cmd \<and> res_vcpus res' = cmd_vcpus cmd \<and> res_error res' = ret"
proof -
  obtain h res1 where h: "handlers (cmd_type cmd) = Some h" "h env kvm cmd res w = Inr (ret, k', res1, w')"
    and r: "res' = res1\<lparr>res_cmd_type := cmd_type cmd, res_vcpus := cmd_vcpus cmd, res_error := ret\<rparr>"
    by (rule handle_command_cases [OF assms])
  from handler_frame [OF h] r show ?thesis by simp
qed

text \<open>A running machine with two CPUs, for the witnesses.\<close>

definition two_cpu_vm :: Kvm where
  "two_cpu_vm = small_vm\<lparr>vm_state := MINI_KVM_RUNNING,
     vcpus := \<lparr>tab = [Some (zero_vcpu\<lparr>vcpu_fd := 10, vcpu_thread := 101\<rparr>),
       Some (zero_vcpu\<lparr>vcpu_id := 1, vcpu_fd := 11, vcpu_thread := 102\<rparr>), None, None], len = 2, capacity = 4\<rparr>\<rparr>"

lemma two_cpu_vm_ok: "vec_grown (vcpus two_cpu_vm)" "vec_ok (vcpus two_cpu_vm)" "vec_size (vcpus two_cpu_vm) = 2"
  "vec_list (vcpus two_cpu_vm) = [zero_vcpu\<lparr>vcpu_fd := 10, vcpu_thread := 101\<rparr>,
     zero_vcpu\<lparr>vcpu_id := 1, vcpu_fd := 11, vcpu_thread := 102\<rparr>]"
  by (auto simp: two_cpu_vm_def vec_grown_def vec_ok_def vec_size_def vec_list_def less_2_cases_iff)

text \<open>Commands that act on the CPUs reach all of them: on a machine whose vector of CPUs is
  well-formed, PAUSE (with the pause lock free), RESUME and SHUTDOWN succeed, have made exactly one
  signal call per CPU thread, in order and with the command's own signal, and leave the machine paused,
  running or shut down, with the pause flag set only by PAUSE.\<close>

theorem control_commands_signal_all:
  assumes "vec_ok (vcpus kvm)"
    and "cmd_type cmd = MINI_KVM_COMMAND_PAUSE \<and> \<not> pause_lock kvm \<and> s = SIGVMPAUSE \<and> st = MINI_KVM_PAUSED
      \<or> cmd_type cmd = MINI_KVM_COMMAND_RESUME \<and> s = SIGVMRESUME \<and> st = MINI_KVM_RUNNING
      \<or> cmd_type cmd = MINI_KVM_COMMAND_SHUTDOWN \<and> s = SIGVMSHUTDOWN \<and> st = MINI_KVM_SHUTDOWN"
  shows "\<exists>k' res' w'. mini_kvm_status_handle_command env kvm cmd res w = Inr (MINI_KVM_SUCCESS, k', res', w')
    \<and> trace w' = trace w @ map (\<lambda>v. Pthread_kill (vcpu_thread v) s) (vec_list (vcpus kvm))
    \<and> vm_state k' = st \<and> (paused k' \<noteq> 0 \<longleftrightarrow> cmd_type cmd = MINI_KVM_COMMAND_PAUSE)"
proof -
  have sig: "\<exists>w'. mini_kvm_send_sig env (kvm\<lparr>vm_state := st\<rparr>) s w = Inr w'
      \<and> trace w' = trace w @ map (\<lambda>v. Pthread_kill (vcpu_thread v) s) (vec_list (vcpus kvm))"
    by (rule send_sig_ok [of "kvm\<lparr>vm_state := st\<rparr>" env s w]) (use assms(1) in auto)
  from assms(2) sig show ?thesis
    by (elim disjE; clarsimp simp: mini_kvm_status_handle_command_def simple_handlers Let_def)
qed

theorem control_commands_signal_all_witness:
  "\<exists>k' res' w'. mini_kvm_status_handle_command linux_ok two_cpu_vm
      (zero_command\<lparr>cmd_type := MINI_KVM_COMMAND_PAUSE\<rparr>) zero_result fresh_world = Inr (MINI_KVM_SUCCESS, k', res', w')
    \<and> trace w' = [Pthread_kill 101 34, Pthread_kill 102 34] \<and> vm_state k' = MINI_KVM_PAUSED"
proof -
  let ?cmd = "zero_command\<lparr>cmd_type := MINI_KVM_COMMAND_PAUSE\<rparr>"
  have h: "cmd_type ?cmd = MINI_KVM_COMMAND_PAUSE \<and> \<not> pause_lock two_cpu_vm \<and> SIGVMPAUSE = SIGVMPAUSE
        \<and> MINI_KVM_PAUSED = MINI_KVM_PAUSED
      \<or> cmd_type ?cmd = MINI_KVM_COMMAND_RESUME \<and> SIGVMPAUSE = SIGVMRESUME \<and> MINI_KVM_PAUSED = MINI_KVM_RUNNING
      \<or> cmd_type ?cmd = MINI_KVM_COMMAND_SHUTDOWN \<and> SIGVMPAUSE = SIGVMSHUTDOWN \<and> MINI_KVM_PAUSED = MINI_KVM_SHUTDOWN"
    by (simp add: two_cpu_vm_def small_vm_def zero_kvm_def)
  show ?thesis
    using control_commands_signal_all [OF two_cpu_vm_ok(2) h, of linux_ok zero_result fresh_world]
    by (force simp: two_cpu_vm_ok(4) fresh_world_def)
qed

theorem handle_command_refines_witness:
  "\<exists>k' res' w'. mini_kvm_status_handle_command linux_ok two_cpu_vm
      (zero_command\<lparr>cmd_type := MINI_KVM_COMMAND_SHOW_STATE\<rparr>) zero_result fresh_world = Inr (MINI_KVM_SUCCESS, k', res', w')
    \<and> vm_state k' = MINI_KVM_RUNNING \<and> res_cmd_type res' = MINI_KVM_COMMAND_SHOW_STATE"
proof -
  obtain k' res' w' where r: "mini_kvm_status_handle_command linux_ok two_cpu_vm
      (zero_command\<lparr>cmd_type := MINI_KVM_COMMAND_SHOW_STATE\<rparr>) zero_result fresh_world = Inr (MINI_KVM_SUCCESS, k', res', w')"
    by (simp add: mini_kvm_status_handle_command_def simple_handlers)
  have "vm_state two_cpu_vm = MINI_KVM_RUNNING" by (simp add: two_cpu_vm_def)
  moreover have "vm_state k' = vm_next MINI_KVM_COMMAND_SHOW_STATE (vm_state two_cpu_vm)"
    by (subst conjunct1 [OF handle_command_refines [OF r]]) simp
  ultimately show ?thesis using handle_command_refines [OF r] r by auto
qed

text \<open>Registers and memory are only shown of a paused machine: otherwise SHOW_REGS and DUMP_MEM
  answer \<open>MINI_KVM_STATUS_CMD_VM_NOT_PAUSED\<close> and neither make a system call nor change the machine
  or the registers in the answer.\<close>

theorem inspection_needs_pause:
  assumes "cmd_type cmd \<in> {MINI_KVM_COMMAND_SHOW_REGS, MINI_KVM_COMMAND_DUMP_MEM}"
    and "vm_state kvm \<noteq> MINI_KVM_PAUSED"
  shows "\<exists>res'. mini_kvm_status_handle_command env kvm cmd res w
      = Inr (MINI_KVM_STATUS_CMD_VM_NOT_PAUSED, kvm, res', w)
    \<and> res_error res' = MINI_KVM_STATUS_CMD_VM_NOT_PAUSED \<and> res_regs res' = res_regs res
    \<and> res_sregs res' = res_sregs res"
  using assms by (auto simp: mini_kvm_status_handle_command_def status_handle_regs_def status_handle_dump_mem_def)

text \<open>The registers of a paused machine with at most 64 CPUs: SHOW_REGS never faults, but whichever
  CPUs are asked for, only the first slot of the answer is written; the slots of the other CPUs
  still hold what they held before, while the answer's mask says they were asked for.\<close>

theorem show_regs_fills_first_slot_only:
  assumes "vec_ok (vcpus kvm)" and "vec_size (vcpus kvm) \<le> 64"
    and "cmd_type cmd = MINI_KVM_COMMAND_SHOW_REGS" and "vm_state kvm = MINI_KVM_PAUSED"
  shows "\<exists>ret res' w'. mini_kvm_status_handle_command env kvm cmd res w = Inr (ret, kvm, res', w')
    \<and> tl (res_regs res') = tl (res_regs res) \<and> tl (res_sregs res') = tl (res_sregs res)
    \<and> res_vcpus res' = cmd_vcpus cmd"
proof -
  have "\<exists>r. regs_loop env kvm (cmd_vcpus cmd) [0..<vec_size (vcpus kvm)] res w = Inr r"
    by (rule regs_loop_total [OF assms(1)]) (use assms(2) in auto)
  then obtain ret res1 w1 where
    "regs_loop env kvm (cmd_vcpus cmd) [0..<vec_size (vcpus kvm)] res w = Inr (ret, res1, w1)" by auto
  with regs_loop_frame [OF this] assms(3,4) show ?thesis
    by (auto simp: mini_kvm_status_handle_command_def status_handle_regs_def)
qed

theorem show_regs_fills_first_slot_only_witness:
  "\<exists>ret res' w'. mini_kvm_status_handle_command linux_ok (two_cpu_vm\<lparr>vm_state := MINI_KVM_PAUSED\<rparr>)
      (zero_command\<lparr>cmd_type := MINI_KVM_COMMAND_SHOW_REGS, cmd_vcpus := 3\<rparr>) zero_result fresh_world
    = Inr (ret, two_cpu_vm\<lparr>vm_state := MINI_KVM_PAUSED\<rparr>, res', w') \<and> res_vcpus res' = 3"
proof -
  let ?k = "two_cpu_vm\<lparr>vm_state := MINI_KVM_PAUSED\<rparr>"
  let ?c = "zero_command\<lparr>cmd_type := MINI_KVM_COMMAND_SHOW_REGS, cmd_vcpus := 3\<rparr>"
  have a: "vec_ok (vcpus ?k)" "vec_size (vcpus ?k) \<le> 64" "cmd_type ?c = MINI_KVM_COMMAND_SHOW_REGS"
    "vm_state ?k = MINI_KVM_PAUSED"
    using two_cpu_vm_ok by simp_all
  show ?thesis using show_regs_fills_first_slot_only [OF a, of linux_ok zero_result fresh_world] by auto
qed

text \<open>\<open>mini_kvm_start_vm\<close> on a machine with CPUs never faults: it creates one thread per CPU in
  order, stops at the first that cannot be created and reports it, and changes nothing of the
  machine but the thread handles and the state, which is running in either case.\<close>

theorem start_vm_creates_threads:
  assumes "vec_grown (vcpus k)" and "0 < vec_size (vcpus k)"
  shows "\<exists>ret vs w' n. mini_kvm_start_vm env (Some k) w
      = Inr (ret, Some (k\<lparr>vcpus := vs, vm_state := MINI_KVM_RUNNING\<rparr>), w')
    \<and> vec_grown vs \<and> vec_size vs = vec_size (vcpus k) \<and> trace w' = trace w @ map Pthread_create [0..<n]
    \<and> map vcpu_fd (vec_list vs) = map vcpu_fd (vec_list (vcpus k))
    \<and> (ret = MINI_KVM_SUCCESS \<and> n = vec_size (vcpus k) \<or> ret = MINI_KVM_FAILED_RUN \<and> n \<le> vec_size (vcpus k))"
proof -
  have "len (vcpus k) \<noteq> 0" using assms(2) by (auto simp: vec_size_def)
  obtain ret vs w' n where s: "start_vcpus env k [0..<vec_size (vcpus k)] w = Inr (ret, k\<lparr>vcpus := vs\<rparr>, w')"
    "vec_grown vs" "vec_size vs = vec_size (vcpus k)"
    "trace w' = trace w @ map Pthread_create (take n [0..<vec_size (vcpus k)])"
    "map vcpu_fd (vec_list vs) = map vcpu_fd (vec_list (vcpus k))"
    "ret = MINI_KVM_SUCCESS \<and> n = vec_size (vcpus k) \<or> ret = MINI_KVM_FAILED_RUN \<and> n \<le> vec_size (vcpus k)"
    using start_vcpus_ok [OF assms(1), of "[0..<vec_size (vcpus k)]" env w] by auto
  then have "take n [0..<vec_size (vcpus k)] = [0..<n]" by auto
  with s \<open>len (vcpus k) \<noteq> 0\<close> show ?thesis
    by (intro exI [of _ ret] exI [of _ vs] exI [of _ w'] exI [of _ n]) (simp add: mini_kvm_start_vm_def)
qed

theorem start_vm_creates_threads_witness:
  "\<exists>ret k' w' n. mini_kvm_start_vm linux_ok (Some two_cpu_vm) fresh_world = Inr (ret, Some k', w')
     \<and> vm_state k' = MINI_KVM_RUNNING \<and> trace w' = map Pthread_create [0..<n]"
proof -
  have n: "0 < vec_size (vcpus two_cpu_vm)" using two_cpu_vm_ok(3) by simp
  show ?thesis
    using start_vm_creates_threads [OF two_cpu_vm_ok(1) n, of linux_ok fresh_world]
    by (auto simp: fresh_world_def)
qed

end
