(* ===== verification/Filesystem.thy ===== *)
theory Filesystem imports Os "HOL-Library.Sublist" begin

text \<open>
  \<open>src/core/filesystem.c\<close>: \<open>rmrf\<close> removes a directory with everything in it by \<open>nftw\<close> of the C library
  with the flags \<open>FTW_DEPTH\<close> and \<open>FTW_PHYS\<close>: the entries of a directory come before the directory
  itself, symbolic links are not followed, and the walk ends at the first entry for which the
  callback does not return 0. What lies below the path is what the system answers.
\<close>

section \<open>Walking a tree\<close>

fun nftw_walk :: "(string \<Rightarrow> 'w \<Rightarrow> int \<times> 'w) \<Rightarrow> string \<Rightarrow> file_tree \<Rightarrow> 'w \<Rightarrow> int \<times> 'w"
  and nftw_entries :: "(string \<Rightarrow> 'w \<Rightarrow> int \<times> 'w) \<Rightarrow> string \<Rightarrow> (string \<times> file_tree) list \<Rightarrow> 'w \<Rightarrow> int \<times> 'w" where
  "nftw_walk fn path Plain_file w = fn path w"
| "nftw_walk fn path (Directory es) w =
     (let (r, w1) = nftw_entries fn path es w in if r \<noteq> 0 then (r, w1) else fn path w1)"
| "nftw_entries fn path [] w = (0, w)"
| "nftw_entries fn path ((name, t) # es) w =
     (let (r, w1) = nftw_walk fn (path @ ''/'' @ name) t w in if r \<noteq> 0 then (r, w1) else nftw_entries fn path es w1)"

section \<open>Removing it\<close>

text \<open>The callback returns what \<open>remove\<close> returned; its message about a failure is left out.\<close>

definition nftw_callback :: "env \<Rightarrow> string \<Rightarrow> world \<Rightarrow> int \<times> world" where
  "nftw_callback env fpath w = (let (r, w1) = os_call env (Remove fpath) w in (rv r, w1))"

definition rmrf :: "env \<Rightarrow> string option \<Rightarrow> world \<Rightarrow> (int \<times> world) res" where
  "rmrf env path w =
     (case path of None \<Rightarrow> Inl NullDeref
      | Some p \<Rightarrow>
        let (r, w1) = os_call env (Ftw p) w in
        case rdata r of Tree t \<Rightarrow> Inr (nftw_walk (nftw_callback env) p t w1) | _ \<Rightarrow> Inr (-1, w1))"

section \<open>What should be removed\<close>

text \<open>The paths of a tree, every directory after what it holds.\<close>

fun post_order :: "string \<Rightarrow> file_tree \<Rightarrow> string list"
  and post_entries :: "string \<Rightarrow> (string \<times> file_tree) list \<Rightarrow> string list" where
  "post_order path Plain_file = [path]"
| "post_order path (Directory es) = post_entries path es @ [path]"
| "post_entries path [] = []"
| "post_entries path ((name, t) # es) = post_order (path @ ''/'' @ name) t @ post_entries path es"

text \<open>The same by the names that lead to each entry, and the entries a tree has.\<close>

fun post_names :: "file_tree \<Rightarrow> string list list"
  and entries_names :: "(string \<times> file_tree) list \<Rightarrow> string list list" where
  "post_names Plain_file = [[]]"
| "post_names (Directory es) = entries_names es @ [[]]"
| "entries_names [] = []"
| "entries_names ((name, t) # es) = map ((#) name) (post_names t) @ entries_names es"

fun entry_at :: "file_tree \<Rightarrow> string list \<Rightarrow> bool" where
  "entry_at t [] = True"
| "entry_at Plain_file (n # ns) = False"
| "entry_at (Directory es) (n # ns) = (\<exists>t. (n, t) \<in> set es \<and> entry_at t ns)"

text \<open>A directory has no two entries of one name.\<close>

fun wf_tree :: "file_tree \<Rightarrow> bool" and wf_entries :: "(string \<times> file_tree) list \<Rightarrow> bool" where
  "wf_tree Plain_file = True"
| "wf_tree (Directory es) = (distinct (map fst es) \<and> wf_entries es)"
| "wf_entries [] = True"
| "wf_entries ((name, t) # es) = (wf_tree t \<and> wf_entries es)"

definition join_path :: "string \<Rightarrow> string list \<Rightarrow> string" where
  "join_path p ns = p @ concat (map (\<lambda>n. ''/'' @ n) ns)"

section \<open>Lemmas\<close>

lemma join_path_simps [simp]: "join_path p [] = p" "join_path p (n # ns) = join_path (p @ ''/'' @ n) ns"
  by (simp_all add: join_path_def)

lemma post_order_names:
  "post_order p t = map (join_path p) (post_names t)" "post_entries p es = map (join_path p) (entries_names es)"
  by (induction p t and p es rule: post_order_post_entries.induct) (simp_all add: comp_def)

lemma entry_at_Plain [simp]: "entry_at Plain_file ns \<longleftrightarrow> ns = []"
  by (cases ns) simp_all

lemma entry_at_Directory: "entry_at (Directory es) ns \<longleftrightarrow> ns = [] \<or> (\<exists>n t ms. ns = n # ms \<and> (n, t) \<in> set es \<and> entry_at t ms)"
  by (cases ns) auto

lemma set_post_names:
  "set (post_names t) = {ns. entry_at t ns}"
  "set (entries_names es) = {n # ns | n ns. \<exists>t. (n, t) \<in> set es \<and> entry_at t ns}"
proof (induction t and es rule: post_names_entries_names.induct)
  case (2 es)
  then show ?case by (auto simp: entry_at_Directory)
next
  case (4 name t es)
  then show ?case by auto
qed simp_all

lemma sorted_wrt_map_Cons:
  "sorted_wrt (\<lambda>a b. \<not> prefix a b) (map ((#) n) xs) \<longleftrightarrow> sorted_wrt (\<lambda>a b. \<not> prefix a b) xs"
  by (simp add: sorted_wrt_map)

lemma post_names_order:
  "wf_tree t \<Longrightarrow> sorted_wrt (\<lambda>a b. \<not> prefix a b) (post_names t)"
  "wf_entries es \<Longrightarrow> distinct (map fst es) \<Longrightarrow> sorted_wrt (\<lambda>a b. \<not> prefix a b) (entries_names es)"
proof (induction t and es rule: post_names_entries_names.induct)
  case (2 es)
  have "ns \<noteq> []" if "ns \<in> set (entries_names es)" for ns using that by (auto simp: set_post_names)
  with 2 show ?case by (auto simp: sorted_wrt_append)
next
  case (4 name t es)
  have "\<not> prefix (name # a) b" if "b \<in> set (entries_names es)" for a b
    using that 4(4) by (force simp: set_post_names)
  with 4 show ?case by (auto simp: sorted_wrt_append sorted_wrt_map_Cons)
qed simp_all

lemma nftw_callback_call:
  "nftw_callback env p w = (rv (env (trace w) (Remove p)), snd (os_call env (Remove p) w))"
  by (simp add: nftw_callback_def Let_def split_beta)

text \<open>The calls between two worlds were all answered 0, except that the last was answered \<open>r\<close>.\<close>

definition answered :: "env \<Rightarrow> world \<Rightarrow> int \<Rightarrow> world \<Rightarrow> bool" where
  "answered env w r w' \<longleftrightarrow> (\<forall>i. length (trace w) \<le> i \<and> i < length (trace w') \<longrightarrow>
     rv (env (take i (trace w')) (trace w' ! i)) = (if Suc i = length (trace w') then r else 0))"

lemma answered_trans:
  assumes "answered env w 0 w1" and "answered env w1 r w2" and "trace w2 = trace w1 @ cs" and "cs = [] \<Longrightarrow> r = 0"
  shows "answered env w r w2"
  unfolding answered_def
proof (intro allI impI)
  fix i assume i: "length (trace w) \<le> i \<and> i < length (trace w2)"
  show "rv (env (take i (trace w2)) (trace w2 ! i)) = (if Suc i = length (trace w2) then r else 0)"
  proof (cases "i < length (trace w1)")
    case True
    with i assms(1) have "rv (env (take i (trace w1)) (trace w1 ! i)) = 0" by (auto simp: answered_def split: if_splits)
    with True assms(3,4) show ?thesis by (cases cs) (auto simp: nth_append)
  next
    case False
    with i assms(2) show ?thesis by (simp add: answered_def)
  qed
qed

lemma answered_callback:
  assumes "nftw_callback env p w = (r, w')"
  shows "answered env w r w'" "trace w' = trace w @ [Remove p]"
  using assms by (auto simp: answered_def nftw_callback_call nth_append less_Suc_eq)

text \<open>The removals of a walk, as long as all of them succeed.\<close>

lemma nftw_removes:
  "\<exists>r w' n. nftw_walk (nftw_callback env) p t w = (r, w') \<and> trace w' = trace w @ map Remove (take n (post_order p t))
     \<and> answered env w r w' \<and> 0 < n \<and> n \<le> length (post_order p t) \<and> (r = 0 \<longrightarrow> n = length (post_order p t))"
  "\<exists>r w' n. nftw_entries (nftw_callback env) p es w = (r, w') \<and> trace w' = trace w @ map Remove (take n (post_entries p es))
     \<and> answered env w r w' \<and> (n = 0 \<longrightarrow> r = 0) \<and> n \<le> length (post_entries p es) \<and> (r = 0 \<longrightarrow> n = length (post_entries p es))"
proof (induction p t and p es arbitrary: w and w rule: post_order_post_entries.induct)
  case (1 p)
  obtain r w' where c: "nftw_callback env p w = (r, w')" by fastforce
  with answered_callback [OF c] show ?case by (intro exI [of _ r] exI [of _ w'] exI [of _ 1]) simp
next
  case (2 p es)
  obtain r w1 n where e: "nftw_entries (nftw_callback env) p es w = (r, w1)"
    "trace w1 = trace w @ map Remove (take n (post_entries p es))" "answered env w r w1" "n = 0 \<longrightarrow> r = 0"
    "n \<le> length (post_entries p es)" "r = 0 \<longrightarrow> n = length (post_entries p es)"
    using 2 [of w] by blast
  show ?case
  proof (cases "r = 0")
    case True
    obtain r2 w2 where c: "nftw_callback env p w1 = (r2, w2)" by fastforce
    have "answered env w r2 w2"
      using answered_trans [OF _ answered_callback [OF c]] e(3) True by simp
    with True e c answered_callback(2) [OF c] show ?thesis
      by (intro exI [of _ r2] exI [of _ w2] exI [of _ "Suc n"]) simp
  next
    case False
    with e show ?thesis by (intro exI [of _ r] exI [of _ w1] exI [of _ n]) auto
  qed
next
  case (3 p)
  show ?case by (simp add: answered_def)
next
  case (4 p name t es)
  obtain r w1 n where e: "nftw_walk (nftw_callback env) (p @ ''/'' @ name) t w = (r, w1)"
    "trace w1 = trace w @ map Remove (take n (post_order (p @ ''/'' @ name) t))" "answered env w r w1" "0 < n"
    "n \<le> length (post_order (p @ ''/'' @ name) t)" "r = 0 \<longrightarrow> n = length (post_order (p @ ''/'' @ name) t)"
    using 4(1) [of w] by blast
  show ?case
  proof (cases "r = 0")
    case True
    obtain r2 w2 m where c: "nftw_entries (nftw_callback env) p es w1 = (r2, w2)"
      "trace w2 = trace w1 @ map Remove (take m (post_entries p es))" "answered env w1 r2 w2" "m = 0 \<longrightarrow> r2 = 0"
      "m \<le> length (post_entries p es)" "r2 = 0 \<longrightarrow> m = length (post_entries p es)"
      using 4(2) [of w1] by blast
    have "answered env w r2 w2"
      using answered_trans [OF _ c(3,2)] e(3) True c(4-6) by (cases "post_entries p es = []") auto
    with True e c show ?thesis by (intro exI [of _ r2] exI [of _ w2] exI [of _ "n + m"]) simp
  next
    case False
    with e show ?thesis by (intro exI [of _ r] exI [of _ w1] exI [of _ n]) simp
  qed
qed

text \<open>The same for \<open>rmrf\<close>, whatever the system finds.\<close>

lemma rmrf_calls:
  obtains r w' rs where "rmrf env (Some p) w = Inr (r, w')" and "trace w' = trace w @ [Ftw p] @ map Remove rs"
    and "\<forall>t. (\<forall>h. rdata (env h (Ftw p)) = Tree t) \<and> (\<forall>h q. rv (env h (Remove q)) = 0) \<longrightarrow> rs = post_order p t"
proof (cases "rdata (env (trace w) (Ftw p))")
  case (Tree t)
  let ?w1 = "snd (os_call env (Ftw p) w)"
  obtain r w' n where x: "nftw_walk (nftw_callback env) p t ?w1 = (r, w')"
    "trace w' = trace ?w1 @ map Remove (take n (post_order p t))" "answered env ?w1 r w'" "0 < n"
    "n \<le> length (post_order p t)" "r = 0 \<longrightarrow> n = length (post_order p t)"
    using nftw_removes(1) [of env p t ?w1] by blast
  have all: "n = length (post_order p t)" if z: "\<And>h q. rv (env h (Remove q)) = 0"
  proof -
    define i where "i = length (trace ?w1) + (n - 1)"
    have l: "length (trace w') = length (trace ?w1) + n" using x(2,5) by simp
    then have "rv (env (take i (trace w')) (trace w' ! i)) = r" using x(3,4) unfolding answered_def i_def by auto
    moreover have "trace w' ! i = Remove (post_order p t ! (n - 1))" using x(2,4,5) by (simp add: i_def nth_append)
    ultimately show ?thesis using z x(6) by simp
  qed
  show thesis
    by (rule that [of r w' "take n (post_order p t)"]) (use x Tree all in \<open>auto simp: rmrf_def split_beta\<close>)
qed (rule that [of "-1" "snd (os_call env (Ftw p) w)" "[]"], auto simp: rmrf_def split_beta)+

section \<open>Properties\<close>

text \<open>C30. Removing a directory: \<open>rmrf\<close> asks once what lies below the path and then removes exactly those
  entries, each once and every directory only after everything in it, as long as the removals
  succeed; it returns 0 exactly if all of them did, and otherwise stops at the first that failed and
  returns its result.\<close>

theorem rmrf_removes_tree:
  assumes "rdata (env (trace w) (Ftw p)) = Tree t" and "wf_tree t"
  shows "\<exists>r w' n. rmrf env (Some p) w = Inr (r, w')
    \<and> trace w' = trace w @ [Ftw p] @ map Remove (take n (map (join_path p) (post_names t)))
    \<and> set (post_names t) = {ns. entry_at t ns} \<and> sorted_wrt (\<lambda>a b. \<not> prefix a b) (post_names t)
    \<and> 0 < n \<and> n \<le> length (post_names t) \<and> (r = 0 \<longrightarrow> n = length (post_names t))
    \<and> (\<forall>i. length (trace w) < i \<and> i < length (trace w') \<longrightarrow>
         rv (env (take i (trace w')) (trace w' ! i)) = (if Suc i = length (trace w') then r else 0))"
proof -
  let ?w1 = "snd (os_call env (Ftw p) w)"
  obtain r w' n where "nftw_walk (nftw_callback env) p t ?w1 = (r, w')"
    "trace w' = trace ?w1 @ map Remove (take n (post_order p t))" "answered env ?w1 r w'" "0 < n"
    "n \<le> length (post_order p t)" "r = 0 \<longrightarrow> n = length (post_order p t)"
    using nftw_removes(1) [of env p t ?w1] by blast
  with assms set_post_names(1) post_names_order(1) show ?thesis
    by (intro exI [of _ r] exI [of _ w'] exI [of _ n]) (simp add: rmrf_def post_order_names split_beta answered_def Suc_le_eq)
qed

text \<open>A host with the directory of a machine, for the witness.\<close>

definition dir_host :: env where
  "dir_host h c = (case c of
     Ftw p \<Rightarrow> \<lparr>rv = 0, rerr = 0, rdata = Tree (Directory [(''vm.pid'', Plain_file), (''vm.sock'', Plain_file)])\<rparr>
   | _ \<Rightarrow> linux_ok h c)"

theorem rmrf_removes_tree_witness:
  "\<exists>w'. rmrf dir_host (Some ''/tmp/mini_kvm/vm'') fresh_world = Inr (0, w')
     \<and> trace w' = [Ftw ''/tmp/mini_kvm/vm'', Remove ''/tmp/mini_kvm/vm/vm.pid'', Remove ''/tmp/mini_kvm/vm/vm.sock'',
         Remove ''/tmp/mini_kvm/vm'']"
proof -
  let ?t = "Directory [(''vm.pid'', Plain_file), (''vm.sock'', Plain_file)]" and ?p = "''/tmp/mini_kvm/vm''"
  have a: "rdata (dir_host (trace fresh_world) (Ftw ?p)) = Tree ?t" "wf_tree ?t" by (simp_all add: dir_host_def)
  obtain r w' n where r: "rmrf dir_host (Some ?p) fresh_world = Inr (r, w')"
    "trace w' = trace fresh_world @ [Ftw ?p] @ map Remove (take n (map (join_path ?p) (post_names ?t)))"
    "0 < n" "n \<le> length (post_names ?t)" "r = 0 \<longrightarrow> n = length (post_names ?t)"
    "\<forall>i. length (trace fresh_world) < i \<and> i < length (trace w') \<longrightarrow>
       rv (dir_host (take i (trace w')) (trace w' ! i)) = (if Suc i = length (trace w') then r else 0)"
    using rmrf_removes_tree [of dir_host fresh_world ?p ?t, OF a] by blast
  have l: "length (trace w') = Suc n" using r(2,4) by (simp add: fresh_world_def)
  have "trace w' ! n = Remove (map (join_path ?p) (post_names ?t) ! (n - 1))"
    using r(2-4) by (simp add: fresh_world_def nth_append nth_Cons')
  then have "rv (dir_host (take n (trace w')) (trace w' ! n)) = 0" by (simp add: dir_host_def linux_ok_def)
  with r(3,6) l have "r = 0" by (simp add: fresh_world_def)
  with r show ?thesis by (intro exI [of _ w']) (simp add: fresh_world_def)
qed

end
