(* ===== verification/Run.thy ===== *)
theory Run imports Run_Args Ipc Kvm_Setup Control Filesystem begin

text \<open>
  The command \<open>mini_kvm run\<close> (\<open>src/commands/run.c\<close>): \<open>init_filesystem\<close>, \<open>run_set_signals\<close>,
  \<open>run_main_loop\<close> and \<open>mini_kvm_run\<close>. Two things happen to the main thread from outside, and are
  parameters: \<open>stops\<close> says after which calls a CPU thread has just set the state to shutdown, and
  \<open>deliver\<close> after which calls which signal is delivered. A signal that has a handler is stored in
  \<open>sig_status\<close>; one that has none does not reach the program (if its default action ends the process,
  nothing more happens). A loop that never ends has no value (\<^term>\<open>None\<close>). Allocations succeed; the
  time slept per round is not modelled.
\<close>

section \<open>The directory of a machine\<close>

text \<open>Whether the pid file names a process that exists; the file is closed in either case.\<close>

definition pidfile_alive :: "env \<Rightarrow> int \<Rightarrow> string \<Rightarrow> world \<Rightarrow> bool \<times> world" where
  "pidfile_alive env dir pidfile_name w =
     (let (r1, w1) = os_call env (Openat dir pidfile_name O_RDONLY) w in
      if rv r1 > 0 then
        let (r2, w2) = os_call env (Read (rv r1) 4) w1;
            (r3, w3) = os_call env (Kill (bytes_int32 (read_over (int32_bytes 0) r2)) 0) w2
        in (rv r3 = 0, snd (os_call env (Close (rv r1)) w3))
      else (False, w1))"

definition write_pidfile :: "env \<Rightarrow> int \<Rightarrow> string \<Rightarrow> world \<Rightarrow> MiniKVMError \<times> world" where
  "write_pidfile env dir pidfile_name w =
     (let (r1, w1) = os_call env (Openat dir pidfile_name O_CREAT_TRUNC_WRONLY) w in
      if rv r1 < 0 then (MINI_KVM_FAILED_FS_SETUP, w1)
      else let (r2, w2) = os_call env Getpid w1;
               w3 = snd (os_call env (Write (rv r1) (int32_bytes (rv r2))) w2)
      in (MINI_KVM_SUCCESS, snd (os_call env (Close (rv r1)) w3)))"

text \<open>The root directory is created when it does not exist; the result is compared with \<open>< -1\<close>.\<close>

definition make_root :: "env \<Rightarrow> world \<Rightarrow> MiniKVMError \<times> world" where
  "make_root env w =
     (let (r1, w1) = os_call env (Stat MINI_KVM_FS_ROOT_PATH) w in
      if rv r1 = -1 then
        let (r2, w2) = os_call env (Mkdir MINI_KVM_FS_ROOT_PATH) w1 in
        (if rv r2 < -1 then MINI_KVM_FAILED_FS_SETUP else MINI_KVM_SUCCESS, w2)
      else (MINI_KVM_SUCCESS, w1))"

definition init_filesystem :: "env \<Rightarrow> string \<Rightarrow> Kvm \<Rightarrow> world \<Rightarrow> MiniKVMError \<times> Kvm \<times> world" where
  "init_filesystem env name kvm w =
     (let (e1, w2) = make_root env w in
      if e1 \<noteq> MINI_KVM_SUCCESS then (e1, kvm, w2)
      else let path = MINI_KVM_FS_ROOT_PATH @ ''/'' @ name;
               (r3, w3) = os_call env (Stat path) w2;
               (r4, w4) = os_call env (Open MINI_KVM_FS_ROOT_PATH O_DIRECTORY) w3;
               (r5, w5) = os_call env (Mkdirat (rv r4) name) w4;
               (r6, w6) = os_call env (Openat (rv r4) name O_DIRECTORY) w5;
               k1 = kvm\<lparr>fs_path := Some path, fs_fd := rv r6\<rparr> in
      if fs_fd k1 < 0 then (MINI_KVM_FAILED_FS_SETUP, k1, snd (os_call env (Close (rv r4)) w6))
      else let pidfile_name = name @ ''.pid'';
               (alive, w7) = (if rv r3 = 0 then pidfile_alive env (fs_fd k1) pidfile_name w6 else (False, w6)) in
      if alive then (MINI_KVM_FAILED_FS_SETUP, k1, snd (os_call env (Close (rv r4)) w7))
      else let (ret, w8) = write_pidfile env (fs_fd k1) pidfile_name w7
      in (ret, k1, snd (os_call env (Close (rv r4)) w8)))"

section \<open>Signals\<close>

definition SIGINT :: int where [simp]: "SIGINT = 2"
definition SIGTERM :: int where [simp]: "SIGTERM = 15"

text \<open>The handler stores the number of the signal in \<open>sig_status\<close>, whatever it was before.\<close>

definition set_signal_status :: "int \<Rightarrow> int \<Rightarrow> int" where
  "set_signal_status signo status = signo"

text \<open>A failed registration is only logged.\<close>

definition run_set_signals :: "env \<Rightarrow> world \<Rightarrow> world" where
  "run_set_signals env w = (let (r1, w1) = os_call env (Signal SIGINT) w; (r2, w2) = os_call env (Signal SIGTERM) w1 in w2)"

text \<open>Whether the handler of a signal has been installed by one of the calls so far.\<close>

definition has_handler :: "env \<Rightarrow> int \<Rightarrow> syscall list \<Rightarrow> bool" where
  "has_handler env n h \<longleftrightarrow> (\<exists>i < length h. h ! i = Signal n \<and> 0 \<le> rv (env (take i h) (Signal n)))"

definition signal_arrives :: "env \<Rightarrow> (syscall list \<Rightarrow> int option) \<Rightarrow> syscall list \<Rightarrow> int \<Rightarrow> int" where
  "signal_arrives env deliver h status =
     (case deliver h of None \<Rightarrow> status
      | Some n \<Rightarrow> if has_handler env n h then set_signal_status n status else status)"

text \<open>The variable \<open>sig_status\<close>: initially 0, then changed by each signal in the order of their arrival.\<close>

definition sig_status :: "env \<Rightarrow> (syscall list \<Rightarrow> int option) \<Rightarrow> syscall list \<Rightarrow> int" where
  "sig_status env deliver h = fold (signal_arrives env deliver) (prefixes h) 0"

section \<open>The main loop\<close>

text \<open>What the main thread finds in \<open>kvm->state\<close> when a CPU thread may have changed it.\<close>

definition observe :: "(syscall list \<Rightarrow> bool) \<Rightarrow> Kvm \<Rightarrow> world \<Rightarrow> Kvm" where
  "observe stops kvm w = (if stops (trace w) then kvm\<lparr>vm_state := MINI_KVM_SHUTDOWN\<rparr> else kvm)"

text \<open>The commands of one connection, until the client closes it.\<close>

partial_function (option) serve_client ::
  "env \<Rightarrow> (syscall list \<Rightarrow> bool) \<Rightarrow> int \<Rightarrow> Kvm \<Rightarrow> MiniKvmStatusCommand \<Rightarrow> MiniKvmStatusResult \<Rightarrow> world
     \<Rightarrow> (Kvm \<times> MiniKvmStatusCommand \<times> MiniKvmStatusResult \<times> world) res option" where
  "serve_client env stops fd kvm cmd res w =
     (let (r, w1) = os_call env (Recv_cmd fd) w; k1 = observe stops kvm w1 in
      if rv r > 0 then
        let cmd1 = (case rdata r of Command c \<Rightarrow> c | _ \<Rightarrow> cmd) in
        ro_bind (Some (mini_kvm_status_handle_command env k1 cmd1 res w1)) (\<lambda>(_, k2, res1, w2).
          let w3 = snd (os_call env (Send_res fd res1) w2) in
          serve_client env stops fd (observe stops k2 w3) cmd1 res1 w3)
      else Some (Inr (k1, cmd, res, w1)))"

definition check_signals :: "env \<Rightarrow> (syscall list \<Rightarrow> int) \<Rightarrow> Kvm \<Rightarrow> world \<Rightarrow> (Kvm \<times> world) res" where
  "check_signals env sigs kvm w =
     (if sigs (trace w) = SIGINT \<or> sigs (trace w) = SIGTERM then
        let k1 = kvm\<lparr>vm_state := MINI_KVM_SHUTDOWN\<rparr> in
        res_bind (mini_kvm_send_sig env k1 SIGVMSHUTDOWN w) (\<lambda>w1. Inr (k1, w1))
      else Inr (kvm, w))"

partial_function (option) main_loop ::
  "env \<Rightarrow> (syscall list \<Rightarrow> bool) \<Rightarrow> (syscall list \<Rightarrow> int) \<Rightarrow> Kvm \<Rightarrow> MiniKvmStatusCommand \<Rightarrow> MiniKvmStatusResult
     \<Rightarrow> world \<Rightarrow> (Kvm \<times> world) res option" where
  "main_loop env stops sigs kvm cmd res w =
     (let k0 = observe stops kvm w in
      if vm_state k0 = MINI_KVM_SHUTDOWN then Some (Inr (k0, w))
      else let (fd, w1) = mini_kvm_ipc_receive_cmd env k0 w; k1 = observe stops k0 w1 in
      ro_bind (if fd > 0 then serve_client env stops fd k1 cmd res w1 else Some (Inr (k1, cmd, res, w1)))
        (\<lambda>(k2, cmd', res', w2).
           ro_bind (Some (check_signals env sigs k2 w2)) (\<lambda>(k3, w3).
             main_loop env stops sigs k3 cmd' res' w3)))"

definition run_main_loop ::
  "env \<Rightarrow> (syscall list \<Rightarrow> bool) \<Rightarrow> (syscall list \<Rightarrow> int) \<Rightarrow> Kvm \<Rightarrow> world
     \<Rightarrow> (MiniKVMError \<times> Kvm \<times> world) res option" where
  "run_main_loop env stops sigs kvm w =
     ro_bind (Some (mini_kvm_ipc_create_socket env kvm w)) (\<lambda>(ret, k1, w1).
       if ret \<noteq> MINI_KVM_SUCCESS then Some (Inr (ret, k1, w1))
       else ro_bind (Some (mini_kvm_start_vm env (Some k1) w1)) (\<lambda>(ret, ko, w2).
         let k2 = (case ko of None \<Rightarrow> k1 | Some k \<Rightarrow> k) in
         if ret \<noteq> MINI_KVM_SUCCESS then Some (Inr (ret, k2, w2))
         else ro_bind (main_loop env stops sigs k2 zero_command zero_result w2)
           (\<lambda>(k3, w3). Some (Inr (ret, k3, w3)))))"

section \<open>The command\<close>

fun add_vcpus :: "env \<Rightarrow> nat \<Rightarrow> Kvm \<Rightarrow> world \<Rightarrow> (MiniKVMError \<times> Kvm \<times> world) res" where
  "add_vcpus env 0 kvm w = Inr (MINI_KVM_SUCCESS, kvm, w)"
| "add_vcpus env (Suc n) kvm w =
     res_bind (mini_kvm_add_vcpu env (Some kvm) w) (\<lambda>(ret, ko, w1).
       let k1 = (case ko of None \<Rightarrow> kvm | Some k \<Rightarrow> k) in
       if ret \<noteq> MINI_KVM_SUCCESS then Inr (ret, k1, w1) else add_vcpus env n k1 w1)"

text \<open>
  From the arguments to a machine that is ready to run; each step ends the command (and cleans up)
  when it fails.
\<close>

definition run_boot :: "env \<Rightarrow> cpuid_insn \<Rightarrow> MiniKvmRunArgs \<Rightarrow> Kvm \<Rightarrow> world \<Rightarrow> (MiniKVMError \<times> Kvm \<times> world) res" where
  "run_boot env cpuid args kvm w =
     (let (ret, k1, w1) = mini_kvm_setup_kvm env cpuid kvm (ra_mem_size args) w in
      if ret \<noteq> MINI_KVM_SUCCESS then Inr (ret, k1, w1)
      else res_bind (add_vcpus env (unat (ra_vcpu args)) k1 w1) (\<lambda>(ret, k2, w2).
        if ret \<noteq> MINI_KVM_SUCCESS then Inr (ret, k2, w2)
        else res_bind (mini_kvm_configure_paging env k2 w2) (\<lambda>(ret, k3, w3).
          if ret \<noteq> MINI_KVM_SUCCESS then Inr (ret, k3, w3)
          else res_bind (load_kernel (Some k3) (kernel_code args) BOOTLOADER_ADDR) (\<lambda>(ret, ko).
            Inr (ret, (case ko of None \<Rightarrow> k3 | Some k \<Rightarrow> k), w3)))))"

definition run_cleanup :: "env \<Rightarrow> int \<Rightarrow> string \<Rightarrow> Kvm \<Rightarrow> world \<Rightarrow> (int \<times> string \<times> world) res option" where
  "run_cleanup env ret out kvm w = Some (res_bind (mini_kvm_clean_kvm env kvm w) (\<lambda>w'. Inr (ret, out, w')))"

text \<open>The result is the status, what was printed and the world; what \<open>rmrf\<close> returns is ignored.\<close>

definition mini_kvm_run ::
  "env \<Rightarrow> cpuid_insn \<Rightarrow> (syscall list \<Rightarrow> bool) \<Rightarrow> (syscall list \<Rightarrow> int option) \<Rightarrow> string list \<Rightarrow> LoggerState \<Rightarrow> world
     \<Rightarrow> (int \<times> string \<times> world) res option" where
  "mini_kvm_run env cpuid stops deliver argv st w =
     ro_bind (Some (run_parse_args env argv st w)) (\<lambda>args. let out = ra_out args in
       if ra_ret args \<noteq> 0 then Some (Inr (ra_ret args, out, ra_world args))
       else ro_bind (Some (run_boot env cpuid args zero_kvm (ra_world args))) (\<lambda>(ret, k1, w1).
         if ret \<noteq> MINI_KVM_SUCCESS then run_cleanup env (error_code ret) out k1 w1
         else let named = (case ra_name args of None \<Rightarrow> False | Some n \<Rightarrow> n \<noteq> []);
                  (failed, k2, w2) =
                    (if named then
                       let (e, k, w') = init_filesystem env (the (ra_name args)) (k1\<lparr>kvm_name := ra_name args\<rparr>) w1
                       in (e \<noteq> MINI_KVM_SUCCESS, k, w')
                     else (False, k1, w1)) in
         if failed then run_cleanup env (error_code ret) out k2 w2
         else ro_bind (run_main_loop env stops (sig_status env deliver) k2 (run_set_signals env w2)) (\<lambda>(_, k3, w3).
           ro_bind (Some (if ra_name args \<noteq> None then rmrf env (fs_path k3) w3 else Inr (0, w3))) (\<lambda>(_, w4).
             run_cleanup env (error_code ret) out k3 w4))))"

section \<open>Lemmas\<close>

lemma main_loop_shutdown:
  assumes "main_loop env stops sigs kvm cmd res w = Some (Inr (k', w'))"
  shows "vm_state k' = MINI_KVM_SHUTDOWN"
proof -
  have "\<forall>k1 w1. Inr (k', w') = (Inr (k1, w1) :: (Kvm \<times> world) res) \<longrightarrow> vm_state k1 = MINI_KVM_SHUTDOWN"
    by (rule main_loop.raw_induct [where P = "\<lambda>_ _ _ _ _ _ _ y. \<forall>k1 w1. y = Inr (k1, w1) \<longrightarrow> vm_state k1 = MINI_KVM_SHUTDOWN",
          OF _ assms])
      (fastforce simp: Let_def split_beta res_iff split: if_splits)
  then show ?thesis by blast
qed

text \<open>The CPUs a machine gets one after the other.\<close>

definition booted_vcpu :: "u64 \<Rightarrow> nat \<Rightarrow> VCpu \<Rightarrow> bool" where
  "booted_vcpu msize i v \<longleftrightarrow> unat (vcpu_id v) = i \<and> rip (vcpu_regs v) = BOOTLOADER_ADDR
     \<and> rsp (vcpu_regs v) = msize - 1 \<and> vcpu_thread v = 0"

lemma fresh_vcpu_booted:
  "fresh_vcpu k v \<Longrightarrow> vec_size (vcpus k) < 2 ^ 32 \<Longrightarrow> booted_vcpu (mem_size k) (vec_size (vcpus k)) v"
  by (simp add: fresh_vcpu_def booted_vcpu_def boot_regs_def vec_size_def unat_ucast_u32)

lemma add_vcpus_appends:
  assumes "vec_grown (vcpus k)" and "vec_size (vcpus k) + n < 2 ^ 32"
  shows "\<exists>ret vs w' news. add_vcpus env n k w = Inr (ret, k\<lparr>vcpus := vs\<rparr>, w') \<and> vec_grown vs
    \<and> vec_list vs = vec_list (vcpus k) @ news
    \<and> (\<forall>i < length news. booted_vcpu (mem_size k) (vec_size (vcpus k) + i) (news ! i))
    \<and> (ret = MINI_KVM_SUCCESS \<and> length news = n \<or> ret = MINI_KVM_FAILED_VCPU_CREATION \<and> length news < n)"
  using assms
proof (induction n arbitrary: k w)
  case 0
  then show ?case by (intro exI [of _ MINI_KVM_SUCCESS] exI [of _ "vcpus k"] exI [of _ w] exI [of _ "[]"]) simp
next
  case (Suc n)
  have lim: "vec_size (vcpus k) < vec_limit" using Suc.prems(2) by (simp add: vec_limit_def)
  show ?case
  proof (rule add_vcpu_cases [OF Suc.prems(1) lim, where env = env and w = w])
    fix w' assume "mini_kvm_add_vcpu env (Some k) w = Inr (MINI_KVM_FAILED_VCPU_CREATION, Some k, w')"
    with Suc.prems(1) show ?thesis
      by (intro exI [of _ MINI_KVM_FAILED_VCPU_CREATION] exI [of _ "vcpus k"] exI [of _ w'] exI [of _ "[]"]) simp
  next
    fix v vs1 w1
    assume r: "mini_kvm_add_vcpu env (Some k) w = Inr (MINI_KVM_SUCCESS, Some (k\<lparr>vcpus := vs1\<rparr>), w1)"
      and v: "fresh_vcpu k v" and vs1: "vec_grown vs1" "vec_list vs1 = vec_list (vcpus k) @ [v]"
    have n1: "vec_size vs1 = Suc (vec_size (vcpus k))"
      using vs1 Suc.prems(1) by (simp add: cvec.size_elems)
    have b: "booted_vcpu (mem_size k) (vec_size (vcpus k)) v"
      using fresh_vcpu_booted [OF v] Suc.prems(2) by simp
    obtain ret vs w2 news where rec: "add_vcpus env n (k\<lparr>vcpus := vs1\<rparr>) w1 = Inr (ret, k\<lparr>vcpus := vs\<rparr>, w2)"
      "vec_grown vs" "vec_list vs = vec_list vs1 @ news"
      "\<forall>i < length news. booted_vcpu (mem_size k) (vec_size vs1 + i) (news ! i)"
      "ret = MINI_KVM_SUCCESS \<and> length news = n \<or> ret = MINI_KVM_FAILED_VCPU_CREATION \<and> length news < n"
      using Suc.IH [of "k\<lparr>vcpus := vs1\<rparr>" w1] vs1(1) n1 Suc.prems(2) by auto
    have "\<forall>i < length (v # news). booted_vcpu (mem_size k) (vec_size (vcpus k) + i) ((v # news) ! i)"
      using b rec(4) n1 by (auto simp: nth_Cons less_Suc_eq_0_disj)
    with r rec vs1(2) show ?thesis
      by (intro exI [of _ ret] exI [of _ vs] exI [of _ w2] exI [of _ "v # news"]) auto
  qed
qed

text \<open>\<open>mini_kvm_configure_paging\<close> with its result written out.\<close>

lemma configure_paging_success:
  assumes "mini_kvm_configure_paging env k w = Inr (MINI_KVM_SUCCESS, k', w')" and "vec_grown (vcpus k)"
    and "0 < vec_size (vcpus k)"
  obtains vs where "k' = k\<lparr>guest := boot_tables (guest k), vcpus := vs\<rparr>" and "vec_grown vs"
    and "vec_list vs = (vec_list (vcpus k))[0 := (vec_list (vcpus k) ! 0)
           \<lparr>vcpu_sregs := long_mode_sregs (vcpu_sregs (vec_list (vcpus k) ! 0))\<rparr>]"
    and "0x5000 \<le> sint (mem_size k)"
proof -
  let ?v = "vec_list (vcpus k) ! 0"
  let ?v1 = "?v\<lparr>vcpu_sregs := long_mode_sregs (vcpu_sregs ?v)\<rparr>"
  have p: "kvm_setup_pages k = Inr (MINI_KVM_SUCCESS, k\<lparr>guest := boot_tables (guest k)\<rparr>)"
    using assms(1) by (auto simp: mini_kvm_configure_paging_def setup_pages_eq split: if_splits)
  obtain vs where vs: "vec_put (vcpus k) 0 ?v1 = Inr vs" "vec_grown vs"
    "vec_list vs = (vec_list (vcpus k))[0 := ?v1]"
    using cvec.put_law [OF assms(2,3)] by blast
  have "k' = k\<lparr>guest := boot_tables (guest k), vcpus := vs\<rparr>"
    using assms(1) p vs(1) cvec.get_law [OF assms(2,3)]
    by (auto simp: mini_kvm_configure_paging_def Let_def split_beta split: if_splits)
  moreover have "0x5000 \<le> sint (mem_size k)"
    using assms(1) by (auto simp: mini_kvm_configure_paging_def setup_pages_eq split: if_splits)
  ultimately show thesis by (rule that [OF _ vs(2,3)])
qed

lemma load_kernel_success:
  assumes "load_kernel (Some k) code addr = Inr (MINI_KVM_SUCCESS, k')"
  obtains bs where "code = Some bs" and "bs \<noteq> []" and "unat addr + length bs \<le> unat (mem_size k)"
    and "k' = Some (k\<lparr>guest := guest_write (unat addr) bs (guest k)\<rparr>)"
  using assms by (auto simp: load_kernel_def mem_write_def res_iff split: option.splits if_splits)

text \<open>The steps of a boot that succeeds: what is in memory at the end and which CPUs there are.\<close>

lemma run_boot_phases:
  assumes "run_boot env cpuid args kvm w = Inr (MINI_KVM_SUCCESS, k, w')"
    and "0 < ra_vcpu args" and "unat (ra_vcpu args) < 2 ^ 32 - 1"
  obtains news bs m where "length news = unat (ra_vcpu args)" and "news \<noteq> []"
    and "\<forall>i < length news. booted_vcpu (ra_mem_size args) i (news ! i)"
    and "vec_list (vcpus k) = news[0 := (news ! 0)\<lparr>vcpu_sregs := long_mode_sregs (vcpu_sregs (news ! 0))\<rparr>]"
    and "guest k = guest_write 0x4000 bs (boot_tables m)" and "kernel_code args = Some bs" and "bs \<noteq> []"
    and "mem_size k = ra_mem_size args" and "vec_grown (vcpus k)" and "paused k = 0" and "\<not> pause_lock k"
    and "0x5000 \<le> sint (ra_mem_size args)"
proof -
  obtain k1 w1 where s1: "mini_kvm_setup_kvm env cpuid kvm (ra_mem_size args) w = (MINI_KVM_SUCCESS, k1, w1)"
    using assms(1) by (cases "mini_kvm_setup_kvm env cpuid kvm (ra_mem_size args) w") (auto simp: run_boot_def split: if_splits)
  note e1 = setup_kvm_established [OF s1] setup_kvm_unlocked [OF s1]
  have n0: "vec_size (vcpus k1) = 0" using e1 by (simp add: cvec.size_elems)
  obtain ret vs w2 news where s2: "add_vcpus env (unat (ra_vcpu args)) k1 w1 = Inr (ret, k1\<lparr>vcpus := vs\<rparr>, w2)"
    "vec_grown vs" "vec_list vs = vec_list (vcpus k1) @ news"
    "\<forall>i < length news. booted_vcpu (mem_size k1) (vec_size (vcpus k1) + i) (news ! i)"
    "ret = MINI_KVM_SUCCESS \<and> length news = unat (ra_vcpu args)
      \<or> ret = MINI_KVM_FAILED_VCPU_CREATION \<and> length news < unat (ra_vcpu args)"
    using add_vcpus_appends [of k1 "unat (ra_vcpu args)" env w1] e1 n0 assms(3) by auto
  let ?k2 = "k1\<lparr>vcpus := vs\<rparr>"
  obtain k3 w3 ko where ret: "ret = MINI_KVM_SUCCESS"
    and s3: "mini_kvm_configure_paging env ?k2 w2 = Inr (MINI_KVM_SUCCESS, k3, w3)"
    and s4: "load_kernel (Some k3) (kernel_code args) BOOTLOADER_ADDR = Inr (MINI_KVM_SUCCESS, ko)"
    and k: "k = (case ko of None \<Rightarrow> k3 | Some x \<Rightarrow> x)"
    using assms(1) s1 s2(1) by (auto simp: run_boot_def res_iff split: if_splits)
  have list: "vec_list vs = news" "length news = unat (ra_vcpu args)" using s2(3,5) e1 ret by simp_all
  have pos: "0 < vec_size (vcpus ?k2)"
    using list s2(2) assms(2) by (simp add: cvec.size_elems word_less_nat_alt)
  obtain vs' where s3': "k3 = ?k2\<lparr>guest := boot_tables (guest ?k2), vcpus := vs'\<rparr>"
    "vec_list vs' = (vec_list (vcpus ?k2))[0 := (vec_list (vcpus ?k2) ! 0)
       \<lparr>vcpu_sregs := long_mode_sregs (vcpu_sregs (vec_list (vcpus ?k2) ! 0))\<rparr>]" "vec_grown vs'"
    "0x5000 \<le> sint (mem_size ?k2)"
    using configure_paging_success [OF s3 _ pos] s2(2) by auto
  obtain bs where s4': "kernel_code args = Some bs" "bs \<noteq> []"
    "ko = Some (k3\<lparr>guest := guest_write (unat BOOTLOADER_ADDR) bs (guest k3)\<rparr>)"
    by (rule load_kernel_success [OF s4])
  have k': "k = k3\<lparr>guest := guest_write 0x4000 bs (guest k3)\<rparr>" using k s4'(3) by simp
  show thesis
    by (rule that [of news bs "guest k1"])
      (use s2(4) s3' list s4'(1,2) n0 e1 assms(2) in \<open>auto simp: k' word_less_nat_alt\<close>)
qed

text \<open>On a host where every call succeeds the boot succeeds.\<close>

lemma configure_paging_boots:
  assumes "vec_grown (vcpus k)" and "0 < vec_size (vcpus k)" and "mem k \<noteq> 0" and "0x5000 \<le> sint (mem_size k)" and "boots env"
  shows "\<exists>vs w'. mini_kvm_configure_paging env k w
    = Inr (MINI_KVM_SUCCESS, k\<lparr>guest := boot_tables (guest k), vcpus := vs\<rparr>, w')"
proof -
  let ?v = "vec_list (vcpus k) ! 0"
  obtain vs where "vec_put (vcpus k) 0 (?v\<lparr>vcpu_sregs := long_mode_sregs (vcpu_sregs ?v)\<rparr>) = Inr vs"
    using cvec.put_law [OF assms(1,2)] by blast
  with cvec.get_law [OF assms(1,2)] assms(3,4) show ?thesis
    by (intro exI [of _ vs]) (simp add: mini_kvm_configure_paging_def setup_pages_eq os_call_boots [OF assms(5)])
qed

lemma one_cpu_boots:
  assumes "vec_grown (vcpus k)" and "vec_size (vcpus k) = 0" and "boots env"
  shows "\<exists>vs w'. add_vcpus env 1 k w = Inr (MINI_KVM_SUCCESS, k\<lparr>vcpus := vs\<rparr>, w') \<and> vec_grown vs \<and> vec_size vs = 1"
proof -
  obtain k' w' where s: "mini_kvm_add_vcpu env (Some k) w = Inr (MINI_KVM_SUCCESS, Some k', w')"
    using add_vcpu_boots [OF assms(1) _ assms(3), of w] assms(2) by (auto simp: vec_limit_def)
  obtain vs w1 news where a: "add_vcpus env 1 k w = Inr (MINI_KVM_SUCCESS, k\<lparr>vcpus := vs\<rparr>, w1)" "vec_grown vs"
    "vec_list vs = vec_list (vcpus k) @ news" "length news = 1"
    using add_vcpus_appends [OF assms(1), of 1 env w] assms(2) s by auto
  moreover have "vec_size vs = 1" using a assms by (simp add: cvec.size_elems)
  ultimately show ?thesis by blast
qed

lemma run_boot_succeeds:
  assumes "boots env" and "ra_vcpu args = 1" and "0x5000 \<le> sint (ra_mem_size args)" and "kernel_code args = Some bs"
    and "bs \<noteq> []" and "0x4000 + length bs \<le> unat (ra_mem_size args)"
  shows "\<exists>k w'. run_boot env intel_cpuid args zero_kvm w = Inr (MINI_KVM_SUCCESS, k, w')"
proof -
  have "ra_mem_size args \<noteq> 0" using assms(3) by auto
  then obtain k1 w1 where s1: "mini_kvm_setup_kvm env intel_cpuid zero_kvm (ra_mem_size args) w = (MINI_KVM_SUCCESS, k1, w1)"
    and m: "mem k1 \<noteq> 0" "mem_size k1 = ra_mem_size args"
    by (simp add: mini_kvm_setup_kvm_def setup_memory_def kvm_setup_irq_def setup_intel_def
        MINI_KVM_CAPS_def os_call_boots [OF assms(1)] Let_def split_beta)
  have "vec_grown (vcpus k1)" "vec_size (vcpus k1) = 0"
    using setup_kvm_established [OF s1] by (simp_all add: cvec.size_elems)
  then obtain vs w2 where s2: "add_vcpus env 1 k1 w1 = Inr (MINI_KVM_SUCCESS, k1\<lparr>vcpus := vs\<rparr>, w2)"
    "vec_grown vs" "vec_size vs = 1"
    using one_cpu_boots [OF _ _ assms(1)] by blast
  obtain vs' w3 where s3: "mini_kvm_configure_paging env (k1\<lparr>vcpus := vs\<rparr>) w2
      = Inr (MINI_KVM_SUCCESS, k1\<lparr>vcpus := vs, guest := boot_tables (guest k1), vcpus := vs'\<rparr>, w3)"
    using configure_paging_boots [of "k1\<lparr>vcpus := vs\<rparr>" env w2] s2 m assms(1,3) by auto
  show ?thesis
    using s1 s2(1) s3 m assms(2,4-6) by (simp add: run_boot_def load_kernel_eq)
qed

text \<open>A boot with one CPU, five pages and a kernel of one instruction, for the witnesses.\<close>

lemma run_boot_boots:
  assumes "boots env" and "ra_vcpu args = 1" and "ra_mem_size args = 0x5000" and "kernel_code args = Some [0xf4]"
  shows "\<exists>k w'. run_boot env intel_cpuid args zero_kvm w = Inr (MINI_KVM_SUCCESS, k, w')"
  using run_boot_succeeds [OF assms(1,2) _ assms(4)] assms(3) by simp

definition boot_args :: MiniKvmRunArgs where
  "boot_args = (zero_run_args initial_logger fresh_world)\<lparr>ra_vcpu := 1, ra_mem_size := 0x5000, kernel_code := Some [0xf4]\<rparr>"

lemma run_boot_linux_ok:
  "\<exists>k w'. run_boot linux_ok intel_cpuid boot_args zero_kvm fresh_world = Inr (MINI_KVM_SUCCESS, k, w')"
  using run_boot_boots [OF boots_linux_ok] by (simp add: boot_args_def)

lemma check_signals_shutdown:
  assumes "vec_ok (vcpus k)" and "sigs (trace w) = SIGINT \<or> sigs (trace w) = SIGTERM"
  obtains w' where "check_signals env sigs k w = Inr (k\<lparr>vm_state := MINI_KVM_SHUTDOWN\<rparr>, w')"
    and "trace w' = trace w @ map (\<lambda>v. Pthread_kill (vcpu_thread v) SIGVMSHUTDOWN) (vec_list (vcpus k))"
proof (rule send_sig_ok [of "k\<lparr>vm_state := MINI_KVM_SHUTDOWN\<rparr>" env SIGVMSHUTDOWN w])
  fix w' assume "mini_kvm_send_sig env (k\<lparr>vm_state := MINI_KVM_SHUTDOWN\<rparr>) SIGVMSHUTDOWN w = Inr w'"
    "trace w' = trace w @ map (\<lambda>v. Pthread_kill (vcpu_thread v) SIGVMSHUTDOWN)
      (vec_list (vcpus (k\<lparr>vm_state := MINI_KVM_SHUTDOWN\<rparr>)))"
  with assms(2) show thesis by (intro that [of w']) (auto simp: check_signals_def Let_def)
qed (use assms(1) in simp)

lemma main_loop_done:
  "main_loop env stops sigs (kvm\<lparr>vm_state := MINI_KVM_SHUTDOWN\<rparr>) cmd res w = Some (Inr (kvm\<lparr>vm_state := MINI_KVM_SHUTDOWN\<rparr>, w))"
  by (subst main_loop.simps) (simp add: observe_def)

text \<open>One round without a client.\<close>

lemma main_loop_idle_round:
  fixes w :: world and kvm :: Kvm
  assumes "\<And>h d. env h (Accept d) = \<lparr>rv = -1, rerr = EAGAIN, rdata = No_data\<rparr>"
    and "\<And>h. \<not> stops h" and "vm_state kvm \<noteq> MINI_KVM_SHUTDOWN"
  defines "w1 \<equiv> w\<lparr>errno := EAGAIN, trace := trace w @ [Accept (sock kvm)]\<rparr>"
  shows "main_loop env stops sigs kvm cmd res w =
    ro_bind (Some (check_signals env sigs kvm w1)) (\<lambda>(k3, w3). main_loop env stops sigs k3 cmd res w3)"
  using assms by (subst main_loop.simps) (simp add: observe_def mini_kvm_ipc_receive_cmd_def os_call_def)

lemma main_loop_signalled:
  assumes "\<And>h d. env h (Accept d) = \<lparr>rv = -1, rerr = EAGAIN, rdata = No_data\<rparr>" and "\<And>h. \<not> stops h"
    and "\<And>h. prefix b h \<Longrightarrow> late \<le> length h \<Longrightarrow> sigs h = SIGINT \<or> sigs h = SIGTERM"
    and "vec_ok (vcpus kvm)" and "vm_state kvm \<noteq> MINI_KVM_SHUTDOWN" and "prefix b (trace w)"
  shows "\<exists>w' m. main_loop env stops sigs kvm cmd res w = Some (Inr (kvm\<lparr>vm_state := MINI_KVM_SHUTDOWN\<rparr>, w'))
    \<and> trace w' = trace w @ replicate m (Accept (sock kvm)) @ map (\<lambda>v. Pthread_kill (vcpu_thread v) SIGVMSHUTDOWN) (vec_list (vcpus kvm))"
  using assms(6)
proof (induction "late - length (trace w)" arbitrary: w rule: less_induct)
  case less
  define w1 where "w1 = w\<lparr>errno := EAGAIN, trace := trace w @ [Accept (sock kvm)]\<rparr>"
  have step: "main_loop env stops sigs kvm cmd res w =
      ro_bind (Some (check_signals env sigs kvm w1)) (\<lambda>(k3, w3). main_loop env stops sigs k3 cmd res w3)"
    unfolding w1_def by (rule main_loop_idle_round [where env = env and stops = stops, OF assms(1,2,5)])
  show ?case
  proof (cases "sigs (trace w1) = SIGINT \<or> sigs (trace w1) = SIGTERM")
    case True
    obtain w2 where w2: "check_signals env sigs kvm w1 = Inr (kvm\<lparr>vm_state := MINI_KVM_SHUTDOWN\<rparr>, w2)"
      "trace w2 = trace w1 @ map (\<lambda>v. Pthread_kill (vcpu_thread v) SIGVMSHUTDOWN) (vec_list (vcpus kvm))"
      by (rule check_signals_shutdown [of kvm sigs w1 env]) (use assms(4) True in auto)
    with step show ?thesis by (intro exI [of _ w2] exI [of _ 1]) (simp add: w1_def main_loop_done)
  next
    case False
    then have c: "check_signals env sigs kvm w1 = Inr (kvm, w1)" by (simp add: check_signals_def)
    have b: "prefix b (trace w1)" using less.prems by (simp add: w1_def)
    then have "length (trace w1) < late" using False assms(3) [of "trace w1"] not_le by blast
    then have "late - length (trace w1) < late - length (trace w)" by (simp add: w1_def)
    from less.hyps [OF this b] obtain w' m where "main_loop env stops sigs kvm cmd res w1 = Some (Inr (kvm\<lparr>vm_state := MINI_KVM_SHUTDOWN\<rparr>, w'))"
      "trace w' = trace w1 @ replicate m (Accept (sock kvm)) @ map (\<lambda>v. Pthread_kill (vcpu_thread v) SIGVMSHUTDOWN) (vec_list (vcpus kvm))"
      by blast
    with c step show ?thesis by (intro exI [of _ w'] exI [of _ "Suc m"]) (simp add: w1_def)
  qed
qed

text \<open>The same when a CPU thread stops the machine.\<close>

lemma main_loop_stopped:
  assumes "\<And>h d. env h (Accept d) = \<lparr>rv = -1, rerr = EAGAIN, rdata = No_data\<rparr>" and "\<And>h. length h = late \<Longrightarrow> stops h"
    and "\<And>h. sigs h \<noteq> SIGINT \<and> sigs h \<noteq> SIGTERM" and "length (trace w) \<le> late"
    and "vm_state kvm \<noteq> MINI_KVM_SHUTDOWN"
  shows "\<exists>w' m. main_loop env stops sigs kvm cmd res w = Some (Inr (kvm\<lparr>vm_state := MINI_KVM_SHUTDOWN\<rparr>, w'))
    \<and> trace w' = trace w @ replicate m (Accept (sock kvm))"
  using assms(4)
proof (induction "late - length (trace w)" arbitrary: w rule: less_induct)
  case less
  define w1 where "w1 = w\<lparr>errno := EAGAIN, trace := trace w @ [Accept (sock kvm)]\<rparr>"
  show ?case
  proof (cases "stops (trace w)")
    case True
    then have "main_loop env stops sigs kvm cmd res w = Some (Inr (kvm\<lparr>vm_state := MINI_KVM_SHUTDOWN\<rparr>, w))"
      by (subst main_loop.simps) (simp add: observe_def)
    then show ?thesis by (intro exI [of _ w] exI [of _ 0]) simp
  next
    case False
    then have o: "observe stops kvm w = kvm" by (simp add: observe_def)
    have late: "length (trace w) < late" using False assms(2) [of "trace w"] less.prems le_neq_implies_less by blast
    have "mini_kvm_ipc_receive_cmd env kvm w = (0, w1)" using assms(1) by (simp add: mini_kvm_ipc_receive_cmd_def os_call_def w1_def)
    then have step: "main_loop env stops sigs kvm cmd res w = main_loop env stops sigs (observe stops kvm w1) cmd res w1"
      using o assms(3,5) by (subst main_loop.simps) (simp add: check_signals_def)
    show ?thesis
    proof (cases "stops (trace w1)")
      case True
      then show ?thesis using step by (intro exI [of _ w1] exI [of _ 1]) (simp add: observe_def main_loop_done w1_def)
    next
      case False
      with assms(2) [of "trace w1"] late have "length (trace w1) \<le> late" by (auto simp: w1_def)
      moreover from this late have "late - length (trace w1) < late - length (trace w)" by (simp add: w1_def)
      ultimately obtain w' m where "main_loop env stops sigs kvm cmd res w1 = Some (Inr (kvm\<lparr>vm_state := MINI_KVM_SHUTDOWN\<rparr>, w'))"
        "trace w' = trace w1 @ replicate m (Accept (sock kvm))"
        using less.hyps [of w1] by blast
      with step False show ?thesis by (intro exI [of _ w'] exI [of _ "Suc m"]) (simp add: observe_def w1_def)
    qed
  qed
qed

text \<open>The status once both handlers are installed and a signal has arrived.\<close>

lemma sig_status_Nil [simp]: "sig_status env deliver [] = 0"
  by (simp add: sig_status_def signal_arrives_def has_handler_def split: option.split)

lemma sig_status_snoc: "sig_status env deliver (h @ [c]) = signal_arrives env deliver (h @ [c]) (sig_status env deliver h)"
  by (simp add: sig_status_def)

lemma has_handler_append: "has_handler env n h \<Longrightarrow> has_handler env n (h @ cs)"
  by (fastforce simp: has_handler_def nth_append)

lemma sig_status_none: "(\<And>h. deliver h = None) \<Longrightarrow> sig_status env deliver h = 0"
  by (induction h rule: rev_induct) (simp_all add: sig_status_snoc signal_arrives_def)

lemma set_signals_handlers:
  assumes "\<And>h n. 0 \<le> rv (env h (Signal n))"
  shows "has_handler env SIGINT (trace (run_set_signals env w))" "has_handler env SIGTERM (trace (run_set_signals env w))"
  using assms
  by (auto simp: has_handler_def run_set_signals_def split_beta nth_append
      intro: exI [of _ "length (trace w)"] exI [of _ "Suc (length (trace w))"])

lemma sig_status_stays:
  assumes "has_handler env SIGINT b" and "has_handler env SIGTERM b"
    and "\<And>h. deliver h \<in> {None, Some SIGINT, Some SIGTERM}"
    and "\<And>h. length h = late \<Longrightarrow> deliver h \<noteq> None" and "length b \<le> late" and "late \<le> length h" and "prefix b h"
  shows "sig_status env deliver h = SIGINT \<or> sig_status env deliver h = SIGTERM"
  using assms(6,7)
proof (induction h rule: rev_induct)
  case Nil
  with assms(1) show ?case by (simp add: has_handler_def)
next
  case (snoc c h)
  have hs: "has_handler env SIGINT (h @ [c])" "has_handler env SIGTERM (h @ [c])"
    using snoc.prems(2) assms(1,2) has_handler_append by (metis prefix_def)+
  show ?case
  proof (cases "deliver (h @ [c])")
    case None
    then have l: "late \<le> length h" using assms(4) [of "h @ [c]"] snoc.prems(1) by (auto simp: le_Suc_eq)
    with assms(5) snoc.prems(2) have "prefix b h" by (auto simp: prefix_snoc)
    with snoc.IH [OF l] None show ?thesis by (simp add: sig_status_snoc signal_arrives_def)
  next
    case (Some n)
    with assms(3) [of "h @ [c]"] hs show ?thesis by (auto simp: sig_status_snoc signal_arrives_def set_signal_status_def)
  qed
qed

text \<open>What is written among some calls, in order.\<close>

fun writes :: "syscall list \<Rightarrow> u8 list list" where
  "writes [] = []"
| "writes (Write fd bs # cs) = bs # writes cs"
| "writes (_ # cs) = writes cs"

lemma writes_append [simp]: "writes (cs @ ds) = writes cs @ writes ds"
  by (induction cs rule: writes.induct) simp_all

text \<open>The directory of the machine exists, and its pid file can be opened and names a process that exists.\<close>

definition name_in_use :: "env \<Rightarrow> string \<Rightarrow> int \<Rightarrow> bool" where
  "name_in_use env name pid \<longleftrightarrow> (\<forall>h. rv (env h (Stat (MINI_KVM_FS_ROOT_PATH @ ''/'' @ name))) = 0)
     \<and> (\<forall>h d. 0 < rv (env h (Openat d (name @ ''.pid'') O_RDONLY)))
     \<and> (\<forall>h d. rv (env h (Read d 4)) = 4 \<and> rdata (env h (Read d 4)) = Bytes (int32_bytes pid))
     \<and> - (2 ^ 31) \<le> pid \<and> pid < 2 ^ 31 \<and> (\<forall>h. rv (env h (Kill pid 0)) = 0)"

lemma make_root_calls:
  "make_root env w = (e, w') \<Longrightarrow> (\<exists>cs. trace w' = trace w @ cs \<and> writes cs = [])
    \<and> (e = MINI_KVM_SUCCESS \<or> e = MINI_KVM_FAILED_FS_SETUP)"
  by (auto simp: make_root_def Let_def split_beta split: if_splits)

lemma pidfile_alive_calls:
  "pidfile_alive env d p w = (alive, w') \<Longrightarrow> \<exists>cs. trace w' = trace w @ cs \<and> writes cs = []"
  by (auto simp: pidfile_alive_def Let_def split_beta split: if_splits)

lemma name_in_use_alive:
  assumes "name_in_use env name pid"
  shows "fst (pidfile_alive env d (name @ ''.pid'') w)"
proof -
  have "bytes_int32 (read_over (int32_bytes 0) (env h (Read f 4))) = pid" for h f
  proof -
    have "rv (env h (Read f 4)) = int (length (int32_bytes 0))" "rdata (env h (Read f 4)) = Bytes (int32_bytes pid)"
      using assms by (simp_all add: name_in_use_def)
    then have "read_over (int32_bytes 0) (env h (Read f 4)) = int32_bytes pid"
      by (rule read_over_whole) (simp_all flip: length_greater_0_conv)
    then show ?thesis using assms by (simp add: name_in_use_def bytes_int32_int32_bytes)
  qed
  then show ?thesis using assms by (simp add: pidfile_alive_def name_in_use_def Let_def split_beta)
qed

lemma write_pidfile_calls:
  assumes "write_pidfile env d p w = (e, w')"
  obtains f where "e = MINI_KVM_SUCCESS" and "f = rv (env (trace w) (Openat d p O_CREAT_TRUNC_WRONLY))" and "0 \<le> f"
    and "trace w' = trace w @ [Openat d p O_CREAT_TRUNC_WRONLY, Getpid,
      Write f (int32_bytes (rv (env (trace w @ [Openat d p O_CREAT_TRUNC_WRONLY]) Getpid))), Close f]"
  | "e = MINI_KVM_FAILED_FS_SETUP" and "trace w' = trace w @ [Openat d p O_CREAT_TRUNC_WRONLY]"
  using assms that by (auto simp: write_pidfile_def Let_def split_beta split: if_splits)

text \<open>The directory part of \<open>init_filesystem\<close>: what precedes the pid file writes nothing.\<close>

lemma init_filesystem_cases:
  assumes "init_filesystem env name kvm w = (e, k, w')"
  obtains cs where "trace w' = trace w @ cs" and "writes cs = []" and "e = MINI_KVM_FAILED_FS_SETUP"
  | w7 cs w8 d where "trace w7 = trace w @ cs" and "writes cs = []"
    and "write_pidfile env (fs_fd k) (name @ ''.pid'') w7 = (e, w8)" and "w' = snd (os_call env (Close d) w8)"
    and "fs_path k = Some (MINI_KVM_FS_ROOT_PATH @ ''/'' @ name)" and "0 \<le> fs_fd k"
    and "\<And>pid. \<not> name_in_use env name pid"
proof -
  let ?root = MINI_KVM_FS_ROOT_PATH and ?path = "MINI_KVM_FS_ROOT_PATH @ ''/'' @ name"
  obtain e1 w2 where m: "make_root env w = (e1, w2)" by fastforce
  obtain r3 w3 where c3: "os_call env (Stat ?path) w2 = (r3, w3)" by fastforce
  obtain r4 w4 where c4: "os_call env (Open ?root O_DIRECTORY) w3 = (r4, w4)" by fastforce
  obtain r5 w5 where c5: "os_call env (Mkdirat (rv r4) name) w4 = (r5, w5)" by fastforce
  obtain r6 w6 where c6: "os_call env (Openat (rv r4) name O_DIRECTORY) w5 = (r6, w6)" by fastforce
  define k1 where "k1 = kvm\<lparr>fs_path := Some ?path, fs_fd := rv r6\<rparr>"
  obtain alive w7 where p: "(if rv r3 = 0 then pidfile_alive env (rv r6) (name @ ''.pid'') w6 else (False, w6))
      = (alive, w7)" by fastforce
  obtain e8 w8 where q: "write_pidfile env (rv r6) (name @ ''.pid'') w7 = (e8, w8)" by fastforce
  have t2: "\<exists>cs. trace w2 = trace w @ cs \<and> writes cs = []" and e1: "e1 = MINI_KVM_SUCCESS \<or> e1 = MINI_KVM_FAILED_FS_SETUP"
    using make_root_calls [OF m] by simp_all
  then have t6: "\<exists>cs. trace w6 = trace w @ cs \<and> writes cs = []"
    using c3 c4 c5 c6 [THEN os_call_eq_trace] by (auto dest!: os_call_eq_trace)
  have t7: "\<exists>cs. trace w7 = trace w @ cs \<and> writes cs = []"
    using p t6 pidfile_alive_calls [of env "rv r6" "name @ ''.pid''" w6 alive w7] by (auto split: if_splits)
  have eq: "init_filesystem env name kvm w =
      (if e1 \<noteq> MINI_KVM_SUCCESS then (e1, kvm, w2)
       else if rv r6 < 0 then (MINI_KVM_FAILED_FS_SETUP, k1, snd (os_call env (Close (rv r4)) w6))
       else if alive then (MINI_KVM_FAILED_FS_SETUP, k1, snd (os_call env (Close (rv r4)) w7))
       else (e8, k1, snd (os_call env (Close (rv r4)) w8)))"
    unfolding init_filesystem_def m Let_def prod.case c3 c4 c5 c6 k1_def using p q
    by (cases "e1 = MINI_KVM_SUCCESS"; cases "rv r6 < 0"; cases "rv r3 = 0"; simp del: MINI_KVM_FS_ROOT_PATH_def)
  have quiet: "alive" if "name_in_use env name pid" for pid
    using p that name_in_use_alive [OF that, of "rv r6" w6] c3 os_call_fst [of env "Stat ?path" w2]
    by (simp add: name_in_use_def del: MINI_KVM_FS_ROOT_PATH_def)
  consider (refused) w0 where "w' = w0" "e = MINI_KVM_FAILED_FS_SETUP" "\<exists>cs. trace w0 = trace w @ cs \<and> writes cs = []"
    | (pid) "e = e8" "k = k1" "w' = snd (os_call env (Close (rv r4)) w8)" "0 \<le> rv r6" "\<not> alive"
    using assms t2 t6 t7 e1 unfolding eq by (simp split: if_splits) force+
  then show thesis
  proof cases
    case refused
    then show thesis using that(1) by blast
  next
    case pid
    from t7 obtain cs where cs: "trace w7 = trace w @ cs" "writes cs = []" by blast
    show thesis
      by (rule that(2) [of w7 cs w8 "rv r4"]) (use cs pid q quiet in \<open>auto simp: k1_def\<close>)
  qed
qed

text \<open>What the last steps before the main loop keep of the machine.\<close>

lemma init_filesystem_frame:
  "init_filesystem env name kvm w = (MINI_KVM_SUCCESS, k, w') \<Longrightarrow>
    k = kvm\<lparr>fs_path := Some (MINI_KVM_FS_ROOT_PATH @ ''/'' @ name), fs_fd := fs_fd k\<rparr>"
  by (auto simp: init_filesystem_def Let_def split_beta split: if_splits)

lemma create_socket_frame:
  "mini_kvm_ipc_create_socket env kvm w = Inr (e, k, w') \<Longrightarrow> k = kvm\<lparr>sock := sock k\<rparr>"
  by (auto simp: mini_kvm_ipc_create_socket_def Let_def split_beta res_iff split: if_splits)

lemma create_socket_extends:
  "mini_kvm_ipc_create_socket env kvm w = Inr (e, k, w') \<Longrightarrow> prefix (trace w) (trace w')"
  by (auto simp: mini_kvm_ipc_create_socket_def Let_def split_beta res_iff split: if_splits)

lemma start_vm_frame:
  assumes "mini_kvm_start_vm env (Some k) w = Inr (MINI_KVM_SUCCESS, Some k', w')" and "vec_grown (vcpus k)"
  obtains vs where "k' = k\<lparr>vcpus := vs, vm_state := MINI_KVM_RUNNING\<rparr>" and "vec_grown vs" and "prefix (trace w) (trace w')"
proof -
  obtain ret vs w1 n where "start_vcpus env k [0..<vec_size (vcpus k)] w = Inr (ret, k\<lparr>vcpus := vs\<rparr>, w1)" "vec_grown vs"
    "trace w1 = trace w @ map Pthread_create (take n [0..<vec_size (vcpus k)])"
    using start_vcpus_ok [OF assms(2), of "[0..<vec_size (vcpus k)]" env w] by auto
  with assms(1) that show thesis by (auto simp: mini_kvm_start_vm_def split: if_splits)
qed

lemma run_parse_args_vcpu: "run_parse_args env argv st w = Inr args \<Longrightarrow> 0 < ra_vcpu args"
  by (auto simp: run_parse_args_def res_iff word_neq_0_conv)

text \<open>The machine the main loop starts with.\<close>

lemma machine_before_loop:
  assumes "run_boot env cpuid args zero_kvm w = Inr (MINI_KVM_SUCCESS, k1, w1)"
    and "0 < ra_vcpu args" and "unat (ra_vcpu args) < 2 ^ 32 - 1"
    and "init_filesystem env n (k1\<lparr>kvm_name := Some n\<rparr>) w1 = (MINI_KVM_SUCCESS, k2, w2)"
    and "mini_kvm_ipc_create_socket env k2 w2' = Inr (MINI_KVM_SUCCESS, k3, w3)"
    and "mini_kvm_start_vm env (Some k3) w3 = Inr (MINI_KVM_SUCCESS, Some k4, w4)"
  shows "vec_ok (vcpus k4)" and "vm_state k4 \<noteq> MINI_KVM_SHUTDOWN"
    and "fs_path k4 = Some (MINI_KVM_FS_ROOT_PATH @ ''/'' @ n)" and "kvm_name k4 = Some n"
    and "prefix (trace w2') (trace w4)"
proof -
  have "vec_grown (vcpus k1)"
    by (rule run_boot_phases [OF assms(1-3)])
  have k2: "k2 = k1\<lparr>kvm_name := Some n, fs_path := Some (MINI_KVM_FS_ROOT_PATH @ ''/'' @ n), fs_fd := fs_fd k2\<rparr>"
    using init_filesystem_frame [OF assms(4)] by simp
  have k3: "k3 = k2\<lparr>sock := sock k3\<rparr>" by (rule create_socket_frame [OF assms(5)])
  have "vcpus k3 = vcpus k2" "vcpus k2 = vcpus k1" by (subst k3, simp, subst k2, simp)
  with \<open>vec_grown (vcpus k1)\<close> have g3: "vec_grown (vcpus k3)" by simp
  obtain vs where k4: "k4 = k3\<lparr>vcpus := vs, vm_state := MINI_KVM_RUNNING\<rparr>" and "vec_grown vs" and p: "prefix (trace w3) (trace w4)"
    by (rule start_vm_frame [OF assms(6) g3])
  show "prefix (trace w2') (trace w4)" using create_socket_extends [OF assms(5)] p by (rule prefix_order.trans)
  from k4 \<open>vec_grown vs\<close> show "vec_ok (vcpus k4)" "vm_state k4 \<noteq> MINI_KVM_SHUTDOWN" by (simp_all add: vec_grown_def)
  have "fs_path k3 = fs_path k2" "kvm_name k3 = kvm_name k2" by (subst k3, simp)+
  moreover have "fs_path k2 = Some (MINI_KVM_FS_ROOT_PATH @ ''/'' @ n)" "kvm_name k2 = Some n"
    by (subst k2, simp del: MINI_KVM_FS_ROOT_PATH_def)+
  ultimately show "fs_path k4 = Some (MINI_KVM_FS_ROOT_PATH @ ''/'' @ n)" "kvm_name k4 = Some n"
    by (simp_all add: k4 del: MINI_KVM_FS_ROOT_PATH_def)
qed

text \<open>The whole command when every step before the main loop succeeds.\<close>

text \<open>
  The program reaches its main loop with the machine \<open>k\<close> of the name \<open>n\<close> after the calls of \<open>w4\<close>; its signal
  handlers are installed after the calls \<open>b\<close>.
\<close>

definition run_starts ::
  "env \<Rightarrow> cpuid_insn \<Rightarrow> string list \<Rightarrow> LoggerState \<Rightarrow> world \<Rightarrow> MiniKvmRunArgs \<Rightarrow> string \<Rightarrow> Kvm \<Rightarrow> syscall list \<Rightarrow> world \<Rightarrow> bool" where
  "run_starts env cpuid argv st w args n k b w4 \<longleftrightarrow>
     run_parse_args env argv st w = Inr args \<and> ra_ret args = 0 \<and> ra_name args = Some n \<and> n \<noteq> []
     \<and> unat (ra_vcpu args) < 2 ^ 32 - 1
     \<and> (\<exists>k1 w1 k2 w2 k3 w3. run_boot env cpuid args zero_kvm (ra_world args) = Inr (MINI_KVM_SUCCESS, k1, w1)
         \<and> init_filesystem env n (k1\<lparr>kvm_name := Some n\<rparr>) w1 = (MINI_KVM_SUCCESS, k2, w2)
         \<and> mini_kvm_ipc_create_socket env k2 (run_set_signals env w2) = Inr (MINI_KVM_SUCCESS, k3, w3)
         \<and> mini_kvm_start_vm env (Some k3) w3 = Inr (MINI_KVM_SUCCESS, Some k, w4)
         \<and> b = trace (run_set_signals env w2))"

lemma run_starts_machine:
  assumes "run_starts env cpuid argv st w args n k b w4"
  shows "vec_ok (vcpus k)" and "vm_state k \<noteq> MINI_KVM_SHUTDOWN" and "fs_path k = Some (MINI_KVM_FS_ROOT_PATH @ ''/'' @ n)"
    and "kvm_name k = Some n" and "prefix b (trace w4)" and "\<exists>w2. b = trace (run_set_signals env w2)"
  using assms machine_before_loop run_parse_args_vcpu unfolding run_starts_def by (metis, metis, metis, metis, metis, blast)

text \<open>What is called after the main loop.\<close>

definition end_calls :: "Kvm \<Rightarrow> string \<Rightarrow> string list \<Rightarrow> syscall list" where
  "end_calls k path rs = Ftw path # map Remove rs @ concat (map vcpu_release (vec_list (vcpus k))) @ [Close (fs_fd k)]
     @ (if mem k \<noteq> 0 then [Munmap (mem k) (mem_size k)] else []) @ [Close (kvm_fd k), Close (vm_fd k)]"

lemma run_after_loop:
  fixes n :: string
  assumes "run_starts env cpuid argv st w args n k b w4"
    and "main_loop env stops (sig_status env deliver) k zero_command zero_result w4 = Some (Inr (k\<lparr>vm_state := MINI_KVM_SHUTDOWN\<rparr>, w5))"
  defines "path \<equiv> MINI_KVM_FS_ROOT_PATH @ ''/'' @ n"
  shows "\<forall>v \<in> set (vec_list (vcpus k)). thread_returns env v \<Longrightarrow>
    \<exists>w' rs. mini_kvm_run env cpuid stops deliver argv st w = Some (Inr (0, ra_out args, w'))
      \<and> trace w' = trace w5 @ end_calls k path rs
      \<and> (\<forall>t. (\<forall>h. rdata (env h (Ftw path)) = Tree t) \<and> (\<forall>h q. rv (env h (Remove q)) = 0) \<longrightarrow> rs = post_order path t)"
    and "\<exists>v \<in> set (vec_list (vcpus k)). thread_stays env v \<Longrightarrow>
      mini_kvm_run env cpuid stops deliver argv st w = Some (Inl Hang)"
proof -
  note m = run_starts_machine [OF assms(1)]
  let ?k5 = "k\<lparr>vm_state := MINI_KVM_SHUTDOWN\<rparr>"
  have run: "mini_kvm_run env cpuid stops deliver argv st w =
    ro_bind (main_loop env stops (sig_status env deliver) k zero_command zero_result w4) (\<lambda>(k5, w5).
      ro_bind (Some (rmrf env (fs_path k5) w5)) (\<lambda>(_, w6). run_cleanup env 0 (ra_out args) k5 w6))"
    using assms(1) by (auto simp: run_starts_def mini_kvm_run_def run_main_loop_def ro_bind_assoc case_prod_unfold)
  obtain r w6 rs where rm: "rmrf env (Some path) w5 = Inr (r, w6)" "trace w6 = trace w5 @ [Ftw path] @ map Remove rs"
    "\<forall>t. (\<forall>h. rdata (env h (Ftw path)) = Tree t) \<and> (\<forall>h q. rv (env h (Remove q)) = 0) \<longrightarrow> rs = post_order path t"
    by (rule rmrf_calls)
  have ok5: "vec_ok (vcpus ?k5)" using m(1) by simp
  show "\<exists>w' rs. mini_kvm_run env cpuid stops deliver argv st w = Some (Inr (0, ra_out args, w'))
      \<and> trace w' = trace w5 @ end_calls k path rs
      \<and> (\<forall>t. (\<forall>h. rdata (env h (Ftw path)) = Tree t) \<and> (\<forall>h q. rv (env h (Remove q)) = 0) \<longrightarrow> rs = post_order path t)"
    if "\<forall>v \<in> set (vec_list (vcpus k)). thread_returns env v"
  proof -
    have returns: "\<forall>v \<in> set (vec_list (vcpus ?k5)). thread_returns env v" using that by simp
    obtain w' where clean: "mini_kvm_clean_kvm env ?k5 w6 = Inr w'"
      "trace w' = trace w6 @ concat (map vcpu_release (vec_list (vcpus ?k5)))
        @ (if kvm_name ?k5 \<noteq> None then [Close (fs_fd ?k5)] else [])
        @ (if mem ?k5 \<noteq> 0 then [Munmap (mem ?k5) (mem_size ?k5)] else []) @ [Close (kvm_fd ?k5), Close (vm_fd ?k5)]"
      by (rule clean_kvm_trace [OF ok5 returns])
    have "mini_kvm_run env cpuid stops deliver argv st w = Some (Inr (0, ra_out args, w'))"
      using run assms(2) rm(1) clean(1) m(3) by (simp add: run_cleanup_def path_def)
    moreover have "trace w' = trace w5 @ end_calls k path rs" using rm(2) clean(2) m(4) by (simp add: end_calls_def)
    ultimately show ?thesis using rm(3) by blast
  qed
  show "mini_kvm_run env cpuid stops deliver argv st w = Some (Inl Hang)" if "\<exists>v \<in> set (vec_list (vcpus k)). thread_stays env v"
  proof -
    have "mini_kvm_clean_kvm env ?k5 w6 = Inl Hang" using clean_kvm_hangs [OF ok5] that by simp
    then show ?thesis using run assms(2) rm(1) m(3) by (simp add: run_cleanup_def path_def)
  qed
qed

section \<open>Properties\<close>

text \<open>C3. A machine that \<open>mini_kvm run\<close> is about to start: when every step up to the loading of the
  kernel has succeeded, for a number of CPUs the arguments allow (at least one), the machine has the
  requested memory size and exactly that many CPUs, numbered from 0 in order, each about to execute
  at \<open>BOOTLOADER_ADDR\<close> with its stack at the end of memory; the first is in 64-bit mode with a
  \<open>cr3\<close> from which the first two megabytes are mapped to themselves; and the kernel file lies
  unchanged at \<open>BOOTLOADER_ADDR\<close>.\<close>

theorem run_boot_ready:
  assumes "run_boot env cpuid args kvm w = Inr (MINI_KVM_SUCCESS, k, w')"
    and "0 < ra_vcpu args" and "unat (ra_vcpu args) < 2 ^ 32 - 1"
  shows "mem_size k = ra_mem_size args
    \<and> length (vec_list (vcpus k)) = unat (ra_vcpu args)
    \<and> (\<forall>i < unat (ra_vcpu args). booted_vcpu (ra_mem_size args) i (vec_list (vcpus k) ! i))
    \<and> (let sr = vcpu_sregs (vec_list (vcpus k) ! 0) in
         bit (sr_cr0 sr) 31 \<and> bit (sr_efer sr) 10 \<and> seg_l (sr_cs sr) = 1
         \<and> (\<forall>va. unat va < 0x200000 \<longrightarrow> page_walk (load64 (guest k)) (sr_cr3 sr) va = Some va))
    \<and> (\<exists>bs. kernel_code args = Some bs \<and> bs \<noteq> [] \<and> (\<forall>i < length bs. guest k (unat BOOTLOADER_ADDR + i) = bs ! i))"
proof -
  obtain news bs m where list: "length news = unat (ra_vcpu args)" "news \<noteq> []"
    and b: "\<forall>i < length news. booted_vcpu (ra_mem_size args) i (news ! i)"
    and vk: "vec_list (vcpus k) = news[0 := (news ! 0)\<lparr>vcpu_sregs := long_mode_sregs (vcpu_sregs (news ! 0))\<rparr>]"
    and g: "guest k = guest_write 0x4000 bs (boot_tables m)" and bs: "kernel_code args = Some bs" "bs \<noteq> []"
    and m: "mem_size k = ra_mem_size args"
    by (rule run_boot_phases [OF assms])
  have sr: "vcpu_sregs (vec_list (vcpus k) ! 0) = long_mode_sregs (vcpu_sregs (news ! 0))"
    using list(2) by (simp add: vk)
  have "booted_vcpu (ra_mem_size args) i (vec_list (vcpus k) ! i)" if "i < unat (ra_vcpu args)" for i
    using that b list by (cases "i = 0") (simp_all add: vk booted_vcpu_def)
  moreover have "page_walk (load64 (guest k)) PLM4_ADDR va = Some va" if "unat va < 0x200000" for va
    using walk_after_kernel [OF that] by (simp add: g)
  moreover have "guest k (unat BOOTLOADER_ADDR + i) = bs ! i" if "i < length bs" for i
    using that by (simp add: g guest_write_def)
  ultimately show ?thesis
    using bs m list(1) long_mode_sregs_bits [of "vcpu_sregs (news ! 0)"] sr by (simp add: vk)
qed

theorem run_boot_ready_witness:
  "\<exists>k w'. run_boot linux_ok intel_cpuid boot_args zero_kvm fresh_world = Inr (MINI_KVM_SUCCESS, k, w')
     \<and> length (vec_list (vcpus k)) = 1 \<and> guest k 0x4000 = 0xf4"
proof -
  obtain k w' where r: "run_boot linux_ok intel_cpuid boot_args zero_kvm fresh_world = Inr (MINI_KVM_SUCCESS, k, w')"
    using run_boot_linux_ok by blast
  have a: "0 < ra_vcpu boot_args" "unat (ra_vcpu boot_args) < 2 ^ 32 - 1" by (simp_all add: boot_args_def)
  have "length (vec_list (vcpus k)) = 1" "\<forall>i < length [0xf4 :: u8]. guest k (unat BOOTLOADER_ADDR + i) = [0xf4] ! i"
    using run_boot_ready [OF r a] by (auto simp: boot_args_def)
  with r show ?thesis by auto
qed

text \<open>C24. The pid file: \<open>init_filesystem\<close> writes exactly one thing, and only when it succeeds: the four
  bytes of its own process number, to the descriptor it got when it created the file \<open>NAME.pid\<close> in the
  directory of the machine, and which it then closes. When it fails it has written nothing; and it fails when
  the directory of the machine exists and holds a pid file that can be opened and names a process that exists.\<close>

theorem init_filesystem_pidfile:
  assumes "init_filesystem env name kvm w = (e, k, w')"
  shows "(e = MINI_KVM_SUCCESS
      \<and> fs_path k = Some (MINI_KVM_FS_ROOT_PATH @ ''/'' @ name) \<and> 0 \<le> fs_fd k
      \<and> (\<exists>cs d. writes cs = [] \<and>
           (let create = Openat (fs_fd k) (name @ ''.pid'') O_CREAT_TRUNC_WRONLY; f = rv (env (trace w @ cs) create) in
            0 \<le> f \<and> trace w' = trace w @ cs @ [create, Getpid,
              Write f (int32_bytes (rv (env (trace w @ cs @ [create]) Getpid))), Close f, Close d]))
      \<or> e = MINI_KVM_FAILED_FS_SETUP \<and> (\<exists>cs. trace w' = trace w @ cs \<and> writes cs = []))
    \<and> (name_in_use env name pid \<longrightarrow> e = MINI_KVM_FAILED_FS_SETUP)"
proof (rule init_filesystem_cases [OF assms])
  fix w7 cs w8 d
  assume a: "trace w7 = trace w @ cs" "writes cs = []" "w' = snd (os_call env (Close d) w8)"
    "fs_path k = Some (MINI_KVM_FS_ROOT_PATH @ ''/'' @ name)" "0 \<le> fs_fd k" "\<And>pid. \<not> name_in_use env name pid"
    and p: "write_pidfile env (fs_fd k) (name @ ''.pid'') w7 = (e, w8)"
  from p show ?thesis
  proof (rule write_pidfile_calls)
    fix f
    assume "e = MINI_KVM_SUCCESS" "f = rv (env (trace w7) (Openat (fs_fd k) (name @ ''.pid'') O_CREAT_TRUNC_WRONLY))" "0 \<le> f"
      "trace w8 = trace w7 @ [Openat (fs_fd k) (name @ ''.pid'') O_CREAT_TRUNC_WRONLY, Getpid,
      Write f (int32_bytes (rv (env (trace w7 @ [Openat (fs_fd k) (name @ ''.pid'') O_CREAT_TRUNC_WRONLY]) Getpid))), Close f]"
    with a show ?thesis
      by (intro conjI disjI1 exI [of _ cs] exI [of _ d]) (auto simp: Let_def)
  next
    assume "e = MINI_KVM_FAILED_FS_SETUP" "trace w8 = trace w7 @ [Openat (fs_fd k) (name @ ''.pid'') O_CREAT_TRUNC_WRONLY]"
    with a show ?thesis by auto
  qed
qed auto

text \<open>A host on which the machine \<open>vm\<close> runs already, for the witness.\<close>

definition taken_host :: env where
  "taken_host h c = (case c of Read d n \<Rightarrow> \<lparr>rv = 4, rerr = 0, rdata = Bytes (int32_bytes 7)\<rparr>
     | Openat d p m \<Rightarrow> \<lparr>rv = 3, rerr = 0, rdata = No_data\<rparr> | _ \<Rightarrow> linux_ok h c)"

theorem init_filesystem_pidfile_witness:
  "(\<exists>k w' h. init_filesystem linux_ok ''vm'' zero_kvm fresh_world = (MINI_KVM_SUCCESS, k, w')
     \<and> writes (trace w') = [int32_bytes (rv (linux_ok h Getpid))])
   \<and> fst (init_filesystem taken_host ''vm'' zero_kvm fresh_world) = MINI_KVM_FAILED_FS_SETUP"
proof
  obtain k w' where r: "init_filesystem linux_ok ''vm'' zero_kvm fresh_world = (MINI_KVM_SUCCESS, k, w')"
    by (simp add: init_filesystem_def make_root_def pidfile_alive_def write_pidfile_def os_call_linux_ok Let_def)
  show "\<exists>k w' h. init_filesystem linux_ok ''vm'' zero_kvm fresh_world = (MINI_KVM_SUCCESS, k, w')
     \<and> writes (trace w') = [int32_bytes (rv (linux_ok h Getpid))]"
  proof -
    from init_filesystem_pidfile [OF r] obtain cs d where "writes cs = []"
      "let create = Openat (fs_fd k) (''vm'' @ ''.pid'') O_CREAT_TRUNC_WRONLY; f = rv (linux_ok (trace fresh_world @ cs) create) in
        0 \<le> f \<and> trace w' = trace fresh_world @ cs @ [create, Getpid,
          Write f (int32_bytes (rv (linux_ok (trace fresh_world @ cs @ [create]) Getpid))), Close f, Close d]"
      by blast
    then have "\<exists>h. writes (trace w') = [int32_bytes (rv (linux_ok h Getpid))]" by (auto simp: fresh_world_def Let_def)
    with r show ?thesis by blast
  qed
next
  have "name_in_use taken_host ''vm'' 7" by (simp add: name_in_use_def taken_host_def linux_ok_def)
  then show "fst (init_filesystem taken_host ''vm'' zero_kvm fresh_world) = MINI_KVM_FAILED_FS_SETUP"
    using init_filesystem_pidfile [of taken_host "''vm''" zero_kvm fresh_world _ _ _ 7] by (metis prod.collapse)
qed

text \<open>The main loop only ends with the machine shut down: whatever the clients send, whichever CPU
  thread stops and whatever signals arrive, when \<open>run_main_loop\<close>'s loop returns, the state is
  \<open>MINI_KVM_SHUTDOWN\<close>.\<close>

theorem main_loop_ends_in_shutdown:
  assumes "main_loop env stops sigs kvm cmd res w = Some (Inr (k', w'))"
  shows "vm_state k' = MINI_KVM_SHUTDOWN"
  using assms by (rule main_loop_shutdown)

text \<open>A host without clients that has a kernel of one instruction, and a signal that comes after a hundred
  calls, for the witness.\<close>

definition idle_host :: env where
  "idle_host h c = (case c of Accept d \<Rightarrow> \<lparr>rv = -1, rerr = EAGAIN, rdata = No_data\<rparr>
     | Fopen_read p \<Rightarrow> \<lparr>rv = 1, rerr = 0, rdata = Bytes [0xf4]\<rparr>
     | Ftw p \<Rightarrow> \<lparr>rv = 0, rerr = 0, rdata = Tree (Directory [(''vm.pid'', Plain_file), (''vm.sock'', Plain_file)])\<rparr>
     | _ \<Rightarrow> linux_ok h c)"

definition term_after :: "nat \<Rightarrow> syscall list \<Rightarrow> int option" where
  "term_after n h = (if length h = n then Some SIGTERM else None)"

text \<open>C5. The whole life of a machine: when every step of \<open>mini_kvm run\<close> up to the creation of the CPU threads
  succeeds for a named machine, nobody connects, no CPU stops by itself and one SIGINT or SIGTERM is
  delivered at any time after the handlers are installed, then (unless the shutdown signals kill the
  process because no CPU thread has installed its handlers yet) what follows depends on the CPU threads. If all
  of them return, the program ends: it returns 0, and after the loop its calls are exactly one shutdown signal per CPU
  thread, the removal of the directory of the machine with all it holds, and the joins, unmappings and
  closings of \<open>mini_kvm_clean_kvm\<close>, each once; the listening socket is not closed. If the thread of some CPU
  never returns, the program never ends.\<close>

theorem run_ends_on_signal:
  assumes "\<And>h d. env h (Accept d) = \<lparr>rv = -1, rerr = EAGAIN, rdata = No_data\<rparr>" and "\<And>h. \<not> stops h"
    and "\<And>h n. 0 \<le> rv (env h (Signal n))"
    and "\<And>h. deliver h \<in> {None, Some SIGINT, Some SIGTERM}" and "\<And>h. length h = late \<Longrightarrow> deliver h \<noteq> None"
    and "run_starts env cpuid argv st w args n k b w4" and "length b \<le> late"
  defines "path \<equiv> MINI_KVM_FS_ROOT_PATH @ ''/'' @ n"
  shows "((\<forall>v \<in> set (vec_list (vcpus k)). thread_returns env v) \<longrightarrow>
      (\<exists>w' m rs. mini_kvm_run env cpuid stops deliver argv st w = Some (Inr (0, ra_out args, w'))
        \<and> trace w' = trace w4 @ replicate m (Accept (sock k))
            @ map (\<lambda>v. Pthread_kill (vcpu_thread v) SIGVMSHUTDOWN) (vec_list (vcpus k)) @ end_calls k path rs
        \<and> (\<forall>t. (\<forall>h. rdata (env h (Ftw path)) = Tree t) \<and> (\<forall>h q. rv (env h (Remove q)) = 0) \<longrightarrow> rs = post_order path t)))
    \<and> ((\<exists>v \<in> set (vec_list (vcpus k)). thread_stays env v) \<longrightarrow>
      mini_kvm_run env cpuid stops deliver argv st w = Some (Inl Hang))"
proof -
  note m = run_starts_machine [OF assms(6)]
  obtain w2 where b: "b = trace (run_set_signals env w2)" using m(6) by blast
  have sig: "sig_status env deliver h = SIGINT \<or> sig_status env deliver h = SIGTERM" if "prefix b h" "late \<le> length h" for h
    using sig_status_stays [where env = env and deliver = deliver, OF set_signals_handlers [where env = env, OF assms(3)] assms(4,5)]
      that assms(7) b by blast
  obtain w5 j where loop: "main_loop env stops (sig_status env deliver) k zero_command zero_result w4
      = Some (Inr (k\<lparr>vm_state := MINI_KVM_SHUTDOWN\<rparr>, w5))"
    "trace w5 = trace w4 @ replicate j (Accept (sock k)) @ map (\<lambda>v. Pthread_kill (vcpu_thread v) SIGVMSHUTDOWN) (vec_list (vcpus k))"
    using main_loop_signalled [where env = env and stops = stops and sigs = "sig_status env deliver", OF assms(1,2) sig m(1,2,5)] by blast
  note after = run_after_loop [OF assms(6) loop(1), folded path_def]
  show ?thesis
  proof (intro conjI impI)
    assume "\<forall>v \<in> set (vec_list (vcpus k)). thread_returns env v"
    from after(1) [OF this] obtain w' rs where r: "mini_kvm_run env cpuid stops deliver argv st w = Some (Inr (0, ra_out args, w'))"
      "trace w' = trace w5 @ end_calls k path rs"
      "\<forall>t. (\<forall>h. rdata (env h (Ftw path)) = Tree t) \<and> (\<forall>h q. rv (env h (Remove q)) = 0) \<longrightarrow> rs = post_order path t"
      by blast
    have "trace w' = trace w4 @ replicate j (Accept (sock k))
            @ map (\<lambda>v. Pthread_kill (vcpu_thread v) SIGVMSHUTDOWN) (vec_list (vcpus k)) @ end_calls k path rs"
      using r(2) loop(2) by simp
    with r(1,3) show "\<exists>w' m rs. mini_kvm_run env cpuid stops deliver argv st w = Some (Inr (0, ra_out args, w'))
        \<and> trace w' = trace w4 @ replicate m (Accept (sock k))
            @ map (\<lambda>v. Pthread_kill (vcpu_thread v) SIGVMSHUTDOWN) (vec_list (vcpus k)) @ end_calls k path rs
        \<and> (\<forall>t. (\<forall>h. rdata (env h (Ftw path)) = Tree t) \<and> (\<forall>h q. rv (env h (Remove q)) = 0) \<longrightarrow> rs = post_order path t)"
      by blast
  qed (rule after(2))
qed

lemma idle_host_boots: "boots idle_host"
  by (auto simp: boots_def idle_host_def split: syscall.splits)

abbreviation idle_argv :: "string list" where
  "idle_argv \<equiv> [''run'', ''-m'', dec_string 20 @ ''K'', ''-n'', ''vm'', ''-k'', ''boot.bin'']"

lemma idle_parse:
  "\<exists>args. run_parse_args idle_host idle_argv initial_logger fresh_world = Inr args \<and> ra_ret args = 0
     \<and> ra_name args = Some ''vm'' \<and> ra_vcpu args = 1 \<and> ra_mem_size args = 0x5000 \<and> kernel_code args = Some [0xf4] \<and> ra_out args = []"
proof -
  have g: "getopt_long ''l::v:d:m:n:k:h'' run_opts_def (tl idle_argv)
      = [(CHR ''m'', Some (dec_string 20 @ ''K'')), (CHR ''n'', Some ''vm''), (CHR ''k'', Some ''boot.bin'')]"
    using getopt_short_arg [of "''l::v:d:m:n:k:h''" "CHR ''n''" run_opts_def]
      getopt_short_arg [of "''l::v:d:m:n:k:h''" "CHR ''k''" run_opts_def] by (simp add: getopt_run_m)
  have u: "unit_scale_of ''K'' 10" "page_round (20 * 2 ^ 10) < 2 ^ 64" by (simp_all add: unit_scale_of_def page_round_def)
  have m: "run_arg_body idle_host (zero_run_args initial_logger fresh_world) (CHR ''m'', Some (dec_string 20 @ ''K''))
      = Inr ((zero_run_args initial_logger fresh_world)\<lparr>ra_ret := 0, ra_mem_size := 0x5000, ra_world := fresh_world\<rparr>)"
    using run_body_mem [of "zero_run_args initial_logger fresh_world" "''K''" 10 20 idle_host, OF _ u]
    by (simp add: zero_run_args_def fresh_world_def errno_clear_def page_round_def)
  show ?thesis
    unfolding run_parse_args_def g
    by (simp add: m run_args_failed_def)
      (simp add: run_arg_body_def zero_run_args_def run_args_failed_def idle_host_def split_beta)
qed

lemma start_one_boots:
  assumes "boots env" and "vec_grown (vcpus k)" and "vec_size (vcpus k) = 1"
  shows "\<exists>k' w'. mini_kvm_start_vm env (Some k) w = Inr (MINI_KVM_SUCCESS, Some k', w')"
proof -
  have n: "0 < vec_size (vcpus k)" and l: "len (vcpus k) \<noteq> 0" using assms(3) by (auto simp: vec_size_def)
  have c: "rv (env (trace w) (Pthread_create 0)) = 0" using assms(1) by (simp add: boots_def linux_ok_def)
  obtain k' w' where "mini_kvm_vcpu_run env k 0 w = Inr (MINI_KVM_SUCCESS, k', w')"
  proof (rule vcpu_run_ok [OF assms(2) n, where env = env and w = w])
    fix w' assume "mini_kvm_vcpu_run env k 0 w = Inr (MINI_KVM_FAILED_RUN, k, w')"
    with c cvec.get_law [OF assms(2) n] show thesis
      by (auto simp: mini_kvm_vcpu_run_def Let_def split_beta res_iff)
  qed (use that in blast)
  with l assms(3) show ?thesis by (simp add: mini_kvm_start_vm_def)
qed

lemma idle_starts:
  "\<exists>args k b w4. run_starts idle_host intel_cpuid idle_argv initial_logger fresh_world args ''vm'' k b w4 \<and> ra_out args = []"
proof -
  obtain args where p: "run_parse_args idle_host idle_argv initial_logger fresh_world = Inr args" "ra_ret args = 0"
    "ra_name args = Some ''vm''" "ra_vcpu args = 1" "ra_mem_size args = 0x5000" "kernel_code args = Some [0xf4]" "ra_out args = []"
    using idle_parse by blast
  obtain k1 w1 where b: "run_boot idle_host intel_cpuid args zero_kvm (ra_world args) = Inr (MINI_KVM_SUCCESS, k1, w1)"
    using run_boot_boots [OF idle_host_boots p(4-6)] by blast
  have v: "0 < ra_vcpu args" "unat (ra_vcpu args) < 2 ^ 32 - 1" using p(4) by simp_all
  obtain news where n1: "length news = unat (ra_vcpu args)" "vec_grown (vcpus k1)"
    "vec_list (vcpus k1) = news[0 := (news ! 0)\<lparr>vcpu_sregs := long_mode_sregs (vcpu_sregs (news ! 0))\<rparr>]"
    by (rule run_boot_phases [OF b v])
  obtain k2 w2 where f: "init_filesystem idle_host ''vm'' (k1\<lparr>kvm_name := Some ''vm''\<rparr>) w1 = (MINI_KVM_SUCCESS, k2, w2)"
    by (simp add: init_filesystem_def make_root_def pidfile_alive_def write_pidfile_def os_call_boots [OF idle_host_boots] Let_def)
  have f2: "vcpus k2 = vcpus k1" "fs_path k2 = Some ''/tmp/mini_kvm/vm''" "kvm_name k2 = Some ''vm''"
    by (subst init_filesystem_frame [OF f], simp)+
  obtain k3 w3 where c: "mini_kvm_ipc_create_socket idle_host k2 (run_set_signals idle_host w2) = Inr (MINI_KVM_SUCCESS, k3, w3)"
    using f2 by (simp add: mini_kvm_ipc_create_socket_def sun_path_def SUN_PATH_SIZE_def c_str_def
        os_call_boots [OF idle_host_boots] Let_def)
  have "vcpus k3 = vcpus k1" using f2(1) by (subst create_socket_frame [OF c], simp)
  with n1 p(4) have "vec_grown (vcpus k3)" "vec_size (vcpus k3) = 1" by (simp_all add: cvec.size_elems)
  then obtain k4 w4 where s: "mini_kvm_start_vm idle_host (Some k3) w3 = Inr (MINI_KVM_SUCCESS, Some k4, w4)"
    using start_one_boots [OF idle_host_boots] by blast
  have "run_starts idle_host intel_cpuid idle_argv initial_logger fresh_world args ''vm'' k4 (trace (run_set_signals idle_host w2)) w4"
    unfolding run_starts_def using p(1-3) v(2) b f c s by blast
  with p(7) show ?thesis by blast
qed

lemma idle_host_facts:
  "idle_host h (Accept d) = \<lparr>rv = -1, rerr = EAGAIN, rdata = No_data\<rparr>" "0 \<le> rv (idle_host h (Signal m))"
  "rdata (idle_host h (Ftw p)) = Tree (Directory [(''vm.pid'', Plain_file), (''vm.sock'', Plain_file)])"
  "rv (idle_host h (Remove p)) = 0"
  by (simp_all add: idle_host_def linux_ok_def)

lemma idle_host_returns: "thread_returns idle_host v"
  by (simp add: thread_returns_def idle_host_def linux_ok_def)

theorem run_ends_on_signal_witness:
  "\<exists>late w'. mini_kvm_run idle_host intel_cpuid (\<lambda>_. False) (term_after late) idle_argv initial_logger fresh_world = Some (Inr (0, [], w'))
     \<and> {Remove ''/tmp/mini_kvm/vm/vm.sock'', Remove ''/tmp/mini_kvm/vm''} \<subseteq> set (trace w')"
proof -
  obtain args k b w4 where st: "run_starts idle_host intel_cpuid idle_argv initial_logger fresh_world args ''vm'' k b w4"
    "ra_out args = []"
    using idle_starts by blast
  define late where "late = length b + 100"
  have d: "term_after late h \<in> {None, Some SIGINT, Some SIGTERM}" "length h = late \<Longrightarrow> term_after late h \<noteq> None" for h
    by (auto simp: term_after_def split: if_splits)
  have l: "length b \<le> late" by (simp add: late_def)
  obtain w' rs where r: "mini_kvm_run idle_host intel_cpuid (\<lambda>_. False) (term_after late) idle_argv initial_logger fresh_world
      = Some (Inr (0, ra_out args, w'))" "set (map Remove rs) \<subseteq> set (trace w')"
    "rs = post_order ''/tmp/mini_kvm/vm'' (Directory [(''vm.pid'', Plain_file), (''vm.sock'', Plain_file)])"
    using run_ends_on_signal [of idle_host "\<lambda>_. False" "term_after late", OF idle_host_facts(1) _ idle_host_facts(2) d st(1) l]
      idle_host_facts(3,4) idle_host_returns
    by (auto simp: end_calls_def)
  then show ?thesis using st(2) by (intro exI [of _ late] exI [of _ w']) auto
qed

text \<open>C6. The usual end of a machine: under the same conditions, when no signal comes and a CPU thread sets the state to
  shutdown at any time while the main loop runs (because the guest has halted, for example), the main
  loop ends by itself, has only asked for clients until then and sends no signal to the other CPUs. If all
  CPU threads return, the program returns 0 and its last calls are the removal of the directory of the machine
  with all it holds and those of \<open>mini_kvm_clean_kvm\<close>, each once; the listening socket is not closed. If the
  thread of some CPU never returns (because it is still inside the guest, for example), the program never
  ends.\<close>

theorem run_ends_on_halt:
  assumes "\<And>h d. env h (Accept d) = \<lparr>rv = -1, rerr = EAGAIN, rdata = No_data\<rparr>" and "\<And>h. deliver h = None"
    and "run_starts env cpuid argv st w args n k b w4" and "length (trace w4) \<le> late" and "\<And>h. length h = late \<Longrightarrow> stops h"
  defines "path \<equiv> MINI_KVM_FS_ROOT_PATH @ ''/'' @ n"
  shows "((\<forall>v \<in> set (vec_list (vcpus k)). thread_returns env v) \<longrightarrow>
      (\<exists>w' m rs. mini_kvm_run env cpuid stops deliver argv st w = Some (Inr (0, ra_out args, w'))
        \<and> trace w' = trace w4 @ replicate m (Accept (sock k)) @ end_calls k path rs
        \<and> (\<forall>t. (\<forall>h. rdata (env h (Ftw path)) = Tree t) \<and> (\<forall>h q. rv (env h (Remove q)) = 0) \<longrightarrow> rs = post_order path t)))
    \<and> ((\<exists>v \<in> set (vec_list (vcpus k)). thread_stays env v) \<longrightarrow>
      mini_kvm_run env cpuid stops deliver argv st w = Some (Inl Hang))"
proof -
  have sig: "sig_status env deliver h \<noteq> SIGINT \<and> sig_status env deliver h \<noteq> SIGTERM" for h
    using sig_status_none [OF assms(2)] by simp
  obtain w5 j where loop: "main_loop env stops (sig_status env deliver) k zero_command zero_result w4
      = Some (Inr (k\<lparr>vm_state := MINI_KVM_SHUTDOWN\<rparr>, w5))" "trace w5 = trace w4 @ replicate j (Accept (sock k))"
    using main_loop_stopped [where env = env and stops = stops and sigs = "sig_status env deliver", OF assms(1,5) sig assms(4) run_starts_machine(2) [OF assms(3)]] by blast
  note after = run_after_loop [OF assms(3) loop(1), folded path_def]
  show ?thesis
  proof (intro conjI impI)
    assume "\<forall>v \<in> set (vec_list (vcpus k)). thread_returns env v"
    from after(1) [OF this] obtain w' rs where r: "mini_kvm_run env cpuid stops deliver argv st w = Some (Inr (0, ra_out args, w'))"
      "trace w' = trace w5 @ end_calls k path rs"
      "\<forall>t. (\<forall>h. rdata (env h (Ftw path)) = Tree t) \<and> (\<forall>h q. rv (env h (Remove q)) = 0) \<longrightarrow> rs = post_order path t"
      by blast
    have "trace w' = trace w4 @ replicate j (Accept (sock k)) @ end_calls k path rs"
      using r(2) loop(2) by simp
    with r(1,3) show "\<exists>w' m rs. mini_kvm_run env cpuid stops deliver argv st w = Some (Inr (0, ra_out args, w'))
        \<and> trace w' = trace w4 @ replicate m (Accept (sock k)) @ end_calls k path rs
        \<and> (\<forall>t. (\<forall>h. rdata (env h (Ftw path)) = Tree t) \<and> (\<forall>h q. rv (env h (Remove q)) = 0) \<longrightarrow> rs = post_order path t)"
      by blast
  qed (rule after(2))
qed

theorem run_ends_on_halt_witness:
  "\<exists>late w'. mini_kvm_run idle_host intel_cpuid (\<lambda>h. length h = late) (\<lambda>_. None) idle_argv initial_logger fresh_world = Some (Inr (0, [], w'))
     \<and> Remove ''/tmp/mini_kvm/vm'' \<in> set (trace w')"
proof -
  obtain args k b w4 where st: "run_starts idle_host intel_cpuid idle_argv initial_logger fresh_world args ''vm'' k b w4"
    "ra_out args = []"
    using idle_starts by blast
  define late where "late = length (trace w4) + 100"
  have l: "length (trace w4) \<le> late" by (simp add: late_def)
  obtain w' rs where r: "mini_kvm_run idle_host intel_cpuid (\<lambda>h. length h = late) (\<lambda>_. None) idle_argv initial_logger fresh_world
      = Some (Inr (0, ra_out args, w'))" "set (map Remove rs) \<subseteq> set (trace w')"
    "rs = post_order ''/tmp/mini_kvm/vm'' (Directory [(''vm.pid'', Plain_file), (''vm.sock'', Plain_file)])"
    using run_ends_on_halt [of idle_host "\<lambda>_. None", OF idle_host_facts(1) _ st(1) l, of "\<lambda>h. length h = late"] idle_host_facts(3,4) idle_host_returns
    by (auto simp: end_calls_def)
  then show ?thesis using st(2) by (intro exI [of _ late] exI [of _ w']) auto
qed

end
