(* ===== verification/Main_Program.thy ===== *)
theory Main_Program imports Commands Status_Client Run begin

text \<open>
  \<open>src/main.c\<close>: the table of subcommands, \<open>handle_command\<close> and \<open>main\<close>. The result of a
  run is its exit status, what it printed on the standard output and the world; the message about an
  unknown subcommand on the error output is left out.
\<close>

section \<open>Dispatch\<close>

datatype subcommand = Pause_cmd | Resume_cmd | Run_cmd | Status_cmd | Shutdown_cmd

definition commands :: "(string \<times> subcommand) list" where
  "commands = [(''pause'', Pause_cmd), (''resume'', Resume_cmd), (''run'', Run_cmd), (''status'', Status_cmd),
     (''shutdown'', Shutdown_cmd)]"

text \<open>The loop over the table: the first entry whose name is how the argument begins.\<close>

fun find_command :: "(string \<times> subcommand) list \<Rightarrow> string \<Rightarrow> subcommand option" where
  "find_command [] arg = None"
| "find_command ((name, c) # cs) arg = (if strncmp_eq name arg (length name) then Some c else find_command cs arg)"

definition print_help :: string where
  "print_help = ''USAGE:'' @ nl @ tab_char @ ''mini_kvm <run|pause|resume|shutdown|status>'' @ nl"

text \<open>The status of the four client commands as the exit status.\<close>

definition exit_status :: "(MiniKVMError \<times> string \<times> world) res \<Rightarrow> (int \<times> string \<times> world) res option" where
  "exit_status x = Some (res_bind x (\<lambda>(r, out, w). Inr (error_code r, out, w)))"

definition run_subcommand ::
  "env \<Rightarrow> cpuid_insn \<Rightarrow> (syscall list \<Rightarrow> bool) \<Rightarrow> (syscall list \<Rightarrow> int option) \<Rightarrow> LoggerState \<Rightarrow> subcommand \<Rightarrow> string list \<Rightarrow> world
     \<Rightarrow> (int \<times> string \<times> world) res option" where
  "run_subcommand env cpuid stops deliver st c argv w =
     (case c of
        Pause_cmd \<Rightarrow> exit_status (mini_kvm_pause env argv w)
      | Resume_cmd \<Rightarrow> exit_status (mini_kvm_resume env argv w)
      | Run_cmd \<Rightarrow> mini_kvm_run env cpuid stops deliver argv st w
      | Status_cmd \<Rightarrow> exit_status (mini_kvm_status env argv w)
      | Shutdown_cmd \<Rightarrow> exit_status (mini_kvm_shutdown env argv w))"

definition handle_command ::
  "env \<Rightarrow> cpuid_insn \<Rightarrow> (syscall list \<Rightarrow> bool) \<Rightarrow> (syscall list \<Rightarrow> int option) \<Rightarrow> LoggerState \<Rightarrow> string list \<Rightarrow> world
     \<Rightarrow> (int \<times> string \<times> world) res option" where
  "handle_command env cpuid stops deliver st argv w =
     (case argv of [] \<Rightarrow> Some (Inl NullDeref)
      | arg # _ \<Rightarrow> (case find_command commands arg of
          Some c \<Rightarrow> run_subcommand env cpuid stops deliver st c argv w
        | None \<Rightarrow> Some (Inr (error_code MINI_KVM_UNRECOGNIZED_COMMAND, print_help, w))))"

definition main_program ::
  "env \<Rightarrow> cpuid_insn \<Rightarrow> (syscall list \<Rightarrow> bool) \<Rightarrow> (syscall list \<Rightarrow> int option) \<Rightarrow> string option \<Rightarrow> string list \<Rightarrow> world
     \<Rightarrow> (int \<times> string \<times> world) res option" where
  "main_program env cpuid stops deliver logger_level argv w =
     (let (st, w1) = logger_init env logger_level None initial_logger w in
      if length argv \<le> 1 \<or> strncmp_eq ''-h'' (argv ! 1) 2 \<or> strncmp_eq ''--help'' (argv ! 1) 6
      then Some (Inr (error_code MINI_KVM_SUCCESS, print_help, w1))
      else handle_command env cpuid stops deliver st (tl argv) w1)"

section \<open>Lemmas\<close>

lemma find_command_iff:
  "find_command commands arg = Some c \<longleftrightarrow> (\<exists>name rest. (name, c) \<in> set commands \<and> arg = name @ rest)"
proof
  assume "find_command commands arg = Some c"
  then show "\<exists>name rest. (name, c) \<in> set commands \<and> arg = name @ rest"
    by (auto simp: commands_def strncmp_eq_def split: if_splits intro: append_take_drop_id [symmetric])
next
  assume "\<exists>name rest. (name, c) \<in> set commands \<and> arg = name @ rest"
  then show "find_command commands arg = Some c" by (auto simp: commands_def strncmp_eq_def)
qed

section \<open>Properties\<close>

text \<open>Dispatch: \<open>handle_command\<close> runs a subcommand exactly when its argument begins with that
  subcommand's name, whatever follows the name; otherwise it prints
  the help text and reports \<open>MINI_KVM_UNRECOGNIZED_COMMAND\<close> without any system call.\<close>

theorem dispatch_by_prefix:
  "(if \<exists>name c rest. (name, c) \<in> set commands \<and> arg = name @ rest
    then \<exists>name c rest. (name, c) \<in> set commands \<and> arg = name @ rest
      \<and> handle_command env cpuid stops deliver st (arg # args) w = run_subcommand env cpuid stops deliver st c (arg # args) w
    else handle_command env cpuid stops deliver st (arg # args) w = Some (Inr (2, print_help, w)))"
proof (cases "find_command commands arg")
  case None
  then have "\<not> (\<exists>name c rest. (name, c) \<in> set commands \<and> arg = name @ rest)"
    using find_command_iff [of arg] by fastforce
  with None show ?thesis by (simp only: if_False simp_thms) (simp add: handle_command_def)
next
  case (Some c)
  then obtain name rest where "(name, c) \<in> set commands" "arg = name @ rest"
    using find_command_iff [of arg c] by blast
  with Some show ?thesis by (auto simp: handle_command_def)
qed

end
