(* ===== verification/Client_Server.thy ===== *)
theory Client_Server imports Main_Program begin

text \<open>
  Clients and server together. A client process sees a server through the answers of its system
  calls: the pid file names a process that exists until the machine is shut down, and what is
  received on the socket is what \<open>mini_kvm_status_handle_command\<close> answers to the commands the client
  has sent so far. The contract a client relies on is the locale \<open>machine_server\<close>; the model of the
  server is an instance of it. Clients come one after the other, each in a process of its own.
\<close>

section \<open>A server as its clients see it\<close>

text \<open>The server after some commands of one client, if none of them faults or hangs.\<close>

fun replay :: "(MiniKvmStatusCommand \<Rightarrow> 's \<Rightarrow> 's option) \<Rightarrow> MiniKvmStatusCommand list \<Rightarrow> 's \<Rightarrow> 's option" where
  "replay serve [] s = Some s"
| "replay serve (c # cs) s = (case serve c s of None \<Rightarrow> None | Some s' \<Rightarrow> replay serve cs s')"

definition server_host ::
  "(MiniKvmStatusCommand \<Rightarrow> 's \<Rightarrow> 's option) \<Rightarrow> ('s \<Rightarrow> VMState) \<Rightarrow> ('s \<Rightarrow> MiniKvmStatusResult) \<Rightarrow> 's \<Rightarrow> env" where
  "server_host serve st answer s h c =
     (case c of
        Read d n \<Rightarrow> \<lparr>rv = 4, rerr = 0, rdata = Bytes (int32_bytes 7)\<rparr>
      | Kill p sig \<Rightarrow> \<lparr>rv = (if st s = MINI_KVM_SHUTDOWN then -1 else 0), rerr = 3, rdata = No_data\<rparr>
      | Getpid \<Rightarrow> \<lparr>rv = 4242, rerr = 0, rdata = No_data\<rparr>
      | Recv_res d \<Rightarrow> (case replay serve (sent h) s of
            None \<Rightarrow> \<lparr>rv = -1, rerr = 104, rdata = No_data\<rparr>
          | Some s' \<Rightarrow> \<lparr>rv = 1, rerr = 0, rdata = Result (answer s')\<rparr>)
      | _ \<Rightarrow> linux_ok h c)"

text \<open>What the subcommands mean for the state of the machine.\<close>

fun client_next :: "subcommand \<Rightarrow> VMState \<Rightarrow> VMState" where
  "client_next c MINI_KVM_SHUTDOWN = MINI_KVM_SHUTDOWN"
| "client_next Pause_cmd MINI_KVM_RUNNING = MINI_KVM_PAUSED"
| "client_next Resume_cmd MINI_KVM_PAUSED = MINI_KVM_RUNNING"
| "client_next Shutdown_cmd s = MINI_KVM_SHUTDOWN"
| "client_next _ s = s"

text \<open>What they send, given the state the machine is in.\<close>

fun client_talk :: "subcommand \<Rightarrow> VMState \<Rightarrow> MiniKvmStatusCommand list" where
  "client_talk c MINI_KVM_SHUTDOWN = []"
| "client_talk Run_cmd s = []"
| "client_talk Pause_cmd MINI_KVM_RUNNING = [ask_state, ask_state\<lparr>cmd_type := MINI_KVM_COMMAND_PAUSE\<rparr>]"
| "client_talk Resume_cmd MINI_KVM_PAUSED = [ask_state, ask_state\<lparr>cmd_type := MINI_KVM_COMMAND_RESUME\<rparr>]"
| "client_talk Shutdown_cmd s = [ask_state\<lparr>cmd_type := MINI_KVM_COMMAND_SHUTDOWN\<rparr>]"
| "client_talk _ s = [ask_state]"

lemma client_talk_status: "s \<noteq> MINI_KVM_SHUTDOWN \<Longrightarrow> client_talk Status_cmd s = [ask_state]"
  by (cases s) simp_all

text \<open>What they print.\<close>

definition client_prints :: "subcommand \<Rightarrow> string \<Rightarrow> VMState \<Rightarrow> string" where
  "client_prints c name s =
     (if c \<noteq> Status_cmd then []
      else if s = MINI_KVM_SHUTDOWN then ''VM '' @ name @ '' is not running, exiting ...'' @ nl
      else name @ '' state: '' @ mini_kvm_vm_state_str s @ nl)"

section \<open>The arguments of \<open>status\<close>\<close>

text \<open>\<open>mini_kvm status\<close> with a name and nothing else asks for the state.\<close>

lemma status_spells_name:
  assumes "spells_name args n"
  shows "status_parse_args (v # args) e = Inr ((zero_status_args e)\<lparr>sa_name := Some n,
    sa_cmds := (replicate 7 MINI_KVM_COMMAND_NONE)[0 := MINI_KVM_COMMAND_SHOW_STATE], sa_cmd_count := 1\<rparr>)"
proof -
  have m: "long_match status_opts_def ''name'' = Some \<lparr>opt_name = ''name'', opt_has_arg = required_argument, opt_val = CHR ''n''\<rparr>"
    by (simp add: long_match_def status_opts_def_def)
  have "getopt_long ''n:v:rm:h'' status_opts_def args = [(CHR ''n'', Some n)]"
    using assms getopt_short_arg [of "''n:v:rm:h''" "CHR ''n''" status_opts_def n "[]"]
      getopt_long_arg [OF m, of "''n:v:rm:h''" n "[]"]
    by (auto simp: spells_name_def)
  then show ?thesis
    by (simp add: status_parse_args_def status_args_failed_def status_arg_body_def zero_status_args_def push_cmd_def)
qed

section \<open>The contract of a server\<close>

locale machine_server =
  fixes serve :: "MiniKvmStatusCommand \<Rightarrow> 's \<Rightarrow> 's option"
    and st :: "'s \<Rightarrow> VMState" and answer :: "'s \<Rightarrow> MiniKvmStatusResult" and ok :: "'s \<Rightarrow> bool"
  assumes ask: "ok s \<Longrightarrow> cmd_type c = MINI_KVM_COMMAND_SHOW_STATE \<Longrightarrow> \<exists>s'. serve c s = Some s' \<and> ok s' \<and> st s' = st s
      \<and> res_state (answer s') = st s \<and> res_error (answer s') = MINI_KVM_SUCCESS \<and> res_cmd_type (answer s') = cmd_type c"
    and act: "ok s \<Longrightarrow> cmd_type c \<in> {MINI_KVM_COMMAND_PAUSE, MINI_KVM_COMMAND_RESUME, MINI_KVM_COMMAND_SHUTDOWN} \<Longrightarrow>
      (cmd_type c = MINI_KVM_COMMAND_PAUSE \<Longrightarrow> st s = MINI_KVM_RUNNING) \<Longrightarrow>
      \<exists>s'. serve c s = Some s' \<and> ok s' \<and> st s' = vm_next (cmd_type c) (st s)"
begin

abbreviation host :: "'s \<Rightarrow> env" where
  "host \<equiv> server_host serve st answer"

lemma host_check_vm:
  obtains w' cs where "mini_kvm_check_vm (host s) name w = (if st s = MINI_KVM_SHUTDOWN then -1 else 0, w')"
    and "trace w' = trace w @ cs" and "sent cs = []"
proof -
  have "fst (mini_kvm_check_vm (host s) name w) = (if st s = MINI_KVM_SHUTDOWN then -1 else 0)"
    by (simp add: mini_kvm_check_vm_def mini_kvm_open_vm_fs_def Let_def split_beta server_host_def linux_ok_def)
  then obtain w' where c: "mini_kvm_check_vm (host s) name w = (if st s = MINI_KVM_SHUTDOWN then -1 else 0, w')"
    by (cases "mini_kvm_check_vm (host s) name w") simp
  with check_vm_sends_nothing [OF c] that show thesis by blast
qed

lemma host_connect:
  assumes "length name < 44"
  obtains fd w' cs where "mini_kvm_ipc_connect (host s) name w = Inr (fd, w')" and "0 \<le> fd"
    and "trace w' = trace w @ cs" and "sent cs = []"
proof -
  obtain fd w' where c: "mini_kvm_ipc_connect (host s) name w = Inr (fd, w')" "0 \<le> fd"
    using assms by (simp add: mini_kvm_ipc_connect_def sun_path_def SUN_PATH_SIZE_def Let_def split_beta
        server_host_def linux_ok_def)
  with connect_sends_nothing [OF c(1)] that show thesis by blast
qed

lemma host_send:
  assumes "replay serve (sent (trace w) @ [cmd]) s = Some s'"
  obtains w' where "mini_kvm_ipc_send_cmd (host s) fd cmd res w = (0, answer s', w')"
    and "trace w' = trace w @ [Send_cmd fd cmd, Recv_res fd]"
  using assms
  by (simp add: mini_kvm_ipc_send_cmd_def Let_def split_beta server_host_def linux_ok_def that)

text \<open>A client that asks and then acts, unless the answer tells it to stop.\<close>

lemma host_exchange:
  assumes "ok s" and "sent (trace w) = []"
    and "ty \<in> {MINI_KVM_COMMAND_PAUSE, MINI_KVM_COMMAND_RESUME, MINI_KVM_COMMAND_SHUTDOWN}"
    and "\<not> stop (st s) \<Longrightarrow> ty = MINI_KVM_COMMAND_PAUSE \<Longrightarrow> st s = MINI_KVM_RUNNING"
  shows "\<exists>s'. replay serve (sent (trace (exchange (host s) fd stop ty w))) s = Some s' \<and> ok s'
    \<and> st s' = (if stop (st s) then st s else vm_next ty (st s))
    \<and> sent (trace (exchange (host s) fd stop ty w)) = ask_state # (if stop (st s) then [] else [ask_state\<lparr>cmd_type := ty\<rparr>])"
proof -
  obtain s1 where s1: "serve ask_state s = Some s1" "ok s1" "st s1 = st s" "res_state (answer s1) = st s"
    using ask [OF assms(1), of ask_state] by auto
  have r1: "replay serve (sent (trace w) @ [ask_state]) s = Some s1" using assms(2) s1(1) by simp
  obtain w3 where w3: "mini_kvm_ipc_send_cmd (host s) fd ask_state zero_result w = (0, answer s1, w3)"
    "trace w3 = trace w @ [Send_cmd fd ask_state, Recv_res fd]"
    by (rule host_send [OF r1])
  show ?thesis
  proof (cases "stop (st s)")
    case True
    with s1 assms(2) show ?thesis by (simp add: exchange_def w3 split_beta)
  next
    case False
    let ?c = "ask_state\<lparr>cmd_type := ty\<rparr>"
    obtain s2 where s2: "serve ?c s1 = Some s2" "ok s2" "st s2 = vm_next ty (st s)"
      using act [OF s1(2), of ?c] assms(3) assms(4) [OF False] s1(3) by auto
    have r2: "replay serve (sent (trace w3) @ [?c]) s = Some s2" using assms(2) s1(1) s2(1) by (simp add: w3)
    obtain w4 where w4: "mini_kvm_ipc_send_cmd (host s) fd ?c (answer s1) w3 = (0, answer s2, w4)"
      "trace w4 = trace w3 @ [Send_cmd fd ?c, Recv_res fd]"
      by (rule host_send [OF r2])
    have "exchange (host s) fd stop ty w = snd (os_call (host s) (Close fd) w4)"
      using False s1(4) w3(1) w4(1) by (simp add: exchange_def)
    with False s2 r2 w3(2) w4(2) assms(2) show ?thesis by simp
  qed
qed

text \<open>A whole session with a machine of the given name.\<close>

lemma host_session:
  assumes "ok s" and "length name < 44"
    and talk: "\<And>fd w. sent (trace w) = [] \<Longrightarrow> st s \<noteq> MINI_KVM_SHUTDOWN \<Longrightarrow>
      \<exists>s'. replay serve (sent (trace (talk fd w))) s = Some s' \<and> ok s' \<and> st s' = t \<and> sent (trace (talk fd w)) = tk"
  shows "\<exists>w' s'. session (host s) help \<lparr>parse_ret = MINI_KVM_SUCCESS, arg_name = Some name\<rparr> talk fresh_world = Inr (MINI_KVM_SUCCESS, [], w')
    \<and> replay serve (sent (trace w')) s = Some s' \<and> ok s' \<and> st s' = (if st s = MINI_KVM_SHUTDOWN then MINI_KVM_SHUTDOWN else t)
    \<and> sent (trace w') = (if st s = MINI_KVM_SHUTDOWN then [] else tk)"
proof -
  obtain w1 cs where c1: "mini_kvm_check_vm (host s) name fresh_world = (if st s = MINI_KVM_SHUTDOWN then -1 else 0, w1)"
    "trace w1 = trace fresh_world @ cs" "sent cs = []"
    by (rule host_check_vm)
  obtain fd w2 ds where c2: "mini_kvm_ipc_connect (host s) name w1 = Inr (fd, w2)" "0 \<le> fd"
    "trace w2 = trace w1 @ ds" "sent ds = []"
    by (rule host_connect [OF assms(2)])
  have "sent (trace w2) = []" using c1 c2 by (simp add: fresh_world_def)
  from talk [OF this, of fd] show ?thesis
    using c1 c2 assms(1) by (cases "st s = MINI_KVM_SHUTDOWN") (auto simp: session_def fresh_world_def)
qed

lemma host_pause:
  assumes "ok s" and "length name < 44" and "spells_name args name"
  shows "\<exists>w' s'. mini_kvm_pause (host s) (v # args) fresh_world = Inr (MINI_KVM_SUCCESS, [], w')
    \<and> replay serve (sent (trace w')) s = Some s' \<and> ok s' \<and> st s' = client_next Pause_cmd (st s)
    \<and> sent (trace w') = client_talk Pause_cmd (st s)"
proof -
  let ?stop = "\<lambda>x. x = MINI_KVM_PAUSED \<or> x = MINI_KVM_SHUTDOWN"
  show ?thesis
    using host_session [OF assms(1,2), of "\<lambda>fd. exchange (host s) fd ?stop MINI_KVM_COMMAND_PAUSE" "if ?stop (st s) then st s else MINI_KVM_PAUSED"
        "client_talk Pause_cmd (st s)" pause_print_help]
      host_exchange [OF assms(1), of _ MINI_KVM_COMMAND_PAUSE ?stop] scan_spells_name [OF assms(3)]
    by (cases "st s") (simp_all add: pause_session name_parse_defs)
qed

lemma host_resume:
  assumes "ok s" and "length name < 44" and "spells_name args name"
  shows "\<exists>w' s'. mini_kvm_resume (host s) (v # args) fresh_world = Inr (MINI_KVM_SUCCESS, [], w')
    \<and> replay serve (sent (trace w')) s = Some s' \<and> ok s' \<and> st s' = client_next Resume_cmd (st s)
    \<and> sent (trace w') = client_talk Resume_cmd (st s)"
proof -
  let ?stop = "\<lambda>x. x = MINI_KVM_RUNNING \<or> x = MINI_KVM_SHUTDOWN"
  show ?thesis
    using host_session [OF assms(1,2), of "\<lambda>fd. exchange (host s) fd ?stop MINI_KVM_COMMAND_RESUME" "if ?stop (st s) then st s else MINI_KVM_RUNNING"
        "client_talk Resume_cmd (st s)" resume_print_help]
      host_exchange [OF assms(1), of _ MINI_KVM_COMMAND_RESUME ?stop] scan_spells_name [OF assms(3)]
    by (cases "st s") (simp_all add: resume_session name_parse_defs)
qed

lemma host_shutdown:
  assumes "ok s" and "length name < 44" and "spells_name args name"
  shows "\<exists>w' s'. mini_kvm_shutdown (host s) (v # args) fresh_world = Inr (MINI_KVM_SUCCESS, [], w')
    \<and> replay serve (sent (trace w')) s = Some s' \<and> ok s' \<and> st s' = client_next Shutdown_cmd (st s)
    \<and> sent (trace w') = client_talk Shutdown_cmd (st s)"
proof -
  let ?c = "zero_command\<lparr>cmd_type := MINI_KVM_COMMAND_SHUTDOWN\<rparr>"
  let ?talk = "\<lambda>fd w2. snd (os_call (host s) (Close fd) (snd (snd (mini_kvm_ipc_send_cmd (host s) fd ?c zero_result w2))))"
  obtain s1 where s1: "serve ?c s = Some s1" "ok s1" "st s1 = MINI_KVM_SHUTDOWN"
    using act [OF assms(1), of ?c] by auto
  have "\<exists>s'. replay serve (sent (trace (?talk fd w))) s = Some s' \<and> ok s' \<and> st s' = MINI_KVM_SHUTDOWN
      \<and> sent (trace (?talk fd w)) = [?c]"
    if "sent (trace w) = []" for fd w
  proof -
    have r: "replay serve (sent (trace w) @ [?c]) s = Some s1" using that s1 by simp
    obtain w' where "mini_kvm_ipc_send_cmd (host s) fd ?c zero_result w = (0, answer s1, w')"
      "trace w' = trace w @ [Send_cmd fd ?c, Recv_res fd]"
      by (rule host_send [OF r])
    with s1 r that show ?thesis by simp
  qed
  from host_session [OF assms(1,2), of ?talk, OF this] show ?thesis
    using scan_spells_name [OF assms(3)] by (cases "st s") (simp_all add: shutdown_session name_parse_defs)
qed

lemma host_status:
  assumes "ok s" and "length name < 44" and "spells_name args name"
  shows "\<exists>w' s'. mini_kvm_status (host s) (v # args) fresh_world
      = Inr (MINI_KVM_SUCCESS, client_prints Status_cmd name (st s), w')
    \<and> replay serve (sent (trace w')) s = Some s' \<and> ok s' \<and> st s' = st s
    \<and> sent (trace w') = client_talk Status_cmd (st s)"
proof -
  define args' where "args' = (zero_status_args 0)\<lparr>sa_name := Some name,
    sa_cmds := (replicate 7 MINI_KVM_COMMAND_NONE)[0 := MINI_KVM_COMMAND_SHOW_STATE], sa_cmd_count := 1\<rparr>"
  have p: "status_parse_args (v # args) 0 = Inr args'"
    using status_spells_name [OF assms(3)] by (simp add: args'_def)
  have sel: "sa_ret args' = MINI_KVM_SUCCESS" "sa_name args' = Some name" "sa_errno args' = 0" "sa_cmd_count args' = 1"
    by (simp_all add: args'_def zero_status_args_def)
  have b: "status_build_command (host s) args' 0 zero_command w = Inr (MINI_KVM_SUCCESS, ask_state, w)" for w
    by (simp add: args'_def status_build_command_def)
  obtain w1 cs where c1: "mini_kvm_check_vm (host s) name fresh_world = (if st s = MINI_KVM_SHUTDOWN then -1 else 0, w1)"
    "trace w1 = trace fresh_world @ cs" "sent cs = []"
    by (rule host_check_vm)
  obtain fd w2 ds where c2: "mini_kvm_ipc_connect (host s) name w1 = Inr (fd, w2)" "0 \<le> fd"
    "trace w2 = trace w1 @ ds" "sent ds = []"
    by (rule host_connect [OF assms(2)])
  obtain s1 where s1: "serve ask_state s = Some s1" "ok s1" "st s1 = st s" "res_state (answer s1) = st s"
    "res_error (answer s1) = MINI_KVM_SUCCESS" "res_cmd_type (answer s1) = MINI_KVM_COMMAND_SHOW_STATE"
    using ask [OF assms(1), of ask_state] by auto
  have r: "replay serve (sent (trace w2) @ [ask_state]) s = Some s1"
    using c1 c2 s1 by (simp add: fresh_world_def)
  obtain w3 where w3: "mini_kvm_ipc_send_cmd (host s) fd ask_state zero_result w2 = (0, answer s1, w3)"
    "trace w3 = trace w2 @ [Send_cmd fd ask_state, Recv_res fd]"
    by (rule host_send [OF r])
  have out: "status_handle_command_result args' (answer s1) = name @ '' state: '' @ mini_kvm_vm_state_str (st s) @ nl"
    using s1 sel by (simp add: status_handle_command_result_def c_str_def)
  show ?thesis
  proof (cases "st s = MINI_KVM_SHUTDOWN")
    case True
    with c1 p sel assms(1) show ?thesis
      by (simp add: mini_kvm_status_def fresh_world_def client_prints_def)
  next
    case False
    with c1 c2 p sel s1 r w3 b out show ?thesis
      by (simp add: client_talk_status mini_kvm_status_def fresh_world_def client_prints_def status_send_command_def)
  qed
qed

text \<open>All four clients.\<close>

lemma host_subcommand:
  assumes "ok s" and "length name < 44" and "spells_name args name" and "c \<noteq> Run_cmd"
  shows "\<exists>w' s'. run_subcommand (host s) cpuid stops deliver lg c (v # args) fresh_world
      = Some (Inr (0, client_prints c name (st s), w'))
    \<and> replay serve (sent (trace w')) s = Some s' \<and> ok s' \<and> st s' = client_next c (st s)
    \<and> sent (trace w') = client_talk c (st s)"
proof (cases c)
  case Pause_cmd
  with host_pause [OF assms(1-3), of v] show ?thesis by (auto simp: run_subcommand_def exit_status_def client_prints_def)
next
  case Resume_cmd
  with host_resume [OF assms(1-3), of v] show ?thesis by (auto simp: run_subcommand_def exit_status_def client_prints_def)
next
  case Shutdown_cmd
  with host_shutdown [OF assms(1-3), of v] show ?thesis by (auto simp: run_subcommand_def exit_status_def client_prints_def)
next
  case Status_cmd
  moreover have "client_next Status_cmd x = x" for x by (cases x) simp_all
  ultimately show ?thesis using host_status [OF assms(1-3), of v] by (auto simp: run_subcommand_def exit_status_def)
next
  case Run_cmd
  with assms(4) show ?thesis by simp
qed

end

section \<open>The server of the program\<close>

text \<open>The state of the server between two commands: the machine, the last answer and the world.\<close>

type_synonym server = "Kvm \<times> MiniKvmStatusResult \<times> world"

definition serve_command :: "env \<Rightarrow> MiniKvmStatusCommand \<Rightarrow> server \<Rightarrow> server option" where
  "serve_command env cmd = (\<lambda>(k, res, w). case mini_kvm_status_handle_command env k cmd res w of
     Inl _ \<Rightarrow> None | Inr (_, k', res', w') \<Rightarrow> Some (k', res', w'))"

definition server_state :: "server \<Rightarrow> VMState" where
  "server_state s = vm_state (fst s)"

definition server_answer :: "server \<Rightarrow> MiniKvmStatusResult" where
  "server_answer s = fst (snd s)"

text \<open>A machine with a well-formed vector of CPUs whose lock is held only while it is paused.\<close>

definition server_ok :: "server \<Rightarrow> bool" where
  "server_ok s \<longleftrightarrow> vec_ok (vcpus (fst s)) \<and> lock_ok (fst s) \<and> (vm_state (fst s) = MINI_KVM_RUNNING \<longrightarrow> paused (fst s) = 0)"

lemma serve_command_ask:
  assumes "server_ok s" and "cmd_type c = MINI_KVM_COMMAND_SHOW_STATE"
  shows "\<exists>s'. serve_command env c s = Some s' \<and> server_ok s' \<and> server_state s' = server_state s
    \<and> res_state (server_answer s') = server_state s \<and> res_error (server_answer s') = MINI_KVM_SUCCESS
    \<and> res_cmd_type (server_answer s') = cmd_type c"
  using assms
  by (cases s) (auto simp: serve_command_def mini_kvm_status_handle_command_def simple_handlers server_state_def
      server_answer_def server_ok_def)

lemma serve_command_act:
  assumes "server_ok s" and "cmd_type c \<in> {MINI_KVM_COMMAND_PAUSE, MINI_KVM_COMMAND_RESUME, MINI_KVM_COMMAND_SHUTDOWN}"
    and "cmd_type c = MINI_KVM_COMMAND_PAUSE \<Longrightarrow> server_state s = MINI_KVM_RUNNING"
  shows "\<exists>s'. serve_command env c s = Some s' \<and> server_ok s' \<and> server_state s' = vm_next (cmd_type c) (server_state s)"
proof -
  obtain k res w where s: "s = (k, res, w)" by (cases s)
  have sig: "\<exists>w'. mini_kvm_send_sig env (k\<lparr>vm_state := x\<rparr>) sg w = Inr w'" for x sg
    by (rule send_sig_ok [of "k\<lparr>vm_state := x\<rparr>" env sg w]) (use assms(1) in \<open>auto simp: s server_ok_def\<close>)
  obtain w1 w2 w3 where "mini_kvm_send_sig env (k\<lparr>vm_state := MINI_KVM_PAUSED\<rparr>) SIGVMPAUSE w = Inr w1"
    "mini_kvm_send_sig env (k\<lparr>vm_state := MINI_KVM_RUNNING\<rparr>) SIGVMRESUME w = Inr w2"
    "mini_kvm_send_sig env (k\<lparr>vm_state := MINI_KVM_SHUTDOWN\<rparr>) SIGVMSHUTDOWN w = Inr w3"
    using sig by metis
  note h = this mini_kvm_status_handle_command_def simple_handlers serve_command_def server_state_def server_ok_def
    lock_ok_def Let_def
  show ?thesis
    using assms(2)
  proof (elim insertE emptyE)
    assume "cmd_type c = MINI_KVM_COMMAND_PAUSE"
    with assms(1,3) show ?thesis by (simp add: s h del: SIGVMPAUSE_def SIGVMRESUME_def)
  next
    assume "cmd_type c = MINI_KVM_COMMAND_RESUME"
    with assms(1) show ?thesis by (simp add: s h del: SIGVMPAUSE_def SIGVMRESUME_def)
  next
    assume "cmd_type c = MINI_KVM_COMMAND_SHUTDOWN"
    with assms(1) show ?thesis by (cases "paused k = 0") (simp_all add: s h del: SIGVMSHUTDOWN_def)
  qed
qed

interpretation kvm_server: machine_server "serve_command env" server_state server_answer server_ok
  using serve_command_ask serve_command_act by unfold_locales blast+

lemma handler_flag:
  assumes "handlers t = Some h" and "h env k cmd res w = Inr (ret, k', res', w')" and "vm_state k' = MINI_KVM_RUNNING"
    and "vm_state k = MINI_KVM_RUNNING \<Longrightarrow> paused k = 0"
  shows "paused k' = 0"
  using assms
  by (cases t; auto simp: simple_handlers Let_def res_iff dest!: handle_regs_frame handle_dump_frame split: if_splits)

text \<open>Any command that is handled leaves the server well-formed, whoever sent it.\<close>

lemma serve_command_ok:
  assumes "server_ok s" and "serve_command env c s = Some s'"
  shows "server_ok s'"
proof -
  obtain k res w where s: "s = (k, res, w)" by (cases s)
  obtain ret k' res' w' where h: "mini_kvm_status_handle_command env k c res w = Inr (ret, k', res', w')"
    and s': "s' = (k', res', w')"
    using assms(2) by (auto simp: s serve_command_def split: sum.splits)
  obtain h' res1 where f: "handlers (cmd_type c) = Some h'" "h' env k c res w = Inr (ret, k', res1, w')"
    by (rule handle_command_cases [OF h])
  have fr: "vcpus k' = vcpus k" "vm_state k' = vm_next (cmd_type c) (vm_state k)"
    by (subst handler_frame(1) [OF f], simp)+
  have "paused k' = 0" if "vm_state k' = MINI_KVM_RUNNING"
    using handler_flag [OF f that] assms(1) by (simp add: s server_ok_def)
  with handler_frame(2) [OF f] fr(1) assms(1) show ?thesis by (simp add: s s' server_ok_def)
qed

lemma replay_ok: "replay (serve_command env) cs s = Some s' \<Longrightarrow> server_ok s \<Longrightarrow> server_ok s'"
  by (induction cs arbitrary: s) (auto split: option.splits dest: serve_command_ok)

lemma start_vm_ok:
  assumes "vec_grown (vcpus k)" and "0 < vec_size (vcpus k)" and "paused k = 0" and "\<not> pause_lock k"
  shows "\<exists>ret k2 w'. mini_kvm_start_vm env (Some k) w = Inr (ret, Some k2, w') \<and> server_ok (k2, res, w')
    \<and> vm_state k2 = MINI_KVM_RUNNING \<and> vec_size (vcpus k2) = vec_size (vcpus k)"
proof -
  have "len (vcpus k) \<noteq> 0" using assms(2) by (auto simp: vec_size_def)
  obtain ret vs w' where "start_vcpus env k [0..<vec_size (vcpus k)] w = Inr (ret, k\<lparr>vcpus := vs\<rparr>, w')"
    "vec_grown vs" "vec_size vs = vec_size (vcpus k)"
    using start_vcpus_ok [OF assms(1), of "[0..<vec_size (vcpus k)]" env w] by auto
  moreover have "vec_ok vs" using calculation(2) by (simp add: vec_grown_def)
  ultimately show ?thesis
    using \<open>len (vcpus k) \<noteq> 0\<close> assms(3,4) by (simp add: mini_kvm_start_vm_def server_ok_def lock_ok_def)
qed

section \<open>Clients one after the other\<close>

text \<open>
  Each element is the argument vector of one run of the program after its own name; the result is
  the final server and what each client printed, if every client returns with status 0 and the
  server has handled all it was sent.
\<close>

fun clients ::
  "env \<Rightarrow> cpuid_insn \<Rightarrow> (syscall list \<Rightarrow> bool) \<Rightarrow> (syscall list \<Rightarrow> int option) \<Rightarrow> LoggerState \<Rightarrow> string list list \<Rightarrow> server
     \<Rightarrow> (server \<times> string list) option" where
  "clients senv cpuid stops deliver lg [] s = Some (s, [])"
| "clients senv cpuid stops deliver lg (argv # argvs) s =
     (case handle_command (server_host (serve_command senv) server_state server_answer s) cpuid stops deliver lg argv fresh_world of
        Some (Inr (r, out, w)) \<Rightarrow>
          (case replay (serve_command senv) (sent (trace w)) s of
             Some s' \<Rightarrow> if r = 0 then map_option (\<lambda>(s2, outs). (s2, out # outs)) (clients senv cpuid stops deliver lg argvs s') else None
           | None \<Rightarrow> None)
      | _ \<Rightarrow> None)"

text \<open>The same on the three states.\<close>

fun spec_clients :: "string \<Rightarrow> subcommand list \<Rightarrow> VMState \<Rightarrow> VMState \<times> string list" where
  "spec_clients name [] s = (s, [])"
| "spec_clients name (c # cs) s =
     (let (s', outs) = spec_clients name cs (client_next c s) in (s', client_prints c name s # outs))"

text \<open>An argument vector that runs a client command on the machine of that name.\<close>

definition calls_client :: "string \<Rightarrow> subcommand \<Rightarrow> string list \<Rightarrow> bool" where
  "calls_client name c argv \<longleftrightarrow> c \<noteq> Run_cmd \<and>
     (\<exists>verb args. argv = verb # args \<and> (verb, c) \<in> set commands \<and> spells_name args name)"

lemma one_client:
  assumes "calls_client name c argv" and "length name < 44" and "server_ok s"
  obtains w s' where "handle_command (server_host (serve_command senv) server_state server_answer s) cpuid stops deliver lg argv fresh_world
      = Some (Inr (0, client_prints c name (server_state s), w))"
    and "replay (serve_command senv) (sent (trace w)) s = Some s'" and "server_ok s'"
    and "server_state s' = client_next c (server_state s)"
proof -
  obtain verb args where a: "argv = verb # args" "(verb, c) \<in> set commands" "spells_name args name" "c \<noteq> Run_cmd"
    using assms(1) by (auto simp: calls_client_def)
  have "find_command commands verb = Some c" using find_command_iff a(2) by (metis append_Nil2)
  then show thesis
    using kvm_server.host_subcommand [OF assms(3,2) a(3,4), of senv cpuid stops deliver lg verb] that
    by (auto simp: handle_command_def a(1))
qed

section \<open>Properties\<close>

text \<open>C2. The program without interference of the CPU threads refines a machine with three states: as long as no CPU
  thread takes or gives back \<open>pause_lock\<close> or changes the state (the schedules in which only the main thread of the
  server moves), for every sequence of \<open>pause\<close>, \<open>resume\<close>, \<open>shutdown\<close> and \<open>status\<close> commands given one after the other,
  with a name of less than 44 characters, to a server whose machine is well-formed, every client returns with
  status 0 and the server neither faults nor hangs; the final state of the machine is the one of the
  specification, and each \<open>status\<close> prints the state the machine was in, or that it is no longer running. When CPU
  threads move meanwhile, a pause may block the server (\<open>Vcpu_Threads\<close>).\<close>

theorem clients_refine_states:
  assumes "list_all2 (calls_client name) cs argvs" and "length name < 44" and "server_ok s"
  shows "\<exists>s'. clients senv cpuid stops deliver lg argvs s = Some (s', snd (spec_clients name cs (server_state s)))
    \<and> server_ok s' \<and> server_state s' = fst (spec_clients name cs (server_state s))"
  using assms(1,3)
proof (induction arbitrary: s rule: list_all2_induct)
  case Nil
  then show ?case by simp
next
  case (Cons c cs argv argvs)
  obtain w s1 where s1: "handle_command (server_host (serve_command senv) server_state server_answer s) cpuid stops deliver lg argv fresh_world
      = Some (Inr (0, client_prints c name (server_state s), w))"
    "replay (serve_command senv) (sent (trace w)) s = Some s1" "server_ok s1"
    "server_state s1 = client_next c (server_state s)"
    by (rule one_client [OF Cons.hyps(1) assms(2) Cons.prems])
  from Cons.IH [OF s1(3)] s1 show ?case by (auto simp: Let_def split_beta)
qed

theorem clients_refine_states_witness:
  "\<exists>s'. clients linux_ok intel_cpuid (\<lambda>_. False) (\<lambda>_. None) initial_logger
      [[''pause'', ''-n'', ''vm''], [''pause'', ''-n'', ''vm''], [''status'', ''--name=vm''], [''shutdown'', ''-n'', ''vm'']]
      (two_cpu_vm, zero_result, fresh_world) = Some (s', [[], [], ''vm state: paused'' @ nl, []])
    \<and> server_state s' = MINI_KVM_SHUTDOWN"
proof -
  let ?cs = "[Pause_cmd, Pause_cmd, Status_cmd, Shutdown_cmd]"
  let ?argvs = "[[''pause'', ''-n'', ''vm''], [''pause'', ''-n'', ''vm''], [''status'', ''--name=vm''], [''shutdown'', ''-n'', ''vm'']]"
  let ?s = "(two_cpu_vm, zero_result, fresh_world)"
  have a: "list_all2 (calls_client ''vm'') ?cs ?argvs" "length ''vm'' < 44"
    by (simp_all add: calls_client_def commands_def spells_name_def)
  have o: "server_ok ?s" "server_state ?s = MINI_KVM_RUNNING"
    using two_cpu_vm_ok(2) by (simp_all add: server_ok_def lock_ok_def server_state_def two_cpu_vm_def small_vm_def zero_kvm_def)
  show ?thesis
    using clients_refine_states [OF a o(1), of linux_ok intel_cpuid "\<lambda>_. False" "\<lambda>_. None" initial_logger] o(2)
    by (simp add: client_prints_def del: clients.simps) blast
qed

text \<open>C9. The invariant of the server's handlers, from booting to any command: a machine that \<open>mini_kvm run\<close> has set
  up, given a name and a socket, is started with one thread per CPU and is then well-formed and
  running, even if a thread could not be created; and it is still well-formed after any commands
  that the handlers return from, whoever sends them, as long as no CPU thread interferes: one that enters
  \<open>pthread_cond_wait\<close> gives \<open>pause_lock\<close> back while the pause flag stays set, after which this invariant no longer
  holds (\<open>Vcpu_Threads\<close>).\<close>

theorem server_well_formed:
  assumes "run_boot env cpuid args zero_kvm w = Inr (MINI_KVM_SUCCESS, k, w1)"
    and "0 < ra_vcpu args" and "unat (ra_vcpu args) < 2 ^ 32 - 1"
    and "mini_kvm_ipc_create_socket env (k\<lparr>kvm_name := name, fs_path := path, fs_fd := fd\<rparr>) w2 = Inr (MINI_KVM_SUCCESS, k2, w3)"
  shows "\<exists>ret k3 w4. mini_kvm_start_vm env (Some k2) w3 = Inr (ret, Some k3, w4)
    \<and> server_ok (k3, zero_result, w4) \<and> server_state (k3, zero_result, w4) = MINI_KVM_RUNNING
    \<and> vec_size (vcpus k3) = unat (ra_vcpu args)
    \<and> (\<forall>cmds s. replay (serve_command env) cmds (k3, zero_result, w4) = Some s \<longrightarrow> server_ok s)"
proof -
  obtain news where "length news = unat (ra_vcpu args)" "news \<noteq> []"
    "vec_list (vcpus k) = news[0 := (news ! 0)\<lparr>vcpu_sregs := long_mode_sregs (vcpu_sregs (news ! 0))\<rparr>]"
    "vec_grown (vcpus k)" "paused k = 0" "\<not> pause_lock k"
    by (rule run_boot_phases [OF assms(1-3)])
  moreover from this have "vec_size (vcpus k) = unat (ra_vcpu args)" by (simp add: cvec.size_elems)
  moreover have "vcpus k2 = vcpus k \<and> paused k2 = paused k \<and> pause_lock k2 = pause_lock k"
    using assms(4) by (auto simp: mini_kvm_ipc_create_socket_def Let_def split_beta res_iff split: if_splits)
  ultimately obtain ret k3 w4 where "mini_kvm_start_vm env (Some k2) w3 = Inr (ret, Some k3, w4)"
    "server_ok (k3, zero_result, w4)" "vm_state k3 = MINI_KVM_RUNNING" "vec_size (vcpus k3) = unat (ra_vcpu args)"
    using start_vm_ok [of k2 env w3 zero_result] assms(2) by (auto simp: word_less_nat_alt)
  then show ?thesis using replay_ok by (auto simp: server_state_def)
qed

theorem server_well_formed_witness:
  "\<exists>k k2 w1 w3 ret k3 w4. run_boot linux_ok intel_cpuid boot_args zero_kvm fresh_world = Inr (MINI_KVM_SUCCESS, k, w1)
     \<and> mini_kvm_ipc_create_socket linux_ok (k\<lparr>kvm_name := Some ''vm'', fs_path := Some ''/tmp/mini_kvm/vm'', fs_fd := 3\<rparr>) w1
         = Inr (MINI_KVM_SUCCESS, k2, w3)
     \<and> mini_kvm_start_vm linux_ok (Some k2) w3 = Inr (ret, Some k3, w4) \<and> server_ok (k3, zero_result, w4)"
proof -
  obtain k w1 where b: "run_boot linux_ok intel_cpuid boot_args zero_kvm fresh_world = Inr (MINI_KVM_SUCCESS, k, w1)"
    using run_boot_linux_ok by blast
  obtain k2 w3 where c: "mini_kvm_ipc_create_socket linux_ok
      (k\<lparr>kvm_name := Some ''vm'', fs_path := Some ''/tmp/mini_kvm/vm'', fs_fd := 3\<rparr>) w1 = Inr (MINI_KVM_SUCCESS, k2, w3)"
    by (simp add: mini_kvm_ipc_create_socket_def sun_path_def SUN_PATH_SIZE_def c_str_def os_call_linux_ok Let_def)
  have a: "0 < ra_vcpu boot_args" "unat (ra_vcpu boot_args) < 2 ^ 32 - 1" by (simp_all add: boot_args_def)
  from server_well_formed [OF b a c] b c show ?thesis by blast
qed

end
