(* ===== verification/Server_Loop.thy ===== *)
theory Server_Loop imports Client_Server begin

text \<open>
  The loops of the server (\<open>run_main_loop\<close> of \<open>src/commands/run.c\<close>) together with the clients that connect
  to it. What \<open>accept\<close> and \<open>recv\<close> return to the server is a script: the connections that come, each with
  the commands sent on it. The loops are shown to serve a script as the contract \<open>machine_server\<close> says,
  and the clients are run against the server that serves them.
\<close>

section \<open>What the server receives\<close>

text \<open>The commands still to come on the present connection, and the connections after it.\<close>

type_synonym script = "MiniKvmStatusCommand list \<times> (int \<times> MiniKvmStatusCommand list) list"

fun advance :: "syscall \<Rightarrow> script \<Rightarrow> script" where
  "advance (Accept d) (cur, []) = (cur, [])"
| "advance (Accept d) (cur, (fd, cs) # rest) = (cs, rest)"
| "advance (Recv_cmd fd) (cur, rest) = (tl cur, rest)"
| "advance c p = p"

fun accept_answer :: "script \<Rightarrow> answer" where
  "accept_answer (cur, []) = \<lparr>rv = -1, rerr = EAGAIN, rdata = No_data\<rparr>"
| "accept_answer (cur, (fd, cs) # rest) = \<lparr>rv = fd, rerr = 0, rdata = No_data\<rparr>"

fun recv_answer :: "script \<Rightarrow> answer" where
  "recv_answer ([], rest) = \<lparr>rv = 0, rerr = 0, rdata = No_data\<rparr>"
| "recv_answer (c # cs, rest) = \<lparr>rv = 1, rerr = 0, rdata = Command c\<rparr>"

text \<open>After the calls \<open>b\<close> the system plays the script.\<close>

definition plays :: "env \<Rightarrow> syscall list \<Rightarrow> script \<Rightarrow> bool" where
  "plays env b p \<longleftrightarrow> (\<forall>h d fd. env (b @ h) (Accept d) = accept_answer (fold advance h p)
     \<and> env (b @ h) (Recv_cmd fd) = recv_answer (fold advance h p))"

text \<open>Calls that receive nothing.\<close>

definition quiet :: "syscall list \<Rightarrow> bool" where
  "quiet cs \<longleftrightarrow> (\<forall>c \<in> set cs. (\<forall>d. c \<noteq> Accept d) \<and> (\<forall>fd. c \<noteq> Recv_cmd fd))"

lemma quiet_simps [simp]:
  "quiet []" "quiet (c # cs) \<longleftrightarrow> (\<forall>d. c \<noteq> Accept d) \<and> (\<forall>fd. c \<noteq> Recv_cmd fd) \<and> quiet cs"
  "quiet (cs @ ds) \<longleftrightarrow> quiet cs \<and> quiet ds" "quiet (map (\<lambda>v. Pthread_kill (f v) s) vs)"
  by (auto simp: quiet_def)

lemma advance_quiet: "quiet cs \<Longrightarrow> fold advance cs p = p"
proof (induction cs)
  case (Cons c cs)
  then have "advance c p = p" by (cases p; cases c) auto
  with Cons show ?case by simp
qed simp

lemma plays_answers:
  "plays env b p \<Longrightarrow> env b (Accept d) = accept_answer p" "plays env b p \<Longrightarrow> env b (Recv_cmd fd) = recv_answer p"
  unfolding plays_def by (metis append_Nil2 fold_simps(1))+

lemma plays_append: "plays env b p \<Longrightarrow> plays env (b @ h) (fold advance h p)"
  by (simp add: plays_def)

lemma plays_quiet: "plays env b p \<Longrightarrow> quiet h \<Longrightarrow> plays env (b @ h) p"
  using plays_append advance_quiet by metis

section \<open>One round of a connection\<close>

text \<open>A round of the inner loop: the command is received, handled and answered.\<close>

definition serve_round :: "env \<Rightarrow> int \<Rightarrow> MiniKvmStatusCommand \<Rightarrow> server \<Rightarrow> server option" where
  "serve_round env fd cmd = (\<lambda>(k, res, w).
     map_option (\<lambda>(k', res', w'). (k', res', snd (os_call env (Send_res fd res') w')))
       (serve_command env cmd (k, res, snd (os_call env (Recv_cmd fd) w))))"

lemma server_ok_world: "server_ok (k, res, w) \<longleftrightarrow> server_ok (k, res', w')"
  by (simp add: server_ok_def)

lemma serve_round_from:
  assumes "serve_command env cmd (k, res, snd (os_call env (Recv_cmd fd) w)) = Some s'"
  shows "\<exists>s''. serve_round env fd cmd (k, res, w) = Some s'' \<and> fst s'' = fst s' \<and> server_answer s'' = server_answer s'"
  using assms by (cases s') (simp add: serve_round_def server_answer_def)

interpretation round_server: machine_server "serve_round env fd" server_state server_answer server_ok
proof unfold_locales
  fix s :: server and c :: MiniKvmStatusCommand
  assume ok: "server_ok s" and ty: "cmd_type c = MINI_KVM_COMMAND_SHOW_STATE"
  obtain k res w where s: "s = (k, res, w)" by (cases s)
  let ?s1 = "(k, res, snd (os_call env (Recv_cmd fd) w))"
  have "server_ok ?s1" "server_state ?s1 = server_state s" using ok by (simp_all add: s server_ok_def server_state_def)
  with kvm_server.ask [of ?s1 c env] ty serve_round_from [of env c k res fd w]
  show "\<exists>s'. serve_round env fd c s = Some s' \<and> server_ok s' \<and> server_state s' = server_state s \<and>
      res_state (server_answer s') = server_state s \<and> res_error (server_answer s') = MINI_KVM_SUCCESS
      \<and> res_cmd_type (server_answer s') = cmd_type c"
    by (fastforce simp: s server_ok_def server_state_def)
next
  fix s :: server and c :: MiniKvmStatusCommand
  assume ok: "server_ok s"
    and ty: "cmd_type c \<in> {MINI_KVM_COMMAND_PAUSE, MINI_KVM_COMMAND_RESUME, MINI_KVM_COMMAND_SHUTDOWN}"
    and p: "cmd_type c = MINI_KVM_COMMAND_PAUSE \<Longrightarrow> server_state s = MINI_KVM_RUNNING"
  obtain k res w where s: "s = (k, res, w)" by (cases s)
  let ?s1 = "(k, res, snd (os_call env (Recv_cmd fd) w))"
  have "server_ok ?s1" "server_state ?s1 = server_state s" using ok by (simp_all add: s server_ok_def server_state_def)
  with kvm_server.act [of ?s1 c env] ty p serve_round_from [of env c k res fd w]
  show "\<exists>s'. serve_round env fd c s = Some s' \<and> server_ok s' \<and> server_state s' = vm_next (cmd_type c) (server_state s)"
    by (fastforce simp: s server_ok_def server_state_def)
qed

text \<open>Handling a command receives nothing.\<close>

lemma regs_loop_quiet:
  "regs_loop env k sel is res w = Inr (ret, res', w') \<Longrightarrow> \<exists>cs. trace w' = trace w @ cs \<and> quiet cs"
proof (induction "is" arbitrary: res w)
  case Nil
  then show ?case by simp
next
  case (Cons i "is")
  from Cons.prems show ?case
    by (auto simp: Let_def split_beta res_iff split: if_splits dest!: Cons.IH)
qed

lemma handle_command_quiet:
  assumes "mini_kvm_status_handle_command env k c res w = Inr (ret, k', res', w')" and "vec_ok (vcpus k)"
  obtains cs where "trace w' = trace w @ cs" and "quiet cs"
proof -
  obtain h res1 where h: "handlers (cmd_type c) = Some h" "h env k c res w = Inr (ret, k', res1, w')"
    by (rule handle_command_cases [OF assms(1)])
  have sig: "mini_kvm_send_sig env (k\<lparr>vm_state := x\<rparr>) s w = Inr w1 \<Longrightarrow> \<exists>cs. trace w1 = trace w @ cs \<and> quiet cs" for x s w1
    by (rule send_sig_ok [of "k\<lparr>vm_state := x\<rparr>" env s w]) (use assms(2) in auto)
  have "\<exists>cs. trace w' = trace w @ cs \<and> quiet cs"
    using h
    by (cases "cmd_type c")
      (auto simp: simple_handlers status_handle_regs_def status_handle_dump_mem_def Let_def split_beta res_iff
        split: if_splits option.splits dest!: sig regs_loop_quiet)
  then show thesis using that by blast
qed

section \<open>The loops serve a script\<close>

lemma serve_round_calls:
  assumes "serve_round env fd c (k, res, w) = Some (k', res', w')" and "server_ok (k, res, w)"
  obtains ret cs w2 where "mini_kvm_status_handle_command env k c res (snd (os_call env (Recv_cmd fd) w)) = Inr (ret, k', res', w2)"
    and "w' = snd (os_call env (Send_res fd res') w2)" and "trace w' = trace w @ Recv_cmd fd # cs" and "quiet cs"
    and "server_ok (k', res', w')"
proof -
  let ?w1 = "snd (os_call env (Recv_cmd fd) w)"
  obtain w2 where sc: "serve_command env c (k, res, ?w1) = Some (k', res', w2)" and w': "w' = snd (os_call env (Send_res fd res') w2)"
    using assms(1) by (auto simp: serve_round_def)
  then obtain ret where h: "mini_kvm_status_handle_command env k c res ?w1 = Inr (ret, k', res', w2)"
    by (auto simp: serve_command_def split: sum.splits)
  have "vec_ok (vcpus k)" using assms(2) by (simp add: server_ok_def)
  then obtain cs where "trace w2 = trace ?w1 @ cs" "quiet cs" by (rule handle_command_quiet [OF h])
  moreover have "server_ok (k', res', w')"
    using serve_command_ok [OF _ sc] assms(2) by (simp add: server_ok_def)
  ultimately show thesis by (intro that [OF h w', of "cs @ [Send_res fd res']"]) (simp_all add: w')
qed

text \<open>The inner loop handles exactly the commands of the connection, in order, and ends when there are no more.\<close>

lemma serve_client_script:
  assumes "\<And>h. \<not> stops h" and "replay (serve_round env fd) cs (k, res, w) = Some (k', res', w')"
    and "plays env (trace w) (cs, rest)" and "server_ok (k, res, w)"
  shows "\<exists>cmd'. serve_client env stops fd k cmd res w = Some (Inr (k', cmd', res', snd (os_call env (Recv_cmd fd) w')))
    \<and> plays env (trace w' @ [Recv_cmd fd]) ([], rest) \<and> server_ok (k', res', w')"
  using assms(2-)
proof (induction cs arbitrary: k res w cmd)
  case Nil
  then have "env (trace w) (Recv_cmd fd) = recv_answer ([], rest)" by (simp add: plays_answers)
  moreover have "plays env (trace w @ [Recv_cmd fd]) ([], rest)" using plays_append [OF Nil.prems(2), of "[Recv_cmd fd]"] by simp
  ultimately show ?case
    using Nil assms(1) by (subst serve_client.simps) (simp add: split_beta observe_def)
next
  case (Cons c cs)
  obtain k1 res1 w1 where r: "serve_round env fd c (k, res, w) = Some (k1, res1, w1)"
    and rest: "replay (serve_round env fd) cs (k1, res1, w1) = Some (k', res', w')"
    using Cons.prems(1) by (auto split: option.splits)
  obtain ret ds w2 where s: "mini_kvm_status_handle_command env k c res (snd (os_call env (Recv_cmd fd) w)) = Inr (ret, k1, res1, w2)"
    "w1 = snd (os_call env (Send_res fd res1) w2)" "trace w1 = trace w @ Recv_cmd fd # ds" "quiet ds" "server_ok (k1, res1, w1)"
    by (rule serve_round_calls [OF r Cons.prems(3)])
  have "plays env (trace w @ [Recv_cmd fd]) (cs, rest)" using plays_append [OF Cons.prems(2), of "[Recv_cmd fd]"] by simp
  from plays_quiet [OF this s(4)] have "plays env (trace w1) (cs, rest)" by (simp add: s(3))
  note ih = Cons.IH [OF rest this s(5), of c]
  have "env (trace w) (Recv_cmd fd) = recv_answer (c # cs, rest)" using Cons.prems(2) by (simp add: plays_answers)
  then have "serve_client env stops fd k cmd res w = serve_client env stops fd k1 c res1 w1"
    using assms(1) s(1,2) by (subst serve_client.simps) (simp add: split_beta observe_def)
  with ih show ?case by simp
qed

text \<open>What a connection does to the server, and a sequence of connections; none is accepted after the end.\<close>

definition serve_connection :: "env \<Rightarrow> int \<times> MiniKvmStatusCommand list \<Rightarrow> server \<Rightarrow> server option" where
  "serve_connection env conn = (\<lambda>(k, res, w). let (fd, cs) = conn in
     if vm_state k = MINI_KVM_SHUTDOWN then None
     else map_option (\<lambda>(k', res', w'). (k', res', snd (os_call env (Recv_cmd fd) w')))
       (replay (serve_round env fd) cs (k, res, snd (os_call env (Accept (sock k)) w))))"

fun serve_connections :: "env \<Rightarrow> (int \<times> MiniKvmStatusCommand list) list \<Rightarrow> server \<Rightarrow> server option" where
  "serve_connections env [] s = Some s"
| "serve_connections env (conn # conns) s =
     (case serve_connection env conn s of None \<Rightarrow> None | Some s' \<Rightarrow> serve_connections env conns s')"

lemma main_loop_script:
  assumes "\<And>h. \<not> stops h" and "\<And>h. sigs h \<noteq> SIGINT \<and> sigs h \<noteq> SIGTERM"
    and "serve_connections env conns (k, res, w) = Some (k', res', w')" and "vm_state k' = MINI_KVM_SHUTDOWN"
    and "\<forall>(fd, cs) \<in> set conns. 0 < fd" and "plays env (trace w) ([], conns)" and "server_ok (k, res, w)"
  shows "main_loop env stops sigs k cmd res w = Some (Inr (k', w'))"
  using assms(3-)
proof (induction conns arbitrary: k res w cmd)
  case Nil
  with assms(1) show ?case by (subst main_loop.simps) (simp add: observe_def)
next
  case (Cons conn conns)
  obtain fd cs where conn: "conn = (fd, cs)" by (cases conn)
  let ?w0 = "snd (os_call env (Accept (sock k)) w)"
  obtain k1 res1 w1 where run: "vm_state k \<noteq> MINI_KVM_SHUTDOWN"
    and r: "replay (serve_round env fd) cs (k, res, ?w0) = Some (k1, res1, w1)"
    and rest: "serve_connections env conns (k1, res1, snd (os_call env (Recv_cmd fd) w1)) = Some (k', res', w')"
    using Cons.prems(1) by (auto simp: conn serve_connection_def split: option.splits if_splits)
  have a: "env (trace w) (Accept (sock k)) = \<lparr>rv = fd, rerr = 0, rdata = No_data\<rparr>" and fd: "0 < fd"
    using plays_answers(1) [OF Cons.prems(4)] Cons.prems(3) by (simp_all add: conn)
  have p: "plays env (trace ?w0) (cs, conns)" using plays_append [OF Cons.prems(4), of "[Accept (sock k)]"] by (simp add: conn)
  have ok: "server_ok (k, res, ?w0)" using Cons.prems(5) by (simp add: server_ok_def)
  obtain cmd1 where c: "serve_client env stops fd k cmd res ?w0 = Some (Inr (k1, cmd1, res1, snd (os_call env (Recv_cmd fd) w1)))"
    "plays env (trace w1 @ [Recv_cmd fd]) ([], conns)" "server_ok (k1, res1, w1)"
    using serve_client_script [where stops = stops, OF assms(1) r p ok] by blast
  have "main_loop env stops sigs k cmd res w = main_loop env stops sigs k1 cmd1 res1 (snd (os_call env (Recv_cmd fd) w1))"
    using run a fd c(1) assms(1,2)
    by (subst main_loop.simps) (simp add: observe_def mini_kvm_ipc_receive_cmd_def check_signals_def split_beta)
  moreover have "server_ok (k1, res1, snd (os_call env (Recv_cmd fd) w1))" using c(3) by (simp add: server_ok_def)
  ultimately show ?case using Cons.IH [OF rest Cons.prems(2)] Cons.prems(3) c(2) by simp
qed

section \<open>Clients that connect to the server\<close>

text \<open>
  Each element is a descriptor the server gets from \<open>accept\<close> and the argument vector of the client at the
  other end. A client sees the server as it is when the connection is accepted; the server is then
  served what the client has sent.
\<close>

fun sessions ::
  "env \<Rightarrow> cpuid_insn \<Rightarrow> (syscall list \<Rightarrow> bool) \<Rightarrow> (syscall list \<Rightarrow> int option) \<Rightarrow> LoggerState \<Rightarrow> (int \<times> string list) list \<Rightarrow> server
     \<Rightarrow> (server \<times> string list) option" where
  "sessions senv cpuid stops deliver lg [] s = Some (s, [])"
| "sessions senv cpuid stops deliver lg ((fd, argv) # rest) s =
     (let (k, res, w) = s; s1 = (k, res, snd (os_call senv (Accept (sock k)) w)) in
      case handle_command (server_host (serve_round senv fd) server_state server_answer s1) cpuid stops deliver lg argv fresh_world of
        Some (Inr (r, out, cw)) \<Rightarrow>
          if r \<noteq> 0 then None
          else (case serve_connection senv (fd, sent (trace cw)) s of None \<Rightarrow> None
            | Some s' \<Rightarrow> map_option (\<lambda>(s2, outs). (s2, out # outs)) (sessions senv cpuid stops deliver lg rest s'))
      | _ \<Rightarrow> None)"

fun spec_talks :: "subcommand list \<Rightarrow> VMState \<Rightarrow> MiniKvmStatusCommand list list" where
  "spec_talks [] s = []"
| "spec_talks (c # cs) s = client_talk c s # spec_talks cs (client_next c s)"

lemma client_next_alive:
  "s \<noteq> MINI_KVM_SHUTDOWN \<Longrightarrow> c \<noteq> Shutdown_cmd \<Longrightarrow> client_next c s \<noteq> MINI_KVM_SHUTDOWN"
  by (cases c; cases s) simp_all

lemma spec_clients_shutdown: "fst (spec_clients name (cs @ [Shutdown_cmd]) s) = MINI_KVM_SHUTDOWN"
proof (induction cs arbitrary: s)
  case Nil
  then show ?case by (cases s) simp_all
qed (simp add: split_beta)

lemma length_spec_talks [simp]: "length (spec_talks cs s) = length cs"
  by (induction cs arbitrary: s) simp_all

text \<open>One client and its connection.\<close>

lemma one_session:
  assumes "calls_client name c argv" and "length name < 44" and "server_ok (k, res, w)" and "vm_state k \<noteq> MINI_KVM_SHUTDOWN"
  obtains cw s' where "handle_command (server_host (serve_round senv fd) server_state server_answer
        (k, res, snd (os_call senv (Accept (sock k)) w))) cpuid stops deliver lg argv fresh_world
      = Some (Inr (0, client_prints c name (vm_state k), cw))"
    and "sent (trace cw) = client_talk c (vm_state k)"
    and "serve_connection senv (fd, client_talk c (vm_state k)) (k, res, w) = Some s'" and "server_ok s'"
    and "server_state s' = client_next c (vm_state k)"
proof -
  let ?s1 = "(k, res, snd (os_call senv (Accept (sock k)) w))"
  obtain verb args where a: "argv = verb # args" "(verb, c) \<in> set commands" "spells_name args name" "c \<noteq> Run_cmd"
    using assms(1) by (auto simp: calls_client_def)
  have f: "find_command commands verb = Some c" using find_command_iff a(2) by (metis append_Nil2)
  have ok: "server_ok ?s1" and st: "server_state ?s1 = vm_state k" using assms(3) by (simp_all add: server_ok_def server_state_def)
  obtain cw s1 where c: "run_subcommand (server_host (serve_round senv fd) server_state server_answer ?s1) cpuid stops deliver lg c
      (verb # args) fresh_world = Some (Inr (0, client_prints c name (vm_state k), cw))"
    "replay (serve_round senv fd) (sent (trace cw)) ?s1 = Some s1" "server_ok s1" "server_state s1 = client_next c (vm_state k)"
    "sent (trace cw) = client_talk c (vm_state k)"
    using round_server.host_subcommand [OF ok assms(2) a(3,4), of senv fd cpuid stops deliver lg verb] st by auto
  have "serve_connection senv (fd, client_talk c (vm_state k)) (k, res, w)
      = Some (fst s1, fst (snd s1), snd (os_call senv (Recv_cmd fd) (snd (snd s1))))"
    using c(2,5) assms(4) by (cases s1) (simp add: serve_connection_def)
  with c f a(1) show thesis
    by (intro that [of cw "(fst s1, fst (snd s1), snd (os_call senv (Recv_cmd fd) (snd (snd s1))))"]) (auto simp: handle_command_def server_ok_def server_state_def)
qed

lemma sessions_serve:
  assumes "list_all2 (calls_client name) cs argvs" and "length fds = length argvs" and "length name < 44" and "server_ok s"
    and "cs \<noteq> [] \<Longrightarrow> server_state s \<noteq> MINI_KVM_SHUTDOWN" and "Shutdown_cmd \<notin> set (butlast cs)"
  shows "\<exists>s'. sessions senv cpuid stops deliver lg (zip fds argvs) s = Some (s', snd (spec_clients name cs (server_state s)))
    \<and> serve_connections senv (zip fds (spec_talks cs (server_state s))) s = Some s'
    \<and> server_state s' = fst (spec_clients name cs (server_state s))"
  using assms(1,2,4-)
proof (induction arbitrary: s fds rule: list_all2_induct)
  case Nil
  then show ?case by simp
next
  case (Cons c cs argv argvs)
  obtain fd fds' where fds: "fds = fd # fds'" "length fds' = length argvs" using Cons.prems(1) by (cases fds) auto
  obtain k res w where s: "s = (k, res, w)" by (cases s)
  have run: "vm_state k \<noteq> MINI_KVM_SHUTDOWN" using Cons.prems(3) by (simp add: s server_state_def)
  have ok: "server_ok (k, res, w)" using Cons.prems(2) by (simp add: s)
  obtain cw s1 where c: "handle_command (server_host (serve_round senv fd) server_state server_answer
        (k, res, snd (os_call senv (Accept (sock k)) w))) cpuid stops deliver lg argv fresh_world
      = Some (Inr (0, client_prints c name (vm_state k), cw))"
    "sent (trace cw) = client_talk c (vm_state k)" "serve_connection senv (fd, client_talk c (vm_state k)) (k, res, w) = Some s1"
    "server_ok s1" "server_state s1 = client_next c (vm_state k)"
    by (rule one_session [OF Cons.hyps(1) assms(3) ok run])
  have "cs \<noteq> [] \<Longrightarrow> server_state s1 \<noteq> MINI_KVM_SHUTDOWN" "Shutdown_cmd \<notin> set (butlast cs)"
    using Cons.prems(4) client_next_alive [OF run, of c] c(5) by (auto split: if_splits)
  from Cons.IH [OF fds(2) c(4) this] c show ?case
    by (auto simp: s fds(1) server_state_def Let_def split_beta)
qed

section \<open>Properties\<close>

text \<open>C1. Server and clients as two programs, while the CPU threads do not interfere: no CPU thread takes or gives
  back \<open>pause_lock\<close> or changes the state while the server runs, and no SIGINT or SIGTERM is noticed (the
  schedules of the main thread alone; \<open>Vcpu_Threads\<close> has one in which a CPU thread interferes and a pause blocks
  the server for good). Let clients connect one after the other to a well-formed server
  whose machine is not shut down, the last with \<open>shutdown\<close> and the others with \<open>pause\<close>, \<open>resume\<close> or \<open>status\<close>, with
  a name of less than 44 characters. If the server accepts those connections in that order and receives on each
  what its client sends according to the specification, then the main loop of the server returns, with the
  machine shut down, in exactly the state in which the clients left it; and each client has sent just that,
  printed what the specification says and returned 0.\<close>

theorem server_serves_clients:
  assumes "list_all2 (calls_client name) (cs @ [Shutdown_cmd]) argvs" and "Shutdown_cmd \<notin> set cs" and "length name < 44"
    and "length fds = length argvs" and "\<And>fd. fd \<in> set fds \<Longrightarrow> 0 < fd"
    and "server_ok (k, res, w)" and "vm_state k \<noteq> MINI_KVM_SHUTDOWN"
    and "\<And>h. \<not> stops h" and "\<And>h. sigs h \<noteq> SIGINT \<and> sigs h \<noteq> SIGTERM"
    and "plays senv (trace w) ([], zip fds (spec_talks (cs @ [Shutdown_cmd]) (vm_state k)))"
  shows "\<exists>k' res' w'. main_loop senv stops sigs k cmd res w = Some (Inr (k', w')) \<and> vm_state k' = MINI_KVM_SHUTDOWN
    \<and> sessions senv cpuid stops deliver lg (zip fds argvs) (k, res, w)
        = Some ((k', res', w'), snd (spec_clients name (cs @ [Shutdown_cmd]) (vm_state k)))"
proof -
  have st: "server_state (k, res, w) = vm_state k" by (simp add: server_state_def)
  obtain k' res' w' where s: "sessions senv cpuid stops deliver lg (zip fds argvs) (k, res, w)
      = Some ((k', res', w'), snd (spec_clients name (cs @ [Shutdown_cmd]) (vm_state k)))"
    "serve_connections senv (zip fds (spec_talks (cs @ [Shutdown_cmd]) (vm_state k))) (k, res, w) = Some (k', res', w')"
    "vm_state k' = MINI_KVM_SHUTDOWN"
    using sessions_serve [OF assms(1,4,3,6), of senv cpuid stops deliver lg] assms(2,7) spec_clients_shutdown
    by (auto simp: st) (auto simp: server_state_def)
  have "\<forall>(fd, ts) \<in> set (zip fds (spec_talks (cs @ [Shutdown_cmd]) (vm_state k))). 0 < fd"
    using assms(5) by (auto dest: set_zip_leftD)
  from main_loop_script [where stops = stops and sigs = sigs, OF assms(8,9) s(2,3) this assms(10,6)] s show ?thesis by blast
qed

text \<open>A host that plays a script from the start, for the witness.\<close>

definition script_host :: "script \<Rightarrow> env" where
  "script_host p h c = (case c of Accept d \<Rightarrow> accept_answer (fold advance h p)
     | Recv_cmd fd \<Rightarrow> recv_answer (fold advance h p) | _ \<Rightarrow> linux_ok h c)"

lemma script_host_plays: "plays (script_host p) [] p"
  by (simp add: plays_def script_host_def)

theorem server_serves_clients_witness:
  "\<exists>senv k' res' w'. main_loop senv (\<lambda>_. False) (\<lambda>_. 0) two_cpu_vm zero_command zero_result fresh_world = Some (Inr (k', w'))
     \<and> vm_state k' = MINI_KVM_SHUTDOWN
     \<and> sessions senv intel_cpuid (\<lambda>_. False) (\<lambda>_. None) initial_logger
         [(7, [''pause'', ''-n'', ''vm'']), (8, [''status'', ''--name=vm'']), (9, [''shutdown'', ''-n'', ''vm''])]
         (two_cpu_vm, zero_result, fresh_world) = Some ((k', res', w'), [[], ''vm state: paused'' @ nl, []])"
proof -
  let ?cs = "[Pause_cmd, Status_cmd]" and ?fds = "[7, 8, 9 :: int]"
  let ?argvs = "[[''pause'', ''-n'', ''vm''], [''status'', ''--name=vm''], [''shutdown'', ''-n'', ''vm'']]"
  let ?p = "([], zip ?fds (spec_talks (?cs @ [Shutdown_cmd]) (vm_state two_cpu_vm)))"
  have a: "list_all2 (calls_client ''vm'') (?cs @ [Shutdown_cmd]) ?argvs" "Shutdown_cmd \<notin> set ?cs" "length ''vm'' < 44"
    "length ?fds = length ?argvs" "fd \<in> set ?fds \<Longrightarrow> 0 < fd" for fd
    by (auto simp: calls_client_def commands_def spells_name_def)
  have r: "vm_state two_cpu_vm = MINI_KVM_RUNNING"
    by (simp add: two_cpu_vm_def small_vm_def zero_kvm_def)
  have o: "server_ok (two_cpu_vm, zero_result, fresh_world)" "vm_state two_cpu_vm \<noteq> MINI_KVM_SHUTDOWN"
    using two_cpu_vm_ok(2) r by (simp_all add: server_ok_def lock_ok_def two_cpu_vm_def small_vm_def zero_kvm_def)
  have p: "plays (script_host ?p) (trace fresh_world) ?p" using script_host_plays by (simp add: fresh_world_def)
  have q: "\<not> (\<lambda>_. False) h" "(\<lambda>_. 0) h \<noteq> SIGINT \<and> (\<lambda>_. 0) h \<noteq> SIGTERM" for h :: "syscall list" by simp_all
  have out: "snd (spec_clients ''vm'' (?cs @ [Shutdown_cmd]) (vm_state two_cpu_vm)) = [[], ''vm state: paused'' @ nl, []]"
    by (simp add: r client_prints_def)
  show ?thesis
    using server_serves_clients [where stops = "\<lambda>_. False" and sigs = "\<lambda>_. 0", OF a o q p,
        of zero_command intel_cpuid "\<lambda>_. None" initial_logger] unfolding out by auto
qed

end
