(* ===== verification/Status_Session.thy ===== *)
theory Status_Session imports Server_Loop begin

text \<open>
  \<open>mini_kvm status\<close> from end to end (\<open>src/commands/status.c\<close>). With \<open>-m\<close> the client parses a range, sends it to
  the server with its own process number, and the server writes the dump of its guest memory to the
  standard output of the client through \<open>/proc\<close>. With \<open>-v\<close> and \<open>-r\<close> it sends the mask of a list of CPUs, and
  prints the registers the server has read from the kernel.
\<close>

section \<open>The client\<close>

definition dump_cmd :: "u64 list \<Rightarrow> int \<Rightarrow> MiniKvmStatusCommand" where
  "dump_cmd rng pid = zero_command\<lparr>cmd_type := MINI_KVM_COMMAND_DUMP_MEM, cmd_mem_range := rng, cmd_pid := pid\<rparr>"

text \<open>The numbers that are not given have defaults.\<close>

definition full_range :: "u64 list \<Rightarrow> u64 list" where
  "full_range ws = ws @ drop (length ws) [0, -1, 2, 16]"

lemma status_parse_dump:
  assumes "ws \<noteq> []" and "length ws \<le> 4" and "errno_clear e"
  obtains args where "status_parse_args [v, ''-n'', name, ''-m'', list_text ws] e = Inr args" and "sa_ret args = MINI_KVM_SUCCESS"
    and "sa_errno args = e" and "sa_name args = Some name" and "sa_cmd_count args = 1"
    and "\<And>env w. status_build_command env args 0 zero_command w = Inr (MINI_KVM_SUCCESS,
           dump_cmd (full_range ws) (rv (env (trace w) Getpid)), snd (os_call env Getpid w))"
proof -
  have "length ws \<le> 1000" using assms(2) by simp
  then obtain l where l: "mini_kvm_parse_int_list (list_text ws) e = Inr (0, l, e)" "vec_list l = ws" "vec_size l = length ws"
    by (rule parse_list_text [OF assms(1) _ assms(3)])
  have g: "getopt_long ''n:v:rm:h'' status_opts_def [''-n'', name, ''-m'', a] = [(CHR ''n'', Some name), (CHR ''m'', Some a)]" for a
    using getopt_short_arg [of "''n:v:rm:h''" "CHR ''n''" status_opts_def name "[''-m'', a]"] by (simp add: getopt_mem_option)
  show thesis
    by (rule that [of "(zero_status_args e)\<lparr>sa_name := Some name, sa_mem_range := Some l,
        sa_cmds := (replicate 7 MINI_KVM_COMMAND_NONE)[0 := MINI_KVM_COMMAND_DUMP_MEM], sa_cmd_count := 1\<rparr>"])
      (use assms(2) in \<open>simp_all add: status_parse_args_def g zero_status_args_def status_args_failed_def
        status_arg_body_def l push_cmd_def status_build_command_def fill_mem_range_def MEM_RANGE_DEFAULTS_def
        full_range_def dump_cmd_def Let_def split_beta not_le\<close>)
qed

text \<open>What the client prints itself: a message when the machine is not paused.\<close>

definition dump_prints :: "string \<Rightarrow> MiniKVMError \<Rightarrow> string" where
  "dump_prints name e = (if e = MINI_KVM_STATUS_CMD_VM_NOT_PAUSED
     then ''VM '' @ name @ '' is not paused, please pause the VM before sending request'' @ nl else [])"

context machine_server
begin

text \<open>A client whose arguments are one command: it sends that command and prints the answer.\<close>

lemma host_one_command:
  assumes "st s \<noteq> MINI_KVM_SHUTDOWN" and "length name < 44"
    and args: "status_parse_args argv 0 = Inr args" "sa_ret args = MINI_KVM_SUCCESS" "sa_errno args = 0"
      "sa_name args = Some name" "sa_cmd_count args = 1"
    and build: "\<And>w. \<exists>w'. status_build_command (host s) args 0 zero_command w = Inr (MINI_KVM_SUCCESS, c, w')
      \<and> sent (trace w') = sent (trace w)"
    and "serve c s = Some s'"
  shows "\<exists>cw. mini_kvm_status (host s) argv fresh_world = Inr (MINI_KVM_SUCCESS, status_handle_command_result args (answer s'), cw)
    \<and> sent (trace cw) = [c]"
proof -
  obtain w1 cs where c1: "mini_kvm_check_vm (host s) name fresh_world = (if st s = MINI_KVM_SHUTDOWN then -1 else 0, w1)"
    "trace w1 = trace fresh_world @ cs" "sent cs = []"
    by (rule host_check_vm)
  obtain fd w2 ds where c2: "mini_kvm_ipc_connect (host s) name w1 = Inr (fd, w2)" "0 \<le> fd"
    "trace w2 = trace w1 @ ds" "sent ds = []"
    by (rule host_connect [OF assms(2)])
  obtain w2' where b: "status_build_command (host s) args 0 zero_command w2 = Inr (MINI_KVM_SUCCESS, c, w2')"
    "sent (trace w2') = sent (trace w2)"
    using build by blast
  have n: "sent (trace w2') = []" using b c1 c2 by (simp add: fresh_world_def)
  have r: "replay serve (sent (trace w2') @ [c]) s = Some s'" using n assms(9) by simp
  obtain w3 where w3: "mini_kvm_ipc_send_cmd (host s) fd c zero_result w2' = (0, answer s', w3)"
    "trace w3 = trace w2' @ [Send_cmd fd c, Recv_res fd]"
    by (rule host_send [OF r])
  show ?thesis
    using args c1 c2 b(1) w3 n assms(1) by (simp add: mini_kvm_status_def fresh_world_def status_send_command_def)
qed

end

section \<open>The server\<close>

text \<open>The calls of a round with a dump command, and its answer.\<close>

definition dump_calls :: "env \<Rightarrow> syscall list \<Rightarrow> int \<Rightarrow> string \<Rightarrow> syscall list" where
  "dump_calls senv h pid text =
     (let op = Open (''/proc/'' @ int_string pid @ ''/fd/1'') O_RDWR; f = rv (senv h op) in [op, Write f (string_bytes text), Close f])"

lemma handle_dump_paused:
  assumes "vm_state k = MINI_KVM_PAUSED" and "\<And>h p. rv (senv h (Open p O_RDWR)) \<noteq> -1"
    and "mini_kvm_dump_mem k (rng ! 0) (if rng ! 1 = -1 then mem_size k else rng ! 1) (ucast (rng ! 2)) (ucast (rng ! 3)) = Some (Inr text)"
  shows "\<exists>w'. status_handle_dump_mem senv k (dump_cmd rng pid) res w = Inr (MINI_KVM_SUCCESS, k, res, w')
    \<and> trace w' = trace w @ dump_calls senv (trace w) pid text"
  using assms by (simp add: status_handle_dump_mem_def dump_cmd_def dump_calls_def Let_def split_beta del: One_nat_def)

lemma serve_dump_round:
  assumes "vm_state k = MINI_KVM_PAUSED" and "\<And>h p. rv (senv h (Open p O_RDWR)) \<noteq> -1"
    and "mini_kvm_dump_mem k (rng ! 0) (if rng ! 1 = -1 then mem_size k else rng ! 1) (ucast (rng ! 2)) (ucast (rng ! 3)) = Some (Inr text)"
  shows "\<exists>res' w'. serve_round senv fd (dump_cmd rng pid) (k, res, w) = Some (k, res', w')
    \<and> res_error res' = MINI_KVM_SUCCESS \<and> res_cmd_type res' = MINI_KVM_COMMAND_DUMP_MEM
    \<and> trace w' = trace w @ [Recv_cmd fd] @ dump_calls senv (trace w @ [Recv_cmd fd]) pid text @ [Send_res fd res']"
proof -
  obtain w1 where "status_handle_dump_mem senv k (dump_cmd rng pid) res (snd (os_call senv (Recv_cmd fd) w)) = Inr (MINI_KVM_SUCCESS, k, res, w1)"
    "trace w1 = trace w @ [Recv_cmd fd] @ dump_calls senv (trace w @ [Recv_cmd fd]) pid text"
    using handle_dump_paused [where senv = senv, OF assms, of pid res "snd (os_call senv (Recv_cmd fd) w)"] by auto
  moreover have "cmd_type (dump_cmd rng pid) = MINI_KVM_COMMAND_DUMP_MEM" by (simp add: dump_cmd_def)
  ultimately show ?thesis by (simp add: serve_round_def serve_command_def mini_kvm_status_handle_command_def)
qed

lemma serve_dump_refused:
  assumes "vm_state k \<noteq> MINI_KVM_PAUSED"
  shows "\<exists>res' w'. serve_round senv fd (dump_cmd rng pid) (k, res, w) = Some (k, res', w')
    \<and> res_error res' = MINI_KVM_STATUS_CMD_VM_NOT_PAUSED \<and> res_cmd_type res' = MINI_KVM_COMMAND_DUMP_MEM
    \<and> trace w' = trace w @ [Recv_cmd fd, Send_res fd res']"
  using assms
  by (simp add: serve_round_def serve_command_def mini_kvm_status_handle_command_def status_handle_dump_mem_def dump_cmd_def)

text \<open>Client and server, whatever the server answers.\<close>

lemma one_command_session:
  assumes "vm_state k \<noteq> MINI_KVM_SHUTDOWN" and "length name < 44"
    and "status_parse_args (''status'' # opts) 0 = Inr args" and "sa_ret args = MINI_KVM_SUCCESS" and "sa_errno args = 0"
    and "sa_name args = Some name" and "sa_cmd_count args = 1"
    and build: "\<And>env w. (\<And>h. rv (env h Getpid) = 4242) \<Longrightarrow>
      \<exists>w'. status_build_command env args 0 zero_command w = Inr (MINI_KVM_SUCCESS, c, w') \<and> sent (trace w') = sent (trace w)"
    and "serve_round senv fd c (k, res, snd (os_call senv (Accept (sock k)) w)) = Some (k', res', w1)"
  shows "sessions senv cpuid stops deliver lg [(fd, ''status'' # opts)] (k, res, w)
    = Some ((k', res', snd (os_call senv (Recv_cmd fd) w1)), [status_handle_command_result args res'])"
proof -
  let ?s1 = "(k, res, snd (os_call senv (Accept (sock k)) w))"
  let ?host = "server_host (serve_round senv fd) server_state server_answer ?s1"
  have f: "find_command commands ''status'' = Some Status_cmd" by (simp add: commands_def strncmp_eq_def)
  have st: "server_state ?s1 \<noteq> MINI_KVM_SHUTDOWN" using assms(1) by (simp add: server_state_def)
  have b: "\<exists>w'. status_build_command ?host args 0 zero_command w = Inr (MINI_KVM_SUCCESS, c, w') \<and> sent (trace w') = sent (trace w)" for w
    by (rule build) (simp add: server_host_def)
  obtain cw where "mini_kvm_status ?host (''status'' # opts) fresh_world = Inr (MINI_KVM_SUCCESS, status_handle_command_result args res', cw)"
    "sent (trace cw) = [c]"
    using round_server.host_one_command [OF st assms(2-7) b assms(9)] by (auto simp: server_answer_def)
  with f assms(1,9) show ?thesis
    by (simp add: handle_command_def run_subcommand_def exit_status_def serve_connection_def)
qed

lemma dump_session:
  assumes "vm_state k \<noteq> MINI_KVM_SHUTDOWN" and "length name < 44" and "ws \<noteq> []" and "length ws \<le> 4"
    and "serve_round senv fd (dump_cmd (full_range ws) 4242) (k, res, snd (os_call senv (Accept (sock k)) w)) = Some (k', res', w1)"
    and "res_cmd_type res' = MINI_KVM_COMMAND_DUMP_MEM"
  shows "sessions senv cpuid stops deliver lg [(fd, [''status'', ''-n'', name, ''-m'', list_text ws])] (k, res, w)
    = Some ((k', res', snd (os_call senv (Recv_cmd fd) w1)), [dump_prints name (res_error res')])"
proof -
  have "errno_clear 0" by (simp add: errno_clear_def)
  then obtain args where a: "status_parse_args [''status'', ''-n'', name, ''-m'', list_text ws] 0 = Inr args" "sa_ret args = MINI_KVM_SUCCESS"
    "sa_errno args = 0" "sa_name args = Some name" "sa_cmd_count args = 1"
    "\<And>env w. status_build_command env args 0 zero_command w = Inr (MINI_KVM_SUCCESS,
       dump_cmd (full_range ws) (rv (env (trace w) Getpid)), snd (os_call env Getpid w))"
    by (rule status_parse_dump [OF assms(3,4), of 0 "''status''" name]) blast
  have "status_handle_command_result args res' = dump_prints name (res_error res')"
    using a(4) assms(6) by (simp add: status_handle_command_result_def c_str_def dump_prints_def)
  with one_command_session [OF assms(1,2) a(1-5) _ assms(5)] a(6) show ?thesis by simp
qed

section \<open>Registers\<close>

definition regs_cmd :: "u64 \<Rightarrow> MiniKvmStatusCommand" where
  "regs_cmd sel = zero_command\<lparr>cmd_type := MINI_KVM_COMMAND_SHOW_REGS, cmd_vcpus := sel\<rparr>"

lemma parse_cpu_list_text:
  assumes "ws \<noteq> []" and "length ws \<le> 1000" and "\<forall>w \<in> set ws. unat w < 31" and "errno_clear e"
  obtains sel where "mini_kvm_parse_cpu_list (Some (list_text ws)) 0 e = Inr (MINI_KVM_SUCCESS, sel, e)"
    and "\<And>i. bit sel i \<longleftrightarrow> i \<in> unat ` set ws" and "sel \<noteq> 0"
proof -
  have t: "length (list_text ws) \<le> vec_limit" "int_list_spec (list_text ws) = Some (map unat ws)"
    using list_text_length [of ws] assms(2) int_list_spec_join [OF assms(1)]
    by (simp_all add: list_text_def comp_def vec_limit_def)
  have ne: "list_text ws \<noteq> []" using t(2) assms(1) by (auto simp: int_list_spec_def)
  obtain sel where sel: "mini_kvm_parse_cpu_list (Some (list_text ws)) 0 e = Inr (MINI_KVM_SUCCESS, sel, e)"
    "\<And>i. bit sel i \<longleftrightarrow> i \<in> unat ` set ws"
    using parse_cpu_list_mask [OF assms(4) t(1) ne t(2), of 0] assms(3) by auto
  have "bit sel (unat (hd ws))" using assms(1) by (simp add: sel(2))
  then have "sel \<noteq> 0" by auto
  with sel show thesis by (rule that)
qed

lemma status_parse_regs:
  assumes "ws \<noteq> []" and "length ws \<le> 1000" and "\<forall>w \<in> set ws. unat w < 31" and "errno_clear e"
  obtains args sel where "status_parse_args [v, ''-n'', name, ''-v'', list_text ws, ''-r''] e = Inr args" and "sa_ret args = MINI_KVM_SUCCESS"
    and "sa_errno args = e" and "sa_name args = Some name" and "sa_cmd_count args = 1" and "\<And>i. bit sel i \<longleftrightarrow> i \<in> unat ` set ws"
    and "\<And>env w. status_build_command env args 0 zero_command w = Inr (MINI_KVM_SUCCESS, regs_cmd sel, w)"
proof -
  obtain sel where sel: "mini_kvm_parse_cpu_list (Some (list_text ws)) 0 e = Inr (MINI_KVM_SUCCESS, sel, e)"
    "\<And>i. bit sel i \<longleftrightarrow> i \<in> unat ` set ws" "sel \<noteq> 0"
    by (rule parse_cpu_list_text [OF assms]) blast
  have g: "getopt_long ''n:v:rm:h'' status_opts_def [''-n'', name, ''-v'', a, ''-r''] = [(CHR ''n'', Some name), (CHR ''v'', Some a), (CHR ''r'', None)]" for a
    using getopt_short_arg [of "''n:v:rm:h''" "CHR ''n''" status_opts_def name "[''-v'', a, ''-r'']"]
      getopt_short_arg [of "''n:v:rm:h''" "CHR ''v''" status_opts_def a "[''-r'']"] getopt_regs_options [of 1] by simp
  show thesis
    by (rule that [of "(zero_status_args e)\<lparr>sa_name := Some name, sa_vcpus := sel, sa_regs := True,
        sa_cmds := (replicate 7 MINI_KVM_COMMAND_NONE)[0 := MINI_KVM_COMMAND_SHOW_REGS], sa_cmd_count := 1\<rparr>" sel])
      (simp_all add: status_parse_args_def g zero_status_args_def status_args_failed_def
        status_arg_body_def sel push_cmd_def status_build_command_def regs_cmd_def Let_def)
qed

text \<open>The kernel answers with the registers \<open>R f\<close> and \<open>S f\<close> of the CPU whose descriptor is \<open>f\<close>.\<close>

definition answers_regs :: "env \<Rightarrow> (int \<Rightarrow> kvm_regs) \<Rightarrow> (int \<Rightarrow> kvm_sregs) \<Rightarrow> bool" where
  "answers_regs env R S \<longleftrightarrow> (\<forall>h f. rv (env h (Ioctl f KVM_GET_REGS)) = 0 \<and> rdata (env h (Ioctl f KVM_GET_REGS)) = Regs (R f)
     \<and> rv (env h (Ioctl f KVM_GET_SREGS)) = 0 \<and> rdata (env h (Ioctl f KVM_GET_SREGS)) = Sregs (S f))"

definition store_regs :: "kvm_regs \<Rightarrow> kvm_sregs \<Rightarrow> MiniKvmStatusResult \<Rightarrow> MiniKvmStatusResult" where
  "store_regs x y res = res\<lparr>res_regs := (res_regs res)[0 := x], res_sregs := (res_sregs res)[0 := y]\<rparr>"

definition last_regs :: "Kvm \<Rightarrow> (int \<Rightarrow> kvm_regs) \<Rightarrow> (int \<Rightarrow> kvm_sregs) \<Rightarrow> nat list \<Rightarrow> MiniKvmStatusResult \<Rightarrow> MiniKvmStatusResult" where
  "last_regs k R S js res = (if js = [] then res
     else let f = vcpu_fd (vec_list (vcpus k) ! List.last js) in store_regs (R f) (S f) res)"

definition regs_calls :: "Kvm \<Rightarrow> nat list \<Rightarrow> syscall list" where
  "regs_calls k js = concat (map (\<lambda>i. let f = vcpu_fd (vec_list (vcpus k) ! i) in [Ioctl f KVM_GET_REGS, Ioctl f KVM_GET_SREGS]) js)"

text \<open>What the client is to print of one CPU.\<close>

definition regs_block :: "nat \<Rightarrow> kvm_regs \<times> kvm_sregs \<Rightarrow> string" where
  "regs_block i p = ''VCPU '' @ dec_string i @ '' regs'' @ nl @ mini_kvm_print_regs (fst p) @ nl
     @ ''VCPU '' @ dec_string i @ '' sregs'' @ nl @ mini_kvm_print_sregs (snd p)"

lemma concat_map_filter_if:
  "(\<And>x. x \<in> set xs \<Longrightarrow> f x = (if P x then g x else [])) \<Longrightarrow> concat (map f xs) = concat (map g (filter P xs))"
  by (induction xs) simp_all

lemma last_regs_Cons:
  "last_regs k R S js (store_regs (R (vcpu_fd (vec_list (vcpus k) ! i))) (S (vcpu_fd (vec_list (vcpus k) ! i))) res)
    = last_regs k R S (i # js) res"
  by (simp add: last_regs_def store_regs_def Let_def)

lemma regs_loop_last:
  assumes "vec_ok (vcpus k)" and "answers_regs env R S" and "\<And>i. i \<in> set is \<Longrightarrow> i < vec_size (vcpus k) \<and> i < 64"
  shows "\<exists>w'. regs_loop env k sel is res w = Inr (MINI_KVM_SUCCESS, last_regs k R S (filter (bit sel) is) res, w')
    \<and> trace w' = trace w @ regs_calls k (filter (bit sel) is)"
  using assms(3)
proof (induction "is" arbitrary: res w)
  case Nil
  show ?case by (simp add: last_regs_def regs_calls_def)
next
  case (Cons i "is")
  let ?f = "vcpu_fd (vec_list (vcpus k) ! i)"
  have get: "vec_get (vcpus k) i = Inr (vec_list (vcpus k) ! i)" "\<not> 64 \<le> i"
    using Cons.prems [of i] vec_get_nth [OF assms(1), of i] by (auto simp: not_le)
  note IH = Cons.IH [of "store_regs (R ?f) (S ?f) res" "snd (os_call env (Ioctl ?f KVM_GET_SREGS) (snd (os_call env (Ioctl ?f KVM_GET_REGS) w)))"]
    Cons.IH [of res w]
  show ?case
    using get assms(2) IH Cons.prems
    by (auto simp: answers_regs_def Let_def split_beta last_regs_Cons regs_calls_def) (simp_all add: store_regs_def last_regs_def Let_def)
qed

lemma serve_regs_round:
  fixes sel :: u64
  assumes "vm_state k = MINI_KVM_PAUSED" and "vec_ok (vcpus k)" and "vec_size (vcpus k) \<le> 64" and "answers_regs senv R S"
  defines "js \<equiv> filter (bit sel) [0..<vec_size (vcpus k)]"
  shows "\<exists>res' w'. serve_round senv fd (regs_cmd sel) (k, res, w) = Some (k, res', w')
    \<and> res' = (last_regs k R S js res)\<lparr>res_cmd_type := MINI_KVM_COMMAND_SHOW_REGS, res_vcpus := sel, res_error := MINI_KVM_SUCCESS\<rparr>
    \<and> trace w' = trace w @ [Recv_cmd fd] @ regs_calls k js @ [Send_res fd res']"
proof -
  have "\<exists>w'. regs_loop senv k sel [0..<vec_size (vcpus k)] res (snd (os_call senv (Recv_cmd fd) w))
      = Inr (MINI_KVM_SUCCESS, last_regs k R S js res, w')
    \<and> trace w' = trace (snd (os_call senv (Recv_cmd fd) w)) @ regs_calls k js"
    unfolding js_def by (rule regs_loop_last [OF assms(2,4)]) (use assms(3) in auto)
  then show ?thesis
    using assms(1) by (auto simp: serve_round_def serve_command_def mini_kvm_status_handle_command_def regs_cmd_def status_handle_regs_def)
qed

section \<open>Properties\<close>

text \<open>C10. A memory dump from end to end: \<open>mini_kvm status -n NAME -m RANGE\<close>, with one to four numbers, for a line that
  is a whole number of words and a range that, completed by the defaults, aligned to words and cut at the end of
  memory, is a whole number of lines and less than 4 GiB (memory and end below \<open>2 ^ 63\<close>, a line below 2 GiB), when the
  standard output of the client can be opened, on a paused machine makes the server write
  exactly the specified text of that range of its guest memory to the standard output of the client,
  once, and close it; the client prints nothing itself and returns 0. On a running machine the server
  opens and writes nothing and the client says that the machine is not paused. Neither changes the
  machine.\<close>

theorem status_dumps_memory:
  assumes "vm_state k \<noteq> MINI_KVM_SHUTDOWN" and "length name < 44" and "ws \<noteq> []" and "length ws \<le> 4"
    and "\<And>h p. rv (senv h (Open p O_RDWR)) \<noteq> -1"
    and rng: "rng = ws @ drop (length ws) [0, -1, 2, 16]" and fin: "fin = (if rng ! 1 = -1 then mem_size k else rng ! 1)"
    and wd: "wd = unat (ucast (rng ! 2) :: u32)" and ln: "ln = unat (ucast (rng ! 3) :: u32)"
    and "mem k \<noteq> 0" and "unat (mem_size k) < 2 ^ 63" and "unat fin + wd < 2 ^ 63"
    and "0 < wd" and "0 < n" and "ln = n * wd" and "ln < 2 ^ 31"
    and lo: "lo = dump_lo (unat (rng ! 0)) wd" and hi: "hi = dump_hi (unat fin) wd (unat (mem_size k))"
    and "lo \<le> hi" and "hi - lo < 2 ^ 32" and "hi - lo = nb * ln"
  defines "text \<equiv> dump_header lo hi @ dump_text (guest k) lo wd ln n [0..<nb]"
  shows "\<exists>res' w'. sessions senv cpuid stops deliver lg [(fd, [''status'', ''-n'', name, ''-m'', list_text ws])] (k, res, w)
      = Some ((k, res', w'), [if vm_state k = MINI_KVM_PAUSED then []
          else ''VM '' @ name @ '' is not paused, please pause the VM before sending request'' @ nl])
    \<and> trace w' = trace w @ [Accept (sock k), Recv_cmd fd]
        @ (if vm_state k = MINI_KVM_PAUSED then dump_calls senv (trace w @ [Accept (sock k), Recv_cmd fd]) 4242 text else [])
        @ [Send_res fd res', Recv_cmd fd]"
proof -
  let ?w0 = "snd (os_call senv (Accept (sock k)) w)"
  have rg: "full_range ws = rng" by (simp add: rng full_range_def)
  have m: "mini_kvm_dump_mem k (rng ! 0) (if rng ! 1 = -1 then mem_size k else rng ! 1) (ucast (rng ! 2)) (ucast (rng ! 3)) = Some (Inr text)"
    unfolding text_def wd ln fin [symmetric]
    by (rule dump_mem_range_text) (use assms in simp_all)
  show ?thesis
  proof (cases "vm_state k = MINI_KVM_PAUSED")
    case True
    obtain res' w1 where r: "serve_round senv fd (dump_cmd rng 4242) (k, res, ?w0) = Some (k, res', w1)"
      "res_error res' = MINI_KVM_SUCCESS" "res_cmd_type res' = MINI_KVM_COMMAND_DUMP_MEM"
      "trace w1 = trace ?w0 @ [Recv_cmd fd] @ dump_calls senv (trace ?w0 @ [Recv_cmd fd]) 4242 text @ [Send_res fd res']"
      using serve_dump_round [where senv = senv, OF True assms(5) m] by blast
    with True dump_session [OF assms(1-4), of senv fd res w k res' w1 cpuid stops deliver lg] show ?thesis
      by (simp add: rg dump_prints_def)
  next
    case False
    obtain res' w1 where r: "serve_round senv fd (dump_cmd rng 4242) (k, res, ?w0) = Some (k, res', w1)"
      "res_error res' = MINI_KVM_STATUS_CMD_VM_NOT_PAUSED" "res_cmd_type res' = MINI_KVM_COMMAND_DUMP_MEM"
      "trace w1 = trace ?w0 @ [Recv_cmd fd, Send_res fd res']"
      using serve_dump_refused [OF False, of senv fd rng 4242 res ?w0] by blast
    with False dump_session [OF assms(1-4), of senv fd res w k res' w1 cpuid stops deliver lg] show ?thesis
      by (simp add: rg dump_prints_def)
  qed
qed

theorem status_dumps_memory_witness:
  "\<exists>res' w'. sessions linux_ok intel_cpuid (\<lambda>_. False) (\<lambda>_. None) initial_logger
      [(9, [''status'', ''-n'', ''vm'', ''-m'', list_text [0x4fe0]])] (small_vm\<lparr>vm_state := MINI_KVM_PAUSED\<rparr>, zero_result, fresh_world)
      = Some ((small_vm\<lparr>vm_state := MINI_KVM_PAUSED\<rparr>, res', w'), [[]])
    \<and> Write 3 (string_bytes (dump_header 0x4fe0 0x5000 @ dump_text (guest small_vm) 0x4fe0 2 16 8 [0..<2])) \<in> set (trace w')"
proof -
  let ?k = "small_vm\<lparr>vm_state := MINI_KVM_PAUSED\<rparr>" and ?rng = "[0x4fe0, -1, 2, 16] :: u64 list"
  have a: "vm_state ?k \<noteq> MINI_KVM_SHUTDOWN" "length ''vm'' < 44" "[0x4fe0 :: u64] \<noteq> []" "length [0x4fe0 :: u64] \<le> 4" by simp_all
  have op: "rv (linux_ok h (Open p O_RDWR)) \<noteq> -1" for h p by (simp add: linux_ok_def)
  have r: "?rng = [0x4fe0] @ drop (length [0x4fe0 :: u64]) [0, -1, 2, 16]"
    "(0x5000 :: u64) = (if ?rng ! 1 = -1 then mem_size ?k else ?rng ! 1)"
    "2 = unat (ucast (?rng ! 2) :: u32)" "16 = unat (ucast (?rng ! 3) :: u32)"
    "mem ?k \<noteq> 0" "unat (mem_size ?k) < 2 ^ 63" "unat (0x5000 :: u64) + 2 < 2 ^ 63" "0 < (2 :: nat)" "0 < (8 :: nat)"
    "16 = 8 * (2 :: nat)" "16 < (2 ^ 31 :: nat)" "0x4fe0 = dump_lo (unat (?rng ! 0)) 2"
    "0x5000 = dump_hi (unat (0x5000 :: u64)) 2 (unat (mem_size ?k))" "0x4fe0 \<le> (0x5000 :: nat)"
    "0x5000 - 0x4fe0 < (2 ^ 32 :: nat)" "0x5000 - 0x4fe0 = 2 * (16 :: nat)"
    by (simp_all add: small_vm_def dump_lo_def dump_hi_def)
  obtain res' w' where "sessions linux_ok intel_cpuid (\<lambda>_. False) (\<lambda>_. None) initial_logger
      [(9, [''status'', ''-n'', ''vm'', ''-m'', list_text [0x4fe0]])] (?k, zero_result, fresh_world)
      = Some ((?k, res', w'), [if vm_state ?k = MINI_KVM_PAUSED then []
          else ''VM '' @ ''vm'' @ '' is not paused, please pause the VM before sending request'' @ nl])"
    "trace w' = trace fresh_world @ [Accept (sock ?k), Recv_cmd 9]
        @ (if vm_state ?k = MINI_KVM_PAUSED then dump_calls linux_ok (trace fresh_world @ [Accept (sock ?k), Recv_cmd 9]) 4242
            (dump_header 0x4fe0 0x5000 @ dump_text (guest ?k) 0x4fe0 2 16 8 [0..<2]) else []) @ [Send_res 9 res', Recv_cmd 9]"
    using status_dumps_memory [where senv = linux_ok and fd = 9 and res = zero_result and w = fresh_world and cpuid = intel_cpuid
        and stops = "\<lambda>_. False" and deliver = "\<lambda>_. None" and lg = initial_logger, OF a op r] by blast
  then show ?thesis
    by (intro exI [of _ res'] exI [of _ w']) (simp add: dump_calls_def Let_def linux_ok_def del: sessions.simps upt_Suc)
qed

text \<open>C11. Registers from end to end: \<open>mini_kvm status -n NAME -v LIST -r\<close>, for CPU numbers below 31, on a paused
  machine of at most 64 CPUs whose register reads succeed makes the server read the registers of each CPU of the list that the machine has, in order,
  and nothing else, and the client prints a block for each number of the list, in increasing order. But the
  server stores every answer in the first slot: the block of CPU 0 shows the registers of the last CPU that
  was read, and every other block what its slot of the result held before. On a machine
  that is not paused nothing is read and the client says so. Neither changes the machine.\<close>

theorem status_shows_registers:
  assumes "vm_state k \<noteq> MINI_KVM_SHUTDOWN" and "length name < 44" and "vec_ok (vcpus k)" and "vec_size (vcpus k) \<le> 64"
    and "ws \<noteq> []" and "length ws \<le> 1000" and "\<forall>w \<in> set ws. unat w < 31" and "answers_regs senv R S"
    and "length (res_regs res) = 64" and "length (res_sregs res) = 64"
  defines "js \<equiv> filter (\<lambda>i. i \<in> unat ` set ws) [0..<vec_size (vcpus k)]"
  defines "shown \<equiv> (\<lambda>i. if i = 0 \<and> js \<noteq> [] then let f = vcpu_fd (vec_list (vcpus k) ! List.last js) in (R f, S f)
    else (res_regs res ! i, res_sregs res ! i))"
  shows "\<exists>res' w'. sessions senv cpuid stops deliver lg [(fd, [''status'', ''-n'', name, ''-v'', list_text ws, ''-r''])] (k, res, w)
      = Some ((k, res', w'), [if vm_state k = MINI_KVM_PAUSED
          then concat (map (\<lambda>i. regs_block i (shown i)) (filter (\<lambda>i. i \<in> unat ` set ws) [0..<64]))
          else ''VM '' @ name @ '' is not paused, please pause the VM before sending request'' @ nl])
    \<and> trace w' = trace w @ [Accept (sock k), Recv_cmd fd]
        @ (if vm_state k = MINI_KVM_PAUSED then regs_calls k js else []) @ [Send_res fd res', Recv_cmd fd]"
proof -
  have "errno_clear 0" by (simp add: errno_clear_def)
  then obtain args sel where a: "status_parse_args [''status'', ''-n'', name, ''-v'', list_text ws, ''-r''] 0 = Inr args"
    "sa_ret args = MINI_KVM_SUCCESS" "sa_errno args = 0" "sa_name args = Some name" "sa_cmd_count args = 1"
    "\<And>i. bit sel i \<longleftrightarrow> i \<in> unat ` set ws"
    "\<And>env w. status_build_command env args 0 zero_command w = Inr (MINI_KVM_SUCCESS, regs_cmd sel, w)"
    by (rule status_parse_regs [OF assms(5-7), of 0 "''status''" name]) blast
  let ?w0 = "snd (os_call senv (Accept (sock k)) w)"
  note session = one_command_session [OF assms(1,2) a(1-5), of "regs_cmd sel"]
  have js: "filter (bit sel) [0..<vec_size (vcpus k)] = js" unfolding js_def by (intro filter_cong) (simp_all add: a(6))
  show ?thesis
  proof (cases "vm_state k = MINI_KVM_PAUSED")
    case True
    obtain res' w1 where r: "serve_round senv fd (regs_cmd sel) (k, res, ?w0) = Some (k, res', w1)"
      "res' = (last_regs k R S js res)\<lparr>res_cmd_type := MINI_KVM_COMMAND_SHOW_REGS, res_vcpus := sel, res_error := MINI_KVM_SUCCESS\<rparr>"
      "trace w1 = trace ?w0 @ [Recv_cmd fd] @ regs_calls k js @ [Send_res fd res']"
      using serve_regs_round [OF True assms(3,4,8), of fd sel res ?w0] by (auto simp: js)
    have show_i: "show_vcpu res' i = (if i \<in> unat ` set ws then regs_block i (shown i) else [])"
      if "i < 64" for i
      using that assms(9,10)
      by (cases "i = 0") (simp_all add: show_vcpu_def regs_block_def r(2) a(6) shown_def last_regs_def store_regs_def Let_def)
    have "concat (map (show_vcpu res') [0..<64]) = concat (map (\<lambda>i. regs_block i (shown i)) (filter (\<lambda>i. i \<in> unat ` set ws) [0..<64]))"
      using show_i by (intro concat_map_filter_if) simp
    then have "status_handle_command_result args res' = concat (map (\<lambda>i. regs_block i (shown i)) (filter (\<lambda>i. i \<in> unat ` set ws) [0..<64]))"
      by (simp add: status_handle_command_result_def r(2) MINI_KVM_MAX_VCPUS_def)
    with session [of senv fd res w k res' w1 cpuid stops deliver lg] r a(7) True show ?thesis by simp
  next
    case False
    obtain res' w1 where r: "serve_round senv fd (regs_cmd sel) (k, res, ?w0) = Some (k, res', w1)"
      "res_error res' = MINI_KVM_STATUS_CMD_VM_NOT_PAUSED" "trace w1 = trace ?w0 @ [Recv_cmd fd, Send_res fd res']"
      using False by (simp add: serve_round_def serve_command_def mini_kvm_status_handle_command_def regs_cmd_def status_handle_regs_def)
    have "status_handle_command_result args res' = ''VM '' @ name @ '' is not paused, please pause the VM before sending request'' @ nl"
      by (simp add: status_handle_command_result_def r(2) a(4) c_str_def)
    with session [of senv fd res w k res' w1 cpuid stops deliver lg] r a(7) False show ?thesis by simp
  qed
qed

text \<open>A kernel that answers with registers that tell the CPUs apart.\<close>

definition regs_env :: env where
  "regs_env h c = (case c of Ioctl f KVM_GET_REGS \<Rightarrow> \<lparr>rv = 0, rerr = 0, rdata = Regs (zero_regs\<lparr>rax := word_of_int f\<rparr>)\<rparr>
     | Ioctl f KVM_GET_SREGS \<Rightarrow> \<lparr>rv = 0, rerr = 0, rdata = Sregs zero_sregs\<rparr> | _ \<Rightarrow> linux_ok h c)"

theorem status_shows_registers_witness:
  "\<exists>res' w'. sessions regs_env intel_cpuid (\<lambda>_. False) (\<lambda>_. None) initial_logger
      [(9, [''status'', ''-n'', ''vm'', ''-v'', list_text [0, 1], ''-r''])] (two_cpu_vm\<lparr>vm_state := MINI_KVM_PAUSED\<rparr>, zero_result, fresh_world)
      = Some ((two_cpu_vm\<lparr>vm_state := MINI_KVM_PAUSED\<rparr>, res', w'),
          [regs_block 0 (zero_regs\<lparr>rax := 11\<rparr>, zero_sregs) @ regs_block 1 (zero_regs, zero_sregs)])"
proof -
  let ?k = "two_cpu_vm\<lparr>vm_state := MINI_KVM_PAUSED\<rparr>" and ?R = "\<lambda>f. zero_regs\<lparr>rax := word_of_int f\<rparr>" and ?S = "\<lambda>_ :: int. zero_sregs"
  have a: "vm_state ?k \<noteq> MINI_KVM_SHUTDOWN" "length ''vm'' < 44" "vec_ok (vcpus ?k)" "vec_size (vcpus ?k) \<le> 64"
    "[0, 1 :: u64] \<noteq> []" "length [0, 1 :: u64] \<le> 1000" "\<forall>w \<in> set [0, 1 :: u64]. unat w < 31" "answers_regs regs_env ?R ?S"
    "length (res_regs zero_result) = 64" "length (res_sregs zero_result) = 64"
    using two_cpu_vm_ok by (simp_all add: answers_regs_def regs_env_def zero_result_def MINI_KVM_MAX_VCPUS_def)
  have "[0..<64] = 0 # 1 # [2..<64::nat]" by (simp add: upt_rec)
  then have l: "filter (\<lambda>i. i \<in> unat ` set [0, 1 :: u64]) [0..<64] = [0, 1 :: nat]"
    by simp
  have js: "filter (\<lambda>i. i \<in> unat ` set [0, 1 :: u64]) [0..<vec_size (vcpus ?k)] = [0, 1]"
    using two_cpu_vm_ok(3) by (simp add: numeral_2_eq_2)
  show ?thesis
    using status_shows_registers [where cpuid = intel_cpuid and stops = "\<lambda>_. False" and deliver = "\<lambda>_. None"
        and lg = initial_logger and fd = 9 and w = fresh_world, OF a, unfolded l js] two_cpu_vm_ok(4)
    by (auto simp: zero_result_def MINI_KVM_MAX_VCPUS_def simp del: sessions.simps)
qed

end
