(* ===== verification/Vcpu_Threads.thy ===== *)
theory Vcpu_Threads imports Control begin

text \<open>
  The threads of the virtual CPUs (\<open>kvm_vcpu_thread_run\<close>, \<open>src/kvm/kvm.c\<close>) and the main thread that
  pauses, resumes and shuts the machine down (\<open>mini_kvm_pause_vm\<close>, \<open>mini_kvm_resume_vm\<close> and the
  handlers of \<open>src/commands/status.c\<close>), as one transition system in which the threads interleave at
  every access to the shared fields \<open>state\<close>, \<open>paused\<close> and the mutex \<open>pause_lock\<close>. The mutex is the
  C library's default one, a lock word any thread may release: \<open>pthread_cond_wait\<close> releases it even
  though the CPU thread does not hold it, and takes it again before it returns. There are no
  spurious wake-ups. What the guest does, and so the reason of each exit, is free. \<open>KVM_RUN\<close> has no
  failure branch here: its result is stored in an unsigned enumeration before it is compared with
  zero, so the branch at line 360 is never taken and a failed call goes on to the switch as well.
  \<open>m_console\<close> is what the threads print to the standard output, in the order of the calls; the text of
  the registers goes through the buffer of \<open>stdout\<close> and may appear later than that.
\<close>

section \<open>State\<close>

datatype vm_exit =
    KVM_EXIT_HLT
  | KVM_EXIT_IO io_exit
  | KVM_EXIT_SHUTDOWN
  | KVM_EXIT_INTERNAL_ERROR kvm_regs   \<comment> \<open>with \<open>vcpu->regs\<close> as \<open>KVM_GET_REGS\<close> leaves it\<close>
  | KVM_EXIT_INTR
  | KVM_EXIT_FAIL_ENTRY
  | KVM_EXIT_UNKNOWN
  | KVM_EXIT_OTHER

text \<open>Where a CPU thread is.\<close>

datatype vcpu_pc =
    T_Start               \<comment> \<open>before the loop\<close>
  | T_Loop                \<comment> \<open>at \<open>while (kvm->state != MINI_KVM_SHUTDOWN)\<close>\<close>
  | T_State               \<comment> \<open>at \<open>if (kvm->state == MINI_KVM_PAUSED)\<close>\<close>
  | T_Paused              \<comment> \<open>at \<open>while (kvm->paused)\<close>\<close>
  | T_Block               \<comment> \<open>at the call of \<open>pthread_cond_wait\<close>\<close>
  | T_Wait                \<comment> \<open>inside \<open>pthread_cond_wait\<close>, not yet woken\<close>
  | T_Relock              \<comment> \<open>inside \<open>pthread_cond_wait\<close>, woken, taking the mutex again\<close>
  | T_Run                 \<comment> \<open>at \<open>ioctl(vcpu->fd, KVM_RUN)\<close>\<close>
  | T_Exit vm_exit        \<comment> \<open>at the switch on the exit reason\<close>
  | T_Done                \<comment> \<open>returned\<close>

text \<open>Where the main thread is.\<close>

datatype main_pc =
    M_Start               \<comment> \<open>at \<open>kvm->state = MINI_KVM_RUNNING\<close> of \<open>mini_kvm_start_vm\<close>\<close>
  | M_Idle
  | M_Pause_Lock          \<comment> \<open>at \<open>pthread_mutex_lock\<close> of \<open>mini_kvm_pause_vm\<close>\<close>
  | M_Pause_Set           \<comment> \<open>at \<open>kvm->paused = 1\<close>\<close>
  | M_Resume_Clear        \<comment> \<open>at \<open>kvm->paused = 0\<close> of \<open>mini_kvm_resume_vm\<close>\<close>
  | M_Resume_Signal       \<comment> \<open>at \<open>pthread_cond_signal\<close>\<close>
  | M_Resume_Unlock       \<comment> \<open>at \<open>pthread_mutex_unlock\<close>\<close>
  | M_Shutdown_Test       \<comment> \<open>at \<open>if (kvm->paused)\<close> of \<open>status_handle_shutdown\<close>\<close>

record machine =
  m_state :: VMState
  m_paused :: bool
  m_lock :: bool
  m_main :: main_pc
  m_cpus :: "vcpu_pc list"
  m_console :: "u8 list"

section \<open>Steps\<close>

text \<open>The effect of an exit on the shared state.\<close>

fun handle_exit :: "vm_exit \<Rightarrow> machine \<Rightarrow> machine" where
  "handle_exit KVM_EXIT_HLT s = s\<lparr>m_state := MINI_KVM_SHUTDOWN\<rparr>"
| "handle_exit (KVM_EXIT_IO io) s =
     (if io_out io then
        (if io_port io = 0x3f8 then s\<lparr>m_console := m_console s @ [io_byte io]\<rparr>
         else s\<lparr>m_state := MINI_KVM_SHUTDOWN\<rparr>)
      else s)"
| "handle_exit KVM_EXIT_SHUTDOWN s = s\<lparr>m_state := MINI_KVM_SHUTDOWN\<rparr>"
| "handle_exit (KVM_EXIT_INTERNAL_ERROR regs) s =
     s\<lparr>m_state := MINI_KVM_SHUTDOWN, m_console := m_console s @ string_bytes (mini_kvm_print_regs regs)\<rparr>"
| "handle_exit KVM_EXIT_INTR s = s"
| "handle_exit KVM_EXIT_FAIL_ENTRY s = s\<lparr>m_state := MINI_KVM_SHUTDOWN\<rparr>"
| "handle_exit KVM_EXIT_UNKNOWN s = s"
| "handle_exit KVM_EXIT_OTHER s = s"

definition set_pc :: "nat \<Rightarrow> vcpu_pc \<Rightarrow> machine \<Rightarrow> machine" where
  "set_pc i pc s = s\<lparr>m_cpus := (m_cpus s)[i := pc]\<rparr>"

text \<open>One step of CPU thread \<open>i\<close>; \<open>e\<close> is the exit reason, should the guest run now.\<close>

definition thread_next :: "nat \<Rightarrow> vm_exit \<Rightarrow> machine \<Rightarrow> machine option" where
  "thread_next i e s =
     (if i < length (m_cpus s) then
        case m_cpus s ! i of
          T_Start \<Rightarrow> Some (set_pc i T_Loop s)
        | T_Loop \<Rightarrow> Some (set_pc i (if m_state s = MINI_KVM_SHUTDOWN then T_Done else T_State) s)
        | T_State \<Rightarrow> Some (set_pc i (if m_state s = MINI_KVM_PAUSED then T_Paused else T_Run) s)
        | T_Paused \<Rightarrow> Some (set_pc i (if m_paused s then T_Block else T_Loop) s)
        | T_Block \<Rightarrow> Some (set_pc i T_Wait (s\<lparr>m_lock := False\<rparr>))
        | T_Wait \<Rightarrow> None
        | T_Relock \<Rightarrow> if m_lock s then None else Some (set_pc i T_Paused (s\<lparr>m_lock := True\<rparr>))
        | T_Run \<Rightarrow> Some (set_pc i (T_Exit e) s)
        | T_Exit x \<Rightarrow> Some (set_pc i T_Loop (handle_exit x s))
        | T_Done \<Rightarrow> None
      else None)"

text \<open>What the main thread may do next: begin to handle a command, or notice SIGINT or SIGTERM in
  \<open>run_main_loop\<close> (\<open>Do_Signal\<close>); \<open>Go\<close> continues the handler it is in, \<open>Wake i\<close> chooses the
  thread a condition signal wakes.\<close>

datatype main_op = Do_Pause | Do_Resume | Do_Shutdown | Do_Signal | Go | Wake nat

definition main_next :: "main_op \<Rightarrow> machine \<Rightarrow> machine option" where
  "main_next m s =
     (case (m_main s, m) of
        (M_Start, Go) \<Rightarrow> Some (s\<lparr>m_state := MINI_KVM_RUNNING, m_main := M_Idle\<rparr>)
      | (M_Idle, Do_Pause) \<Rightarrow> Some (s\<lparr>m_state := MINI_KVM_PAUSED, m_main := M_Pause_Lock\<rparr>)
      | (M_Pause_Lock, Go) \<Rightarrow> if m_lock s then None else Some (s\<lparr>m_lock := True, m_main := M_Pause_Set\<rparr>)
      | (M_Pause_Set, Go) \<Rightarrow> Some (s\<lparr>m_paused := True, m_main := M_Idle\<rparr>)
      | (M_Idle, Do_Resume) \<Rightarrow> Some (s\<lparr>m_state := MINI_KVM_RUNNING, m_main := M_Resume_Clear\<rparr>)
      | (M_Resume_Clear, Go) \<Rightarrow> Some (s\<lparr>m_paused := False, m_main := M_Resume_Signal\<rparr>)
      | (M_Resume_Signal, Go) \<Rightarrow>
          if T_Wait \<in> set (m_cpus s) then None else Some (s\<lparr>m_main := M_Resume_Unlock\<rparr>)
      | (M_Resume_Signal, Wake i) \<Rightarrow>
          if i < length (m_cpus s) \<and> m_cpus s ! i = T_Wait
          then Some (set_pc i T_Relock (s\<lparr>m_main := M_Resume_Unlock\<rparr>)) else None
      | (M_Resume_Unlock, Go) \<Rightarrow> Some (s\<lparr>m_lock := False, m_main := M_Idle\<rparr>)
      | (M_Idle, Do_Shutdown) \<Rightarrow> Some (s\<lparr>m_state := MINI_KVM_SHUTDOWN, m_main := M_Shutdown_Test\<rparr>)
      | (M_Idle, Do_Signal) \<Rightarrow> Some (s\<lparr>m_state := MINI_KVM_SHUTDOWN\<rparr>)
      | (M_Shutdown_Test, Go) \<Rightarrow> Some (s\<lparr>m_main := (if m_paused s then M_Resume_Clear else M_Idle)\<rparr>)
      | _ \<Rightarrow> None)"

datatype action = Main main_op | Cpu nat vm_exit

definition exec :: "action \<Rightarrow> machine \<Rightarrow> machine option" where
  "exec a s = (case a of Main m \<Rightarrow> main_next m s | Cpu i e \<Rightarrow> thread_next i e s)"

fun run_actions :: "action list \<Rightarrow> machine \<Rightarrow> machine option" where
  "run_actions [] s = Some s"
| "run_actions (a # as) s = (case exec a s of None \<Rightarrow> None | Some s' \<Rightarrow> run_actions as s')"

inductive steps :: "machine \<Rightarrow> machine \<Rightarrow> bool" where
  refl: "steps s s"
| main: "steps s s1 \<Longrightarrow> main_next m s1 = Some s2 \<Longrightarrow> steps s s2"
| cpu: "steps s s1 \<Longrightarrow> thread_next i e s1 = Some s2 \<Longrightarrow> steps s s2"

text \<open>Steps of the CPU threads alone, with the main thread where it is.\<close>

inductive cpu_steps :: "nat \<Rightarrow> machine \<Rightarrow> machine \<Rightarrow> bool" where
  none: "cpu_steps 0 s s"
| more: "cpu_steps n s s1 \<Longrightarrow> thread_next i e s1 = Some s2 \<Longrightarrow> cpu_steps (Suc n) s s2"

text \<open>
  A machine of \<open>n\<close> CPUs whose threads have just been created, in the state \<open>calloc\<close> gives it, and one that
  has been started.
\<close>

definition created :: "nat \<Rightarrow> machine" where
  "created n = \<lparr>m_state = MINI_KVM_PAUSED, m_paused = False, m_lock = False, m_main = M_Start,
     m_cpus = replicate n T_Start, m_console = []\<rparr>"

definition started :: "nat \<Rightarrow> machine" where
  "started n = \<lparr>m_state = MINI_KVM_RUNNING, m_paused = False, m_lock = False, m_main = M_Idle,
     m_cpus = replicate n T_Start, m_console = []\<rparr>"

text \<open>What the main thread does in a run, and that no exit of a guest but \<open>KVM_EXIT_INTR\<close> occurs in it.\<close>

fun main_ops :: "action list \<Rightarrow> main_op list" where
  "main_ops [] = []"
| "main_ops (Main m # as) = m # main_ops as"
| "main_ops (Cpu i e # as) = main_ops as"

fun only_intr :: "action list \<Rightarrow> bool" where
  "only_intr [] = True"
| "only_intr (Main m # as) = only_intr as"
| "only_intr (Cpu i e # as) = (e = KVM_EXIT_INTR \<and> only_intr as)"

text \<open>The operations that begin to handle a command, or a signal of the terminal.\<close>

definition begins :: "main_op \<Rightarrow> bool" where
  "begins m \<longleftrightarrow> m \<in> {Do_Pause, Do_Resume, Do_Shutdown, Do_Signal}"

section \<open>Lemmas\<close>

lemma steps_trans: "steps s1 s2 \<Longrightarrow> steps s s1 \<Longrightarrow> steps s s2"
  by (induction rule: steps.induct) (auto intro: steps.main steps.cpu)

lemma run_actions_steps: "run_actions as s = Some s' \<Longrightarrow> steps s s'"
proof (induction "as" arbitrary: s)
  case Nil
  then show ?case by (simp add: steps.refl)
next
  case (Cons a "as")
  then obtain s1 where s1: "exec a s = Some s1" "run_actions as s1 = Some s'" by (auto split: option.splits)
  have "steps s s1"
    using s1(1) steps.main [OF steps.refl] steps.cpu [OF steps.refl] by (cases a) (auto simp: exec_def)
  with Cons.IH [OF s1(2)] show ?case by (rule steps_trans)
qed

text \<open>An invariant of single steps is an invariant of runs.\<close>

lemma steps_invariant:
  assumes "steps s s'" and "P s" and "\<And>s m s'. P s \<Longrightarrow> main_next m s = Some s' \<Longrightarrow> P s'"
    and "\<And>s i e s'. P s \<Longrightarrow> thread_next i e s = Some s' \<Longrightarrow> P s'"
  shows "P s'"
  using assms(1,2) by (induction rule: steps.induct) (auto intro: assms(3,4))

subsection \<open>Work left\<close>

definition work :: "(vcpu_pc \<Rightarrow> nat) \<Rightarrow> machine \<Rightarrow> nat" where
  "work rank s = sum_list (map rank (m_cpus s))"

lemma sum_list_update:
  "i < length xs \<Longrightarrow> sum_list (map f (xs[i := y])) + f (xs ! i) = sum_list (map f xs) + (f y :: nat)"
  by (induction xs arbitrary: i) (auto split: nat.splits)

lemma work_set_pc:
  "i < length (m_cpus s) \<Longrightarrow> m_cpus s0 = m_cpus s \<Longrightarrow> rank pc < rank (m_cpus s ! i) \<Longrightarrow>
    work rank (set_pc i pc s0) < work rank s"
  using sum_list_update [of i "m_cpus s" rank pc] by (simp add: work_def set_pc_def)

lemma handle_exit_frame [simp]:
  "m_cpus (handle_exit e s) = m_cpus s" "m_paused (handle_exit e s) = m_paused s"
  "m_lock (handle_exit e s) = m_lock s" "m_main (handle_exit e s) = m_main s"
  by (cases e; simp)+

lemma handle_exit_state: "m_state (handle_exit e s) = m_state s \<or> m_state (handle_exit e s) = MINI_KVM_SHUTDOWN"
  by (cases e) simp_all

lemma set_pc_frame [simp]:
  "m_state (set_pc i pc s) = m_state s" "m_paused (set_pc i pc s) = m_paused s" "m_lock (set_pc i pc s) = m_lock s"
  "m_main (set_pc i pc s) = m_main s" "m_cpus (set_pc i pc s) = (m_cpus s)[i := pc]"
  by (simp_all add: set_pc_def)

text \<open>Where a thread that can move goes.\<close>

fun pc_after :: "machine \<Rightarrow> vm_exit \<Rightarrow> vcpu_pc \<Rightarrow> vcpu_pc" where
  "pc_after s e T_Loop = (if m_state s = MINI_KVM_SHUTDOWN then T_Done else T_State)"
| "pc_after s e T_State = (if m_state s = MINI_KVM_PAUSED then T_Paused else T_Run)"
| "pc_after s e T_Paused = (if m_paused s then T_Block else T_Loop)"
| "pc_after s e T_Block = T_Wait"
| "pc_after s e T_Relock = T_Paused"
| "pc_after s e T_Run = T_Exit e"
| "pc_after s e _ = T_Loop"

lemma thread_next_cases:
  assumes "thread_next i e s = Some s'"
  obtains s0 where "s' = set_pc i (pc_after s e (m_cpus s ! i)) s0" and "i < length (m_cpus s)"
    and "m_cpus s0 = m_cpus s" and "m_paused s0 = m_paused s" and "m_main s0 = m_main s"
    and "m_cpus s ! i \<noteq> T_Wait" and "m_cpus s ! i \<noteq> T_Done"
    and "m_state s0 = m_state s \<or> m_state s0 = MINI_KVM_SHUTDOWN"
    and "m_lock s0 = m_lock s \<or> m_cpus s ! i = T_Relock \<or> m_cpus s ! i = T_Block"
proof -
  have i: "i < length (m_cpus s)" using assms by (simp add: thread_next_def split: if_splits)
  show thesis
  proof (cases "m_cpus s ! i")
    case T_Block
    show thesis
      by (rule that [of "s\<lparr>m_lock := False\<rparr>"])
        (use assms i T_Block in \<open>auto simp: thread_next_def\<close>)
  next
    case T_Relock
    show thesis
      by (rule that [of "s\<lparr>m_lock := True\<rparr>"])
        (use assms i T_Relock in \<open>auto simp: thread_next_def split: if_splits\<close>)
  next
    case (T_Exit x)
    show thesis
      by (rule that [of "handle_exit x s"])
        (use assms i T_Exit handle_exit_state [of x s] in \<open>auto simp: thread_next_def\<close>)
  qed (rule that [of s]; use assms i in \<open>simp add: thread_next_def\<close>)+
qed

lemma thread_next_frame:
  assumes "thread_next i e s = Some s'"
  shows "m_paused s' = m_paused s" and "m_main s' = m_main s" and "length (m_cpus s') = length (m_cpus s)"
    and "m_state s' = m_state s \<or> m_state s' = MINI_KVM_SHUTDOWN"
  by (rule thread_next_cases [OF assms]; simp)+

lemma cpu_steps_frame:
  assumes "cpu_steps n s s'"
  shows "m_paused s' = m_paused s" and "m_main s' = m_main s" and "length (m_cpus s') = length (m_cpus s)"
    and "m_state s' = m_state s \<or> m_state s' = MINI_KVM_SHUTDOWN"
  using assms by (induction rule: cpu_steps.induct) (auto dest: thread_next_frame)

text \<open>
  How much a thread has left to do before it waits, in a paused machine, and before it returns, in a
  machine that is shut down.
\<close>

fun pause_rank :: "vcpu_pc \<Rightarrow> nat" where
  "pause_rank T_Wait = 0"
| "pause_rank T_Done = 0"
| "pause_rank T_Block = 1"
| "pause_rank T_Paused = 2"
| "pause_rank T_Relock = 3"
| "pause_rank T_State = 3"
| "pause_rank T_Loop = 4"
| "pause_rank T_Start = 5"
| "pause_rank (T_Exit e) = 5"
| "pause_rank T_Run = 6"


lemma work_bound: "(\<And>pc. rank pc \<le> b) \<Longrightarrow> work rank s \<le> b * length (m_cpus s)"
  using sum_list_mono [of "m_cpus s" rank "\<lambda>_. b"] by (simp add: work_def sum_list_triv mult.commute)

lemma pause_rank_le: "pause_rank pc \<le> 6"
  by (cases pc) simp_all


lemma pause_step_work:
  assumes "thread_next i e s = Some s'" and "m_paused s" and "m_state s = MINI_KVM_PAUSED"
  shows "work pause_rank s' < work pause_rank s"
proof (rule thread_next_cases [OF assms(1)])
  fix s0 assume s': "s' = set_pc i (pc_after s e (m_cpus s ! i)) s0" and i: "i < length (m_cpus s)"
    "m_cpus s0 = m_cpus s" and w: "m_cpus s ! i \<noteq> T_Wait" "m_cpus s ! i \<noteq> T_Done"
  have "pause_rank (pc_after s e (m_cpus s ! i)) < pause_rank (m_cpus s ! i)"
    using w assms(2,3) by (cases "m_cpus s ! i") simp_all
  with s' i show ?thesis by (simp add: work_set_pc)
qed


lemma cpu_steps_pause_work:
  assumes "cpu_steps n s s'" and "m_paused s" and "m_state s' = MINI_KVM_PAUSED"
  shows "work pause_rank s' + n \<le> work pause_rank s"
  using assms
proof (induction rule: cpu_steps.induct)
  case (none s)
  then show ?case by simp
next
  case (more n s s1 i e s2)
  have p: "m_state s1 = MINI_KVM_PAUSED"
    using more.prems(2) thread_next_frame(4) [OF more.hyps(2)] by auto
  have "m_paused s1" using more.prems(1) cpu_steps_frame(1) [OF more.hyps(1)] by simp
  from pause_step_work [OF more.hyps(2) this p] more.IH [OF more.prems(1) p] show ?case by simp
qed


text \<open>A CPU thread that cannot move.\<close>

lemma thread_blocked:
  assumes "\<And>e. thread_next i e s = None" and "i < length (m_cpus s)"
  shows "m_cpus s ! i \<in> {T_Wait, T_Done} \<or> m_cpus s ! i = T_Relock \<and> m_lock s"
  using assms(1) [of KVM_EXIT_INTR] assms(2)
  by (cases "m_cpus s ! i") (auto simp: thread_next_def split: if_splits)

subsection \<open>Invariants of CPU steps\<close>

lemma cpu_steps_no_new_run:
  assumes "cpu_steps n s s'" and "m_state s' = MINI_KVM_PAUSED" and "m_cpus s' ! i = T_Run" and "i < length (m_cpus s)"
  shows "m_cpus s ! i = T_Run"
  using assms
proof (induction rule: cpu_steps.induct)
  case (none s)
  then show ?case by simp
next
  case (more n s s1 j e s2)
  have p: "m_state s1 = MINI_KVM_PAUSED"
    using more.prems(1) thread_next_frame(4) [OF more.hyps(2)] by auto
  have i: "i < length (m_cpus s1)" using more.prems(3) cpu_steps_frame(3) [OF more.hyps(1)] by simp
  have "m_cpus s1 ! i = T_Run"
  proof (rule thread_next_cases [OF more.hyps(2)])
    fix s0 assume "s2 = set_pc j (pc_after s1 e (m_cpus s1 ! j)) s0" "m_cpus s0 = m_cpus s1"
    then show ?thesis using more.prems(2) i p by (cases "i = j"; cases "m_cpus s1 ! j") (auto split: if_splits)
  qed
  with more.IH [OF p _ more.prems(3)] show ?case by blast
qed

text \<open>While \<open>paused\<close> is not set, no thread starts to wait.\<close>

definition no_waiter :: "machine \<Rightarrow> bool" where
  "no_waiter s \<longleftrightarrow> \<not> m_paused s \<and> set (m_cpus s) \<inter> {T_Block, T_Wait, T_Relock} = {}"

lemma thread_next_no_waiter:
  assumes "thread_next i e s = Some s'" and "no_waiter s"
  shows "no_waiter s'" and "m_lock s' = m_lock s"
proof -
  obtain s0 where s': "s' = set_pc i (pc_after s e (m_cpus s ! i)) s0" and i: "i < length (m_cpus s)"
    and s0: "m_cpus s0 = m_cpus s" "m_paused s0 = m_paused s"
    and l: "m_lock s0 = m_lock s \<or> m_cpus s ! i = T_Relock \<or> m_cpus s ! i = T_Block"
    by (rule thread_next_cases [OF assms(1)])
  have pc: "m_cpus s ! i \<notin> {T_Block, T_Wait, T_Relock}" "\<not> m_paused s"
    using assms(2) nth_mem [OF i] by (auto simp: no_waiter_def)
  then have "pc_after s e (m_cpus s ! i) \<notin> {T_Block, T_Wait, T_Relock}"
    by (cases "m_cpus s ! i") simp_all
  with s' s0 assms(2) show "no_waiter s'"
    using set_update_subset_insert [of "m_cpus s" i "pc_after s e (m_cpus s ! i)"] by (auto simp: no_waiter_def)
  show "m_lock s' = m_lock s" using s' l pc by auto
qed

lemma cpu_steps_no_waiter: "cpu_steps n s s' \<Longrightarrow> no_waiter s \<Longrightarrow> no_waiter s'"
  by (induction rule: cpu_steps.induct) (auto dest: thread_next_no_waiter)

lemma cpu_steps_waiting:
  "cpu_steps n s s' \<Longrightarrow> m_cpus s ! i = T_Wait \<Longrightarrow> m_cpus s' ! i = T_Wait"
proof (induction rule: cpu_steps.induct)
  case (more n s s1 j e s2)
  then have w: "m_cpus s1 ! i = T_Wait" by simp
  show ?case
  proof (rule thread_next_cases [OF more.hyps(2)])
    fix s0 assume "s2 = set_pc j (pc_after s1 e (m_cpus s1 ! j)) s0" "m_cpus s0 = m_cpus s1" "m_cpus s1 ! j \<noteq> T_Wait"
    with w show ?thesis by (cases "i = j") simp_all
  qed
qed simp

text \<open>A main thread that waits for a lock no thread will give back.\<close>

definition stuck_pause :: "machine \<Rightarrow> bool" where
  "stuck_pause s \<longleftrightarrow> m_main s = M_Pause_Lock \<and> m_lock s \<and> no_waiter s"

lemma stuck_pause_steps: "steps s s' \<Longrightarrow> stuck_pause s \<Longrightarrow> stuck_pause s'"
proof (induction rule: steps.induct)
  case (main s s1 m s2)
  then have "stuck_pause s1" by simp
  with main.hyps(2) show ?case by (auto simp: stuck_pause_def main_next_def split: main_op.splits)
next
  case (cpu s s1 i e s2)
  then have "stuck_pause s1" by simp
  with thread_next_no_waiter [OF cpu.hyps(2)] thread_next_frame(2) [OF cpu.hyps(2)] show ?case
    by (simp add: stuck_pause_def)
qed simp

subsection \<open>The pause flag\<close>

text \<open>
  What the main thread knows of the shared state at each point of its handlers: the state is not
  running while it pauses, and the flag is clear once it has cleared it.
\<close>

definition flag_inv :: "machine \<Rightarrow> bool" where
  "flag_inv s \<longleftrightarrow>
     (m_paused s \<longrightarrow> m_state s \<noteq> MINI_KVM_RUNNING \<or> m_main s = M_Resume_Clear)
     \<and> (m_main s \<in> {M_Pause_Lock, M_Pause_Set} \<longrightarrow> m_state s \<noteq> MINI_KVM_RUNNING)
     \<and> (m_main s \<in> {M_Start, M_Resume_Signal, M_Resume_Unlock} \<longrightarrow> \<not> m_paused s)"

lemma thread_next_flag_inv:
  assumes "thread_next i e s = Some s'" and "flag_inv s"
  shows "flag_inv s'"
proof -
  have "m_state s' = MINI_KVM_RUNNING \<Longrightarrow> m_state s = MINI_KVM_RUNNING"
    using thread_next_frame(4) [OF assms(1)] by auto
  then show ?thesis
    using assms(2) unfolding flag_inv_def thread_next_frame(1,2) [OF assms(1)] by blast
qed

lemma main_next_flag_inv:
  assumes "main_next m s = Some s'" and "flag_inv s"
  shows "flag_inv s' \<and> length (m_cpus s') = length (m_cpus s)"
  using assms
  by (cases "m_main s"; cases m) (auto simp: main_next_def flag_inv_def split: if_splits)

text \<open>Running threads before the first pause.\<close>

lemma no_waiter_progress:
  assumes "no_waiter s" and "i < length (m_cpus s)" and "m_cpus s ! i \<noteq> T_Done"
  shows "\<exists>s'. thread_next i e s = Some s'"
  using assms nth_mem [OF assms(2)] by (cases "m_cpus s ! i") (auto simp: no_waiter_def thread_next_def)

lemma started_no_waiter: "no_waiter (started n)"
  by (simp add: no_waiter_def started_def)

text \<open>A thread returns only from a machine that is shut down.\<close>

lemma cpu_steps_done:
  assumes "cpu_steps n s s'" and "i < length (m_cpus s)" and "m_cpus s ! i \<noteq> T_Done" and "m_cpus s' ! i = T_Done"
  shows "m_state s' = MINI_KVM_SHUTDOWN"
  using assms
proof (induction rule: cpu_steps.induct)
  case (more n s s1 j e s2)
  have l: "i < length (m_cpus s1)" using more.prems(1) cpu_steps_frame(3) [OF more.hyps(1)] by simp
  have keep: "m_state s2 = MINI_KVM_SHUTDOWN" if "m_state s1 = MINI_KVM_SHUTDOWN"
    using thread_next_frame(4) [OF more.hyps(2)] that by auto
  show ?case
  proof (cases "m_cpus s1 ! i = T_Done")
    case True
    with more keep show ?thesis by blast
  next
    case False
    show ?thesis
    proof (rule thread_next_cases [OF more.hyps(2)])
      fix s0 assume "s2 = set_pc j (pc_after s1 e (m_cpus s1 ! j)) s0" "m_cpus s0 = m_cpus s1"
      with False more.prems(3) l have "pc_after s1 e (m_cpus s1 ! j) = T_Done" by (cases "i = j") simp_all
      then have "m_state s1 = MINI_KVM_SHUTDOWN" by (cases "m_cpus s1 ! j") (auto split: if_splits)
      with keep show ?thesis .
    qed
  qed
qed simp

text \<open>Before the machine is started.\<close>

definition waits_for_start :: "machine \<Rightarrow> bool" where
  "waits_for_start s \<longleftrightarrow> m_state s = MINI_KVM_PAUSED \<and> \<not> m_paused s \<and> m_console s = []
     \<and> set (m_cpus s) \<subseteq> {T_Start, T_Loop, T_State, T_Paused}"

lemma thread_next_waits_for_start:
  assumes "thread_next i e s = Some s'" and "waits_for_start s"
  shows "waits_for_start s'"
proof -
  have i: "i < length (m_cpus s)" using assms(1) by (simp add: thread_next_def split: if_splits)
  let ?pcs = "{T_Start, T_Loop, T_State, T_Paused}"
  have c: "set (m_cpus s) \<subseteq> ?pcs" using assms(2) by (simp add: waits_for_start_def)
  then have "set ((m_cpus s)[i := pc]) \<subseteq> ?pcs" if "pc \<in> ?pcs" for pc using that by (rule set_update_subsetI)
  moreover have "m_cpus s ! i \<in> ?pcs" using c nth_mem [OF i] by blast
  ultimately show ?thesis
    using assms i by (elim insertE emptyE; clarsimp simp: thread_next_def waits_for_start_def set_pc_def)
qed

lemma cpu_steps_waits_for_start: "cpu_steps n s s' \<Longrightarrow> waits_for_start s \<Longrightarrow> waits_for_start s'"
  by (induction rule: cpu_steps.induct) (auto dest: thread_next_waits_for_start)

text \<open>Threads that all wait stay where they are; every step moves a thread.\<close>

lemma all_waiting_stuck:
  assumes "cpu_steps n s s'" and "set (m_cpus s) \<subseteq> {T_Wait, T_Done}"
  shows "s' = s"
  using assms
proof (induction rule: cpu_steps.induct)
  case (more n s s1 i e s2)
  then have "s1 = s" by simp
  then have "set (m_cpus s1) \<subseteq> {T_Wait, T_Done}" using more.prems by simp
  then show ?case using thread_next_cases [OF more.hyps(2)] nth_mem by (metis empty_iff insert_iff subsetD)
qed simp

lemma idle_cpus_blocked:
  assumes "set (m_cpus s) \<subseteq> {T_Wait, T_Done}"
  shows "thread_next i e s = None"
proof (cases "i < length (m_cpus s)")
  case True
  then have "m_cpus s ! i \<in> {T_Wait, T_Done}" using assms nth_mem by blast
  then show ?thesis by (auto simp: thread_next_def)
qed (simp add: thread_next_def)

text \<open>A pause that waits for a lock while no CPU thread can move.\<close>

lemma locked_pause_stuck:
  assumes "steps s s'" and "m_main s = M_Pause_Lock" and "m_lock s" and "set (m_cpus s) \<subseteq> {T_Wait, T_Done}"
  shows "s' = s"
  using assms
proof (induction rule: steps.induct)
  case (main s s1 m s2)
  then have "main_next m s = Some s2" by simp
  with main.prems(1,2) show ?case by (cases m) (simp_all add: main_next_def)
next
  case (cpu s s1 i e s2)
  then have "thread_next i e s = Some s2" by simp
  with idle_cpus_blocked [OF cpu.prems(3)] show ?case by simp
qed simp

lemma thread_next_moves:
  assumes "thread_next i e s = Some s'"
  shows "m_cpus s' \<noteq> m_cpus s"
proof (rule thread_next_cases [OF assms])
  fix s0 assume "s' = set_pc i (pc_after s e (m_cpus s ! i)) s0" "i < length (m_cpus s)" "m_cpus s0 = m_cpus s"
    "m_cpus s ! i \<noteq> T_Wait" "m_cpus s ! i \<noteq> T_Done"
  moreover from this have "pc_after s e (m_cpus s ! i) \<noteq> m_cpus s ! i" by (cases "m_cpus s ! i") auto
  ultimately show ?thesis by (metis nth_list_update_eq set_pc_frame(5))
qed

text \<open>The exits for port output do what \<open>mini_kvm_handle_io\<close> does.\<close>

lemma handle_exit_io:
  assumes "mini_kvm_handle_io env io w = (ret, w')"
  shows "m_state (handle_exit (KVM_EXIT_IO io) s) = (if ret \<noteq> MINI_KVM_SUCCESS then MINI_KVM_SHUTDOWN else m_state s)"
    and "\<exists>bs. m_console (handle_exit (KVM_EXIT_IO io) s) = m_console s @ bs
      \<and> trace w' = trace w @ map (\<lambda>b. Write 1 [b]) bs"
  using assms by (auto simp: mini_kvm_handle_io_def split: if_splits)

section \<open>Properties\<close>

text \<open>C14. Pausing takes effect while it lasts: from a state in which \<open>kvm->paused\<close> is set, let the CPU threads
  take any steps after which the state is still paused (no guest has shut the machine down meanwhile, and
  no command has come). Then no CPU thread has entered the guest (one that was inside may have left it),
  the threads have taken at most six steps per CPU in total, and when none can move every thread has
  returned or is inside \<open>pthread_cond_wait\<close>.\<close>

theorem pause_quiesces:
  assumes "cpu_steps n s s'" and "m_paused s" and "m_state s' = MINI_KVM_PAUSED"
  shows "n \<le> 6 * length (m_cpus s)
    \<and> (\<forall>i < length (m_cpus s). m_cpus s' ! i = T_Run \<longrightarrow> m_cpus s ! i = T_Run)
    \<and> ((\<forall>i e. thread_next i e s' = None) \<longrightarrow>
        (\<forall>i < length (m_cpus s). m_cpus s' ! i \<in> {T_Wait, T_Done, T_Relock}))"
proof -
  have "n \<le> 6 * length (m_cpus s)"
    using cpu_steps_pause_work [OF assms] work_bound [of pause_rank 6 s] pause_rank_le by fastforce
  moreover have "m_cpus s' ! i \<in> {T_Wait, T_Done, T_Relock}"
    if "\<forall>i e. thread_next i e s' = None" "i < length (m_cpus s)" for i
    using thread_blocked [of i s'] that cpu_steps_frame(3) [OF assms(1)] by auto
  ultimately show ?thesis using cpu_steps_no_new_run [OF assms(1,3)] by blast
qed

theorem pause_quiesces_witness:
  "\<exists>s'. cpu_steps 1 ((started 1)\<lparr>m_state := MINI_KVM_PAUSED, m_paused := True, m_cpus := [T_Block]\<rparr>) s'
     \<and> m_cpus s' = [T_Wait] \<and> (1::nat) \<le> 6 * 1"
proof -
  let ?s = "(started 1)\<lparr>m_state := MINI_KVM_PAUSED, m_paused := True, m_cpus := [T_Block]\<rparr>"
  have t: "thread_next 0 KVM_EXIT_INTR ?s = Some (set_pc 0 T_Wait (?s\<lparr>m_lock := False\<rparr>))"
    by (simp add: thread_next_def)
  have c: "cpu_steps 1 ?s (set_pc 0 T_Wait (?s\<lparr>m_lock := False\<rparr>))"
    using cpu_steps.more [OF cpu_steps.none t] by simp
  show ?thesis using pause_quiesces [OF c] c by (intro exI [of _ "set_pc 0 T_Wait (?s\<lparr>m_lock := False\<rparr>)"]) simp
qed



text \<open>C31. A second pause can hang: on a machine with one CPU whose guest makes no exit of its own, there is a run
  in which the main thread handles a pause, a resume that wakes the waiting CPU thread, and begins a
  second pause, after which, whatever the threads do, the main thread waits for \<open>pause_lock\<close> and the lock
  is held: the CPU thread returned from \<open>pthread_cond_wait\<close> holding it and never gives it back.\<close>

theorem pause_resume_pause_deadlock:
  "\<exists>as s. run_actions as (started 1) = Some s \<and> only_intr as
     \<and> main_ops as = [Do_Pause, Go, Go, Do_Resume, Go, Wake 0, Go, Do_Pause]
     \<and> (\<forall>s'. steps s s' \<longrightarrow> m_main s' = M_Pause_Lock \<and> m_lock s')"
proof -
  let ?c = "Cpu 0 KVM_EXIT_INTR"
  let ?as = "[?c, ?c, ?c, Main Do_Pause, Main Go, Main Go, ?c, ?c, ?c, ?c, ?c, ?c,
    Main Do_Resume, Main Go, Main (Wake 0), Main Go, ?c, ?c, Main Do_Pause]"
  let ?s = "\<lparr>m_state = MINI_KVM_PAUSED, m_paused = False, m_lock = True, m_main = M_Pause_Lock,
    m_cpus = [T_Loop], m_console = []\<rparr>"
  have r: "run_actions ?as (started 1) = Some ?s"
    by (simp add: exec_def main_next_def thread_next_def set_pc_def started_def)
  have "stuck_pause ?s" by (simp add: stuck_pause_def no_waiter_def)
  then have "m_main s' = M_Pause_Lock \<and> m_lock s'" if "steps ?s s'" for s'
    using stuck_pause_steps [OF that] by (simp add: stuck_pause_def)
  moreover have "only_intr ?as" "main_ops ?as = [Do_Pause, Go, Go, Do_Resume, Go, Wake 0, Go, Do_Pause]" by simp_all
  ultimately show ?thesis using r by blast
qed

theorem pause_resume_pause_deadlock_witness:
  "\<exists>as s. run_actions as (started 1) = Some s \<and> last (main_ops as) = Do_Pause \<and> m_main s = M_Pause_Lock \<and> m_lock s"
proof -
  obtain as s where "run_actions as (started 1) = Some s" "main_ops as = [Do_Pause, Go, Go, Do_Resume, Go, Wake 0, Go, Do_Pause]"
    "\<forall>s'. steps s s' \<longrightarrow> m_main s' = M_Pause_Lock \<and> m_lock s'"
    using pause_resume_pause_deadlock by blast
  with steps.refl [of s] show ?thesis by (intro exI [of _ as] exI [of _ s]) simp
qed

text \<open>C33. A shutdown leaves CPUs behind: in a paused machine whose CPUs all wait, the shutdown command wakes one
  of them, whichever it is; the main thread is then done with the command and the state is shutdown, but
  every other CPU thread stays in \<open>pthread_cond_wait\<close> whatever steps the threads take, so that joining it in
  \<open>mini_kvm_clean_kvm\<close> never ends.\<close>

theorem shutdown_leaves_waiting_cpu:
  assumes "m_main s = M_Idle" and "m_paused s" and "set (m_cpus s) = {T_Wait}" and "i < length (m_cpus s)"
  shows "\<exists>s1. run_actions (map Main [Do_Shutdown, Go, Go, Wake i, Go]) s = Some s1
    \<and> m_state s1 = MINI_KVM_SHUTDOWN \<and> m_main s1 = M_Idle
    \<and> (\<forall>j < length (m_cpus s). j \<noteq> i \<longrightarrow> (\<forall>n s2. cpu_steps n s1 s2 \<longrightarrow> m_cpus s2 ! j = T_Wait))"
proof -
  let ?s1 = "s\<lparr>m_state := MINI_KVM_SHUTDOWN, m_paused := False, m_lock := False, m_main := M_Idle,
    m_cpus := (m_cpus s)[i := T_Relock]\<rparr>"
  have w: "m_cpus s ! j = T_Wait" if "j < length (m_cpus s)" for j using assms(3) nth_mem [OF that] by simp
  have "run_actions (map Main [Do_Shutdown, Go, Go, Wake i, Go]) s = Some ?s1"
    using assms(1,2,4) w [OF assms(4)] by (simp add: exec_def main_next_def set_pc_def)
  moreover have "m_cpus s2 ! j = T_Wait" if "j < length (m_cpus s)" "j \<noteq> i" "cpu_steps n ?s1 s2" for j n s2
    using cpu_steps_waiting [OF that(3), of j] w [OF that(1)] that(2) by simp
  ultimately show ?thesis by (intro exI [of _ ?s1]) simp
qed

theorem shutdown_leaves_waiting_cpu_witness:
  "\<exists>s s1. steps (started 2) s \<and> m_state s = MINI_KVM_PAUSED
     \<and> run_actions (map Main [Do_Shutdown, Go, Go, Wake 0, Go]) s = Some s1 \<and> m_cpus s1 ! 1 = T_Wait"
proof -
  let ?c = "Cpu 0 KVM_EXIT_INTR" and ?d = "Cpu 1 KVM_EXIT_INTR"
  let ?as = "[?c, ?c, ?c, ?d, ?d, ?d, Main Do_Pause, Main Go, Main Go, ?c, ?c, ?c, ?c, ?c, ?c, ?d, ?d, ?d, ?d, ?d, ?d]"
  let ?s = "\<lparr>m_state = MINI_KVM_PAUSED, m_paused = True, m_lock = False, m_main = M_Idle,
    m_cpus = [T_Wait, T_Wait], m_console = []\<rparr>"
  have "run_actions ?as (started 2) = Some ?s"
    by (simp add: exec_def main_next_def thread_next_def set_pc_def started_def numeral_2_eq_2)
  then have r: "steps (started 2) ?s" by (rule run_actions_steps)
  have a: "m_main ?s = M_Idle" "m_paused ?s" "set (m_cpus ?s) = {T_Wait}" "0 < length (m_cpus ?s)" by simp_all
  obtain s1 where s1: "run_actions (map Main [Do_Shutdown, Go, Go, Wake 0, Go]) ?s = Some s1"
    "\<forall>j < length (m_cpus ?s). j \<noteq> 0 \<longrightarrow> (\<forall>n s2. cpu_steps n s1 s2 \<longrightarrow> m_cpus s2 ! j = T_Wait)"
    using shutdown_leaves_waiting_cpu [OF a] by blast
  from s1(2) [rule_format, of 1 0 s1] cpu_steps.none have "m_cpus s1 ! 1 = T_Wait" by simp
  with s1(1) r show ?thesis by (intro exI [of _ ?s] exI [of _ s1]) (simp del: run_actions.simps)
qed

text \<open>C20. The pause flag and the state agree: in every state the threads can reach, whatever commands and
  signals arrive and however the threads interleave, whenever the main thread is between two
  commands the flag is set only if the machine is not running; and no thread is ever lost or added.\<close>

theorem pause_flag_invariant:
  assumes "steps (started n) s" and "m_main s = M_Idle"
  shows "(m_paused s \<longrightarrow> m_state s \<noteq> MINI_KVM_RUNNING) \<and> length (m_cpus s) = n"
proof -
  have "flag_inv s \<and> length (m_cpus s) = n"
  proof (rule steps_invariant [OF assms(1), where P = "\<lambda>s. flag_inv s \<and> length (m_cpus s) = n"])
    show "flag_inv (started n) \<and> length (m_cpus (started n)) = n" by (simp add: flag_inv_def started_def)
  next
    fix s m s' assume "flag_inv s \<and> length (m_cpus s) = n" "main_next m s = Some s'"
    then show "flag_inv s' \<and> length (m_cpus s') = n" using main_next_flag_inv by metis
  next
    fix s i e s' assume "flag_inv s \<and> length (m_cpus s) = n" "thread_next i e s = Some s'"
    then show "flag_inv s' \<and> length (m_cpus s') = n" using thread_next_flag_inv thread_next_frame(3) by metis
  qed
  with assms(2) show ?thesis by (simp add: flag_inv_def)
qed

theorem pause_flag_invariant_witness:
  "\<exists>s. steps (started 1) s \<and> m_paused s \<and> m_state s \<noteq> MINI_KVM_RUNNING \<and> length (m_cpus s) = 1"
proof -
  let ?s = "\<lparr>m_state = MINI_KVM_PAUSED, m_paused = True, m_lock = True, m_main = M_Idle, m_cpus = [T_Start], m_console = []\<rparr>"
  have "run_actions [Main Do_Pause, Main Go, Main Go] (started 1) = Some ?s"
    by (simp add: exec_def main_next_def started_def)
  then have r: "steps (started 1) ?s" by (rule run_actions_steps)
  have "m_main ?s = M_Idle" by simp
  from pause_flag_invariant [OF r this] r show ?thesis by (intro exI [of _ ?s]) simp
qed

text \<open>C17. No CPU enters the guest before the machine is started: the threads are created while the state is
  still the one \<open>calloc\<close> gave it, and until \<open>mini_kvm_start_vm\<close> sets it to running, however they are
  scheduled, none of them runs the guest, none waits and none returns, nothing is printed, and
  the main thread can always go on to start the machine.\<close>

theorem no_guest_before_start:
  assumes "cpu_steps k (created n) s" and "i < n"
  shows "m_cpus s ! i \<in> {T_Start, T_Loop, T_State, T_Paused} \<and> m_console s = []
    \<and> (\<exists>s'. main_next Go s = Some s' \<and> m_state s' = MINI_KVM_RUNNING \<and> m_main s' = M_Idle \<and> m_cpus s' = m_cpus s
         \<and> (\<exists>s''. thread_next i e s' = Some s''))"
proof -
  have f: "m_main s = M_Start" "length (m_cpus s) = n" "m_paused s = False"
    using cpu_steps_frame(1-3) [OF assms(1)] by (simp_all add: created_def)
  have idle: "waits_for_start s" using assms(1)
    by (rule cpu_steps_waits_for_start) (auto simp: waits_for_start_def created_def)
  then have "m_cpus s ! i \<in> {T_Start, T_Loop, T_State, T_Paused}"
    using nth_mem [of i "m_cpus s"] assms(2) f(2) unfolding waits_for_start_def by blast
  with idle f assms(2) show ?thesis by (auto simp: main_next_def thread_next_def waits_for_start_def)
qed

theorem no_guest_before_start_witness:
  "\<exists>s s'. cpu_steps 3 (created 1) s \<and> m_cpus s ! 0 = T_Paused \<and> main_next Go s = Some s' \<and> m_state s' = MINI_KVM_RUNNING"
proof -
  have t: "thread_next 0 KVM_EXIT_INTR (created 1) = Some (set_pc 0 T_Loop (created 1))"
    "thread_next 0 KVM_EXIT_INTR (set_pc 0 T_Loop (created 1)) = Some (set_pc 0 T_State (created 1))"
    "thread_next 0 KVM_EXIT_INTR (set_pc 0 T_State (created 1)) = Some (set_pc 0 T_Paused (created 1))"
    by (simp_all add: thread_next_def created_def set_pc_def)
  have c: "cpu_steps 3 (created 1) (set_pc 0 T_Paused (created 1))"
    using cpu_steps.more [OF cpu_steps.more [OF cpu_steps.more [OF cpu_steps.none t(1)] t(2)] t(3)] by (simp add: numeral_3_eq_3)
  have z: "(0::nat) < 1" by simp
  have "m_cpus (set_pc 0 T_Paused (created 1)) ! 0 = T_Paused" by (simp add: created_def)
  then show ?thesis using no_guest_before_start [OF c z, of KVM_EXIT_INTR] c by blast
qed

text \<open>Progress without commands: as long as no command arrives, every CPU thread that has not
  returned can take its next step, whatever the others do; none of them ever waits, and none returns
  unless the machine has been shut down by an exit of a guest.\<close>

theorem running_threads_progress:
  assumes "cpu_steps k (started n) s" and "i < n"
  shows "(m_cpus s ! i \<noteq> T_Done \<longrightarrow> (\<exists>s'. thread_next i e s = Some s'))
    \<and> m_cpus s ! i \<notin> {T_Block, T_Wait, T_Relock}
    \<and> (m_cpus s ! i = T_Done \<longrightarrow> m_state s = MINI_KVM_SHUTDOWN)"
proof -
  have l: "i < length (m_cpus s)" using assms cpu_steps_frame(3) [OF assms(1)] by (simp add: started_def)
  have nw: "no_waiter s" using cpu_steps_no_waiter [OF assms(1) started_no_waiter] .
  have "m_cpus s ! i = T_Done \<Longrightarrow> m_state s = MINI_KVM_SHUTDOWN"
    using cpu_steps_done [OF assms(1)] assms(2) l by (simp add: started_def)
  then show ?thesis using no_waiter_progress [OF nw l] nw nth_mem [OF l] by (auto simp: no_waiter_def)
qed

theorem running_threads_progress_witness:
  "\<exists>s s'. cpu_steps 1 (started 2) s \<and> m_cpus s ! 1 = T_Start \<and> thread_next 1 KVM_EXIT_HLT s = Some s'"
proof -
  let ?s = "set_pc 0 T_Loop (started 2)"
  have t: "thread_next 0 KVM_EXIT_INTR (started 2) = Some ?s" by (simp add: thread_next_def started_def)
  have c: "cpu_steps 1 (started 2) ?s" using cpu_steps.more [OF cpu_steps.none t] by simp
  have "(1::nat) < 2" by simp
  moreover have "m_cpus ?s ! 1 = T_Start" by (simp add: started_def)
  ultimately obtain s' where "thread_next 1 KVM_EXIT_HLT ?s = Some s'"
    using running_threads_progress [OF c, of 1 KVM_EXIT_HLT] by auto
  with c \<open>m_cpus ?s ! 1 = T_Start\<close> show ?thesis by blast
qed

text \<open>C32. A resumed machine may never run again: the CPU thread reads \<open>paused\<close> without holding the lock,
  so the resume can fall between that read and the wait. On a machine with one CPU whose guest makes no exit of
  its own there is a run in which the main thread handles exactly one pause and one resume, both to their
  end, after which the machine is running and the flag is clear, but the CPU thread is inside
  \<open>pthread_cond_wait\<close> and stays there.\<close>

theorem resume_loses_wakeup:
  "\<exists>as s. run_actions as (started 1) = Some s \<and> only_intr as \<and> main_ops as = [Do_Pause, Go, Go, Do_Resume, Go, Go, Go]
     \<and> m_state s = MINI_KVM_RUNNING \<and> \<not> m_paused s \<and> m_main s = M_Idle \<and> m_cpus s = [T_Wait]
     \<and> (\<forall>k s'. cpu_steps k s s' \<longrightarrow> s' = s)"
proof -
  let ?c = "Cpu 0 KVM_EXIT_INTR"
  let ?as = "[Main Do_Pause, Main Go, Main Go, ?c, ?c, ?c, ?c, Main Do_Resume, Main Go, Main Go, Main Go, ?c]"
  let ?s = "\<lparr>m_state = MINI_KVM_RUNNING, m_paused = False, m_lock = False, m_main = M_Idle,
    m_cpus = [T_Wait], m_console = []\<rparr>"
  have r: "run_actions ?as (started 1) = Some ?s"
    by (simp add: exec_def main_next_def thread_next_def set_pc_def started_def)
  have "s' = ?s" if "cpu_steps k ?s s'" for k s'
    using all_waiting_stuck [OF that] by simp
  then show ?thesis by (intro exI [of _ ?as] exI [of _ ?s]) (use r in \<open>simp del: run_actions.simps\<close>)
qed

theorem resume_loses_wakeup_witness:
  "\<exists>s. steps (started 1) s \<and> m_state s = MINI_KVM_RUNNING \<and> m_cpus s = [T_Wait]"
  using resume_loses_wakeup run_actions_steps by blast

text \<open>C39. A pause that finds the lock taken never returns. When every CPU thread waits or has returned, nobody
  gives \<open>pause_lock\<close> back: if it is held, a pause command blocks the main thread for good; and if it is
  free, because a CPU thread released it when it began to wait, one more pause succeeds and takes it
  again, and the pause after that one blocks for good.\<close>

theorem repeated_pause_hangs:
  assumes "m_main s = M_Idle" and "set (m_cpus s) \<subseteq> {T_Wait, T_Done}"
  shows "if m_lock s
    then \<exists>s1. main_next Do_Pause s = Some s1 \<and> m_main s1 = M_Pause_Lock \<and> (\<forall>s'. steps s1 s' \<longrightarrow> s' = s1)
    else \<exists>s1 s2. run_actions (map Main [Do_Pause, Go, Go]) s = Some s1 \<and> m_main s1 = M_Idle \<and> m_state s1 = MINI_KVM_PAUSED
      \<and> main_next Do_Pause s1 = Some s2 \<and> m_main s2 = M_Pause_Lock \<and> (\<forall>s'. steps s2 s' \<longrightarrow> s' = s2)"
proof -
  let ?enter = "\<lambda>t. t\<lparr>m_state := MINI_KVM_PAUSED, m_main := M_Pause_Lock\<rparr>"
  have stuck: "main_next Do_Pause t = Some (?enter t) \<and> m_main (?enter t) = M_Pause_Lock \<and> (\<forall>s'. steps (?enter t) s' \<longrightarrow> s' = ?enter t)"
    if "m_main t = M_Idle" "m_lock t" "m_cpus t = m_cpus s" for t
    using that assms(2) locked_pause_stuck [of "?enter t"] by (auto simp: main_next_def)
  show ?thesis
  proof (cases "m_lock s")
    case True
    with stuck [OF assms(1) True] show ?thesis by auto
  next
    case False
    let ?s1 = "s\<lparr>m_state := MINI_KVM_PAUSED, m_lock := True, m_paused := True, m_main := M_Idle\<rparr>"
    have "run_actions (map Main [Do_Pause, Go, Go]) s = Some ?s1"
      using assms(1) False by (simp add: exec_def main_next_def)
    then show ?thesis using stuck [of ?s1] False by (simp del: run_actions.simps)
  qed
qed

theorem repeated_pause_hangs_witness:
  "\<exists>as s s1. run_actions as (started 1) = Some s \<and> only_intr as \<and> main_ops as = [Do_Pause, Go, Go, Do_Pause, Go, Go]
     \<and> m_cpus s = [T_Wait] \<and> main_next Do_Pause s = Some s1 \<and> (\<forall>s'. steps s1 s' \<longrightarrow> s' = s1)"
proof -
  let ?c = "Cpu 0 KVM_EXIT_INTR"
  let ?as = "[Main Do_Pause, Main Go, Main Go, ?c, ?c, ?c, ?c, ?c, Main Do_Pause, Main Go, Main Go]"
  let ?s = "\<lparr>m_state = MINI_KVM_PAUSED, m_paused = True, m_lock = True, m_main = M_Idle, m_cpus = [T_Wait], m_console = []\<rparr>"
  have r: "run_actions ?as (started 1) = Some ?s" "only_intr ?as" "main_ops ?as = [Do_Pause, Go, Go, Do_Pause, Go, Go]"
    by (simp_all add: exec_def main_next_def thread_next_def set_pc_def started_def)
  have a: "m_main ?s = M_Idle" "set (m_cpus ?s) \<subseteq> {T_Wait, T_Done}" "m_lock ?s" "m_cpus ?s = [T_Wait]" by simp_all
  from repeated_pause_hangs [OF a(1,2)] a(3) obtain s1 where "main_next Do_Pause ?s = Some s1" "\<forall>s'. steps s1 s' \<longrightarrow> s' = s1"
    by auto
  with r a(4) show ?thesis by blast
qed

text \<open>C36. SIGINT does not end a paused machine: when the main loop sees the signal it only sets the state
  to shutdown, so that in a paused machine whose CPUs wait, none of them ever returns, and joining
  their threads never ends.\<close>

theorem signal_leaves_paused_cpus:
  assumes "m_main s = M_Idle" and "set (m_cpus s) = {T_Wait}"
  shows "\<exists>s1. main_next Do_Signal s = Some s1 \<and> m_state s1 = MINI_KVM_SHUTDOWN
    \<and> (\<forall>k s2. cpu_steps k s1 s2 \<longrightarrow> s2 = s1) \<and> T_Done \<notin> set (m_cpus s1)"
proof -
  let ?s1 = "s\<lparr>m_state := MINI_KVM_SHUTDOWN\<rparr>"
  have "main_next Do_Signal s = Some ?s1" using assms(1) by (simp add: main_next_def)
  moreover have "s2 = ?s1" if "cpu_steps k ?s1 s2" for k s2
    using all_waiting_stuck [OF that] assms(2) by simp
  ultimately show ?thesis using assms(2) by auto
qed

theorem signal_leaves_paused_cpus_witness:
  "\<exists>s s1. steps (started 1) s \<and> m_paused s \<and> main_next Do_Signal s = Some s1 \<and> T_Done \<notin> set (m_cpus s1)"
proof -
  let ?c = "Cpu 0 KVM_EXIT_INTR"
  let ?s = "\<lparr>m_state = MINI_KVM_PAUSED, m_paused = True, m_lock = False, m_main = M_Idle, m_cpus = [T_Wait], m_console = []\<rparr>"
  have "run_actions [Main Do_Pause, Main Go, Main Go, ?c, ?c, ?c, ?c, ?c] (started 1) = Some ?s"
    by (simp add: exec_def main_next_def thread_next_def set_pc_def started_def)
  then have r: "steps (started 1) ?s" by (rule run_actions_steps)
  have a: "m_main ?s = M_Idle" "set (m_cpus ?s) = {T_Wait}" by simp_all
  from signal_leaves_paused_cpus [OF a] obtain s1 where "main_next Do_Signal ?s = Some s1" "T_Done \<notin> set (m_cpus s1)"
    by blast
  moreover have "m_paused ?s" by simp
  ultimately show ?thesis using r by blast
qed

text \<open>A halt can be forgotten: a pause command that the server handles after the guest has halted replaces
  the shutdown state. The machine then says that it is paused, its only CPU thread has returned, and no step
  of a CPU is left, so that the main loop goes on with a machine that will never run again.\<close>

theorem pause_forgets_halt:
  "\<exists>s. steps (started 1) s \<and> m_state s = MINI_KVM_PAUSED \<and> m_main s = M_Idle \<and> m_cpus s = [T_Done]
     \<and> (\<forall>i e. thread_next i e s = None)"
proof -
  let ?c = "Cpu 0 KVM_EXIT_HLT"
  let ?s = "\<lparr>m_state = MINI_KVM_PAUSED, m_paused = True, m_lock = True, m_main = M_Idle, m_cpus = [T_Done], m_console = []\<rparr>"
  have "run_actions [?c, ?c, ?c, ?c, ?c, ?c, Main Do_Pause, Main Go, Main Go] (started 1) = Some ?s"
    by (simp add: exec_def main_next_def thread_next_def set_pc_def started_def)
  then have "steps (started 1) ?s" by (rule run_actions_steps)
  then show ?thesis by (intro exI [of _ ?s]) (simp add: thread_next_def)
qed

end
