(* ===== verification/Machine_Run.thy ===== *)
theory Machine_Run imports Server_Loop Vcpu_Threads begin

text \<open>
  The two views of the machine together: the handlers of \<open>Control\<close>, which run without interference,
  are schedules of the transition system of \<open>Vcpu_Threads\<close> in which only the main thread moves; and a
  guest on one CPU, with the message of \<open>bios/boot.s\<close> as the example.
\<close>

section \<open>Handlers as schedules\<close>

text \<open>The main thread between two commands, with the shared fields of the machine.\<close>

definition shares :: "Kvm \<Rightarrow> machine \<Rightarrow> bool" where
  "shares k s \<longleftrightarrow> m_state s = vm_state k \<and> (m_paused s \<longleftrightarrow> paused k \<noteq> 0) \<and> (m_lock s \<longleftrightarrow> pause_lock k) \<and> m_main s = M_Idle"

text \<open>A schedule of the main thread alone, with the operations it begins.\<close>

definition main_schedule :: "main_op list \<Rightarrow> machine \<Rightarrow> machine \<Rightarrow> bool" where
  "main_schedule bs s s' \<longleftrightarrow> (\<exists>ms. run_actions (map Main ms) s = Some s' \<and> filter begins ms = bs) \<and> length (m_cpus s') = length (m_cpus s)"

text \<open>What the main thread begins for a command.\<close>

fun command_ops :: "MiniKvmStatusCommandType \<Rightarrow> main_op list" where
  "command_ops MINI_KVM_COMMAND_PAUSE = [Do_Pause]"
| "command_ops MINI_KVM_COMMAND_RESUME = [Do_Resume]"
| "command_ops MINI_KVM_COMMAND_SHUTDOWN = [Do_Shutdown]"
| "command_ops _ = []"

lemma run_actions_append:
  "run_actions (as @ bs) s = (case run_actions as s of None \<Rightarrow> None | Some s' \<Rightarrow> run_actions bs s')"
  by (induction "as" arbitrary: s) (auto split: option.splits)

lemma main_scheduleI:
  "run_actions (map Main ms) s = Some s' \<Longrightarrow> length (m_cpus s') = length (m_cpus s) \<Longrightarrow> main_schedule (filter begins ms) s s'"
  by (auto simp: main_schedule_def)

lemma main_schedule_refl [simp]: "main_schedule [] s s"
  using main_scheduleI [of "[]" s s] by simp

lemma main_schedule_trans:
  assumes "main_schedule as s s1" and "main_schedule bs s1 s2"
  shows "main_schedule (as @ bs) s s2"
proof -
  obtain ms ns where "run_actions (map Main ms) s = Some s1" "filter begins ms = as"
    "run_actions (map Main ns) s1 = Some s2" "filter begins ns = bs"
    using assms by (auto simp: main_schedule_def)
  then have "run_actions (map Main (ms @ ns)) s = Some s2" "filter begins (ms @ ns) = as @ bs"
    by (simp_all add: run_actions_append)
  with assms show ?thesis unfolding main_schedule_def by metis
qed

lemmas begins_simps [simp] = begins_def [of Do_Pause, simplified] begins_def [of Do_Resume, simplified]
  begins_def [of Do_Shutdown, simplified] begins_def [of Do_Signal, simplified] begins_def [of Go, simplified]
  begins_def [of "Wake i", simplified] for i

text \<open>\<open>mini_kvm_resume_vm\<close>, which wakes one waiting thread if there is one.\<close>

lemma resume_schedule:
  assumes "m_main s = M_Resume_Clear"
  shows "\<exists>s'. main_schedule [] s s' \<and> m_state s' = m_state s \<and> \<not> m_paused s' \<and> \<not> m_lock s' \<and> m_main s' = M_Idle"
proof (cases "T_Wait \<in> set (m_cpus s)")
  case True
  then obtain i where i: "i < length (m_cpus s)" "m_cpus s ! i = T_Wait" by (auto simp: in_set_conv_nth)
  let ?s = "set_pc i T_Relock (s\<lparr>m_paused := False, m_main := M_Resume_Unlock\<rparr>)\<lparr>m_lock := False, m_main := M_Idle\<rparr>"
  have "main_schedule [] s ?s"
    using main_scheduleI [of "[Go, Wake i, Go]" s ?s] assms i by (simp add: exec_def main_next_def set_pc_def)
  then show ?thesis by (intro exI [of _ ?s]) simp
next
  case False
  let ?s = "s\<lparr>m_paused := False, m_lock := False, m_main := M_Idle\<rparr>"
  have "main_schedule [] s ?s"
    using main_scheduleI [of "[Go, Go, Go]" s ?s] assms False by (simp add: exec_def main_next_def)
  then show ?thesis by (intro exI [of _ ?s]) simp
qed

lemma pause_schedule:
  assumes "shares k s" and "\<not> pause_lock k"
  shows "\<exists>s'. main_schedule [Do_Pause] s s' \<and> shares (k\<lparr>vm_state := MINI_KVM_PAUSED, pause_lock := True, paused := 1\<rparr>) s'"
proof -
  let ?s = "s\<lparr>m_state := MINI_KVM_PAUSED, m_lock := True, m_paused := True, m_main := M_Idle\<rparr>"
  have "main_schedule [Do_Pause] s ?s"
    using main_scheduleI [of "[Do_Pause, Go, Go]" s ?s] assms by (simp add: exec_def main_next_def shares_def)
  then show ?thesis by (intro exI [of _ ?s]) (simp add: shares_def)
qed

lemma resume_command_schedule:
  assumes "shares k s"
  shows "\<exists>s'. main_schedule [Do_Resume] s s' \<and> shares (mini_kvm_resume_vm (k\<lparr>vm_state := MINI_KVM_RUNNING\<rparr>)) s'"
proof -
  let ?s1 = "s\<lparr>m_state := MINI_KVM_RUNNING, m_main := M_Resume_Clear\<rparr>"
  have "main_schedule [Do_Resume] s ?s1"
    using main_scheduleI [of "[Do_Resume]" s ?s1] assms by (simp add: exec_def main_next_def shares_def)
  with resume_schedule [of ?s1] show ?thesis
    using main_schedule_trans [of "[Do_Resume]" s ?s1 "[]"] by (auto simp: shares_def mini_kvm_resume_vm_def)
qed

lemma shutdown_command_schedule:
  assumes "shares k s"
  shows "\<exists>s'. main_schedule [Do_Shutdown] s s'
    \<and> shares (let k1 = k\<lparr>vm_state := MINI_KVM_SHUTDOWN\<rparr> in if paused k1 \<noteq> 0 then mini_kvm_resume_vm k1 else k1) s'"
proof (cases "paused k = 0")
  case True
  let ?s = "s\<lparr>m_state := MINI_KVM_SHUTDOWN, m_main := M_Idle\<rparr>"
  have "main_schedule [Do_Shutdown] s ?s"
    using main_scheduleI [of "[Do_Shutdown, Go]" s ?s] assms True by (simp add: exec_def main_next_def shares_def)
  with assms True show ?thesis by (intro exI [of _ ?s]) (simp add: shares_def Let_def)
next
  case False
  let ?s1 = "s\<lparr>m_state := MINI_KVM_SHUTDOWN, m_main := M_Resume_Clear\<rparr>"
  have "main_schedule [Do_Shutdown] s ?s1"
    using main_scheduleI [of "[Do_Shutdown, Go]" s ?s1] assms False by (simp add: exec_def main_next_def shares_def)
  with resume_schedule [of ?s1] False show ?thesis
    using main_schedule_trans [of "[Do_Shutdown]" s ?s1 "[]"] by (auto simp: shares_def mini_kvm_resume_vm_def Let_def)
qed

text \<open>One command.\<close>

lemma command_schedule:
  assumes "serve_command env c (k, res, w) = Some (k', res', w')" and "shares k s"
  shows "\<exists>s'. main_schedule (command_ops (cmd_type c)) s s' \<and> shares k' s'"
proof -
  obtain ret where h: "mini_kvm_status_handle_command env k c res w = Inr (ret, k', res', w')"
    using assms(1) by (auto simp: serve_command_def split: sum.splits)
  obtain f res1 where f: "handlers (cmd_type c) = Some f" "f env k c res w = Inr (ret, k', res1, w')"
    by (rule handle_command_cases [OF h])
  show ?thesis
  proof (cases "cmd_type c")
    case MINI_KVM_COMMAND_PAUSE
    with f have "k' = k\<lparr>vm_state := MINI_KVM_PAUSED, pause_lock := True, paused := 1\<rparr>" "\<not> pause_lock k"
      by (auto simp: simple_handlers Let_def res_iff split: if_splits)
    with pause_schedule [OF assms(2)] MINI_KVM_COMMAND_PAUSE show ?thesis by simp
  next
    case MINI_KVM_COMMAND_RESUME
    with f have "k' = mini_kvm_resume_vm (k\<lparr>vm_state := MINI_KVM_RUNNING\<rparr>)"
      by (auto simp: status_handle_resume_def Let_def res_iff)
    with resume_command_schedule [OF assms(2)] MINI_KVM_COMMAND_RESUME show ?thesis by simp
  next
    case MINI_KVM_COMMAND_SHUTDOWN
    with f have "k' = (let k1 = k\<lparr>vm_state := MINI_KVM_SHUTDOWN\<rparr> in if paused k1 \<noteq> 0 then mini_kvm_resume_vm k1 else k1)"
      by (auto simp: status_handle_shutdown_def Let_def res_iff)
    with shutdown_command_schedule [OF assms(2)] MINI_KVM_COMMAND_SHUTDOWN show ?thesis by simp
  qed (use f assms(2) in \<open>auto simp: simple_handlers dest!: handle_regs_frame handle_dump_frame intro!: exI [of _ s]\<close>)
qed

lemma replay_schedule:
  "replay (serve_command env) cs (k, res, w) = Some (k', res', w') \<Longrightarrow> shares k s \<Longrightarrow>
    \<exists>s'. main_schedule (concat (map (command_ops \<circ> cmd_type) cs)) s s' \<and> shares k' s'"
proof (induction cs arbitrary: k res w s)
  case Nil
  then show ?case by (intro exI [of _ s]) simp
next
  case (Cons c cs)
  obtain k1 res1 w1 where r: "serve_command env c (k, res, w) = Some (k1, res1, w1)"
    "replay (serve_command env) cs (k1, res1, w1) = Some (k', res', w')"
    using Cons.prems(1) by (auto split: option.splits)
  from command_schedule [OF r(1) Cons.prems(2)] obtain s1 where s1: "main_schedule (command_ops (cmd_type c)) s s1" "shares k1 s1"
    by blast
  from Cons.IH [OF r(2) s1(2)] obtain s' where s': "main_schedule (concat (map (command_ops \<circ> cmd_type) cs)) s1 s'" "shares k' s'"
    by blast
  from main_schedule_trans [OF s1(1) s'(1)] s'(2) show ?case by (intro exI [of _ s']) (simp add: comp_def)
qed

text \<open>Without a fault, the only command that does not return is a pause whose lock is held.\<close>

lemma command_hangs:
  assumes "mini_kvm_status_handle_command env k c res w = Inl f" and "vec_ok (vcpus k)" and "shares k s"
    and "cmd_type c \<in> {MINI_KVM_COMMAND_PAUSE, MINI_KVM_COMMAND_RESUME, MINI_KVM_COMMAND_SHUTDOWN}"
  shows "f = Hang \<and> cmd_type c = MINI_KVM_COMMAND_PAUSE \<and> pause_lock k"
proof -
  have sig: "\<exists>w'. mini_kvm_send_sig env (k\<lparr>vm_state := x\<rparr>) sg w = Inr w'" for x sg
    by (rule send_sig_ok [of "k\<lparr>vm_state := x\<rparr>" env sg w]) (use assms(2) in auto)
  obtain w1 w2 w3 where "mini_kvm_send_sig env (k\<lparr>vm_state := MINI_KVM_PAUSED\<rparr>) SIGVMPAUSE w = Inr w1"
    "mini_kvm_send_sig env (k\<lparr>vm_state := MINI_KVM_RUNNING\<rparr>) SIGVMRESUME w = Inr w2"
    "mini_kvm_send_sig env (k\<lparr>vm_state := MINI_KVM_SHUTDOWN\<rparr>) SIGVMSHUTDOWN w = Inr w3"
    using sig by metis
  with assms(1,4) show ?thesis
    by (auto simp: mini_kvm_status_handle_command_def simple_handlers Let_def split: if_splits
        simp del: SIGVMPAUSE_def SIGVMRESUME_def SIGVMSHUTDOWN_def)
qed

section \<open>A guest on one CPU\<close>

text \<open>What an exit prints, and whether it ends the machine.\<close>

fun exit_output :: "vm_exit \<Rightarrow> u8 list" where
  "exit_output (KVM_EXIT_IO io) = (if io_out io \<and> io_port io = 0x3f8 then [io_byte io] else [])"
| "exit_output (KVM_EXIT_INTERNAL_ERROR regs) = string_bytes (mini_kvm_print_regs regs)"
| "exit_output _ = []"

text \<open>What the guest itself has written to the port, and an exit whose data is as long as it says.\<close>

fun guest_bytes :: "vm_exit \<Rightarrow> u8 list" where
  "guest_bytes (KVM_EXIT_IO io) = (if io_out io \<and> io_port io = 0x3f8 then io_data io else [])"
| "guest_bytes _ = []"

fun exit_ok :: "vm_exit \<Rightarrow> bool" where
  "exit_ok (KVM_EXIT_IO io) = (0 < unat (io_size io) * unat (io_count io))"
| "exit_ok _ = True"

fun prints_regs :: "vm_exit \<Rightarrow> bool" where
  "prints_regs (KVM_EXIT_INTERNAL_ERROR regs) = True"
| "prints_regs _ = False"

fun ends_machine :: "vm_exit \<Rightarrow> bool" where
  "ends_machine (KVM_EXIT_IO io) = (io_out io \<and> io_port io \<noteq> 0x3f8)"
| "ends_machine (KVM_EXIT_INTERNAL_ERROR regs) = True"
| "ends_machine e = (e \<in> {KVM_EXIT_HLT, KVM_EXIT_SHUTDOWN, KVM_EXIT_FAIL_ENTRY})"

text \<open>The only CPU takes a step; each time it runs the guest, the next of the guest's exits is taken.\<close>

definition guest_step :: "vm_exit list \<times> machine \<Rightarrow> (vm_exit list \<times> machine) option" where
  "guest_step p = (let (es, s) = p in
     if m_cpus s = [T_Run]
     then (case es of [] \<Rightarrow> None | e # es' \<Rightarrow> map_option (Pair es') (thread_next 0 e s))
     else map_option (Pair es) (thread_next 0 KVM_EXIT_INTR s))"

fun guest_steps :: "nat \<Rightarrow> vm_exit list \<times> machine \<Rightarrow> (vm_exit list \<times> machine) option" where
  "guest_steps 0 p = Some p"
| "guest_steps (Suc n) p = (case guest_step p of None \<Rightarrow> None | Some p' \<Rightarrow> guest_steps n p')"

lemma guest_steps_add:
  "guest_steps (m + n) p = (case guest_steps m p of None \<Rightarrow> None | Some p' \<Rightarrow> guest_steps n p')"
  by (induction m arbitrary: p) (auto split: option.splits)

lemma handle_exit_output:
  "handle_exit e s = s\<lparr>m_console := m_console s @ exit_output e, m_state := (if ends_machine e then MINI_KVM_SHUTDOWN else m_state s)\<rparr>"
  by (cases e) simp_all

text \<open>One round of the loop of \<open>kvm_vcpu_thread_run\<close>.\<close>

lemma guest_round:
  assumes "m_cpus s = [T_Loop]" and "m_state s = MINI_KVM_RUNNING"
  shows "guest_steps 4 (e # es, s) = Some (es, handle_exit e s)"
  using assms
  by (simp add: eval_nat_numeral guest_step_def thread_next_def set_pc_def handle_exit_output)

lemma guest_runs:
  assumes "\<And>e. e \<in> set es \<Longrightarrow> \<not> ends_machine e" and "m_cpus s = [T_Loop]" and "m_state s = MINI_KVM_RUNNING"
  shows "guest_steps (4 * length es) (es @ fs, s) = Some (fs, s\<lparr>m_console := m_console s @ concat (map exit_output es)\<rparr>)"
  using assms
proof (induction es arbitrary: s)
  case (Cons e es)
  have "guest_steps 4 (e # es @ fs, s) = Some (es @ fs, handle_exit e s)" using Cons.prems(2,3) by (rule guest_round)
  moreover have "handle_exit e s = s\<lparr>m_console := m_console s @ exit_output e\<rparr>"
    using Cons.prems(1) [of e] by (simp add: handle_exit_output)
  ultimately show ?case
    using Cons.IH [of "s\<lparr>m_console := m_console s @ exit_output e\<rparr>"] Cons.prems guest_steps_add [of 4 "4 * length es" "(e # es @ fs, s)"]
    by simp
qed simp

text \<open>
  The exits of \<open>bios/boot.s\<close>: \<open>print\<close> writes the bytes from \<open>msg\<close> on to port 0x3f8 until it reads a zero
  byte, and then the CPU halts. Each \<open>out dx, ax\<close> moves two bytes, of which the second is zero.
\<close>

definition out_exit :: "u8 \<Rightarrow> vm_exit" where
  "out_exit b = KVM_EXIT_IO \<lparr>io_out = True, io_size = 2, io_port = 0x3f8, io_count = 1, io_byte = b, io_more = [0]\<rparr>"

fun print_loop :: "u8 list \<Rightarrow> vm_exit list" where
  "print_loop [] = []"
| "print_loop (b # bs) = (if b = 0 then [] else out_exit b # print_loop bs)"

definition boot_exits :: "u8 list \<Rightarrow> vm_exit list" where
  "boot_exits msg = print_loop msg @ [KVM_EXIT_HLT]"

definition boot_msg :: "u8 list" where
  "boot_msg = string_bytes ''Hello world'' @ [0x0A, 0]"

lemma print_loop_output: "concat (map exit_output (print_loop bs)) = takeWhile (\<lambda>b. b \<noteq> 0) bs"
  by (induction bs) (simp_all add: out_exit_def)

lemma print_loop_goes_on: "e \<in> set (print_loop bs) \<Longrightarrow> \<not> ends_machine e"
  by (induction bs) (auto simp: out_exit_def split: if_splits)

lemma guest_prints:
  assumes "\<And>e. e \<in> set es \<Longrightarrow> \<not> ends_machine e" and "ends_machine f"
  shows "guest_steps (4 * length es + 6) (es @ f # fs, started 1) = Some (fs, (started 1)\<lparr>m_state := MINI_KVM_SHUTDOWN,
    m_cpus := [T_Done], m_console := concat (map exit_output es) @ exit_output f\<rparr>)"
proof -
  let ?s0 = "(started 1)\<lparr>m_cpus := [T_Loop]\<rparr>"
  let ?s1 = "?s0\<lparr>m_console := concat (map exit_output es)\<rparr>"
  have a: "guest_steps 1 (es @ f # fs, started 1) = Some (es @ f # fs, ?s0)"
    by (simp add: guest_step_def thread_next_def set_pc_def started_def)
  have b: "guest_steps (4 * length es) (es @ f # fs, ?s0) = Some (f # fs, ?s1)"
    using guest_runs [of es ?s0 "f # fs", OF assms(1)] by (simp add: started_def)
  have c: "guest_steps 4 (f # fs, ?s1) = Some (fs, handle_exit f ?s1)" by (rule guest_round) (simp_all add: started_def)
  have d: "guest_steps 1 (fs, handle_exit f ?s1) = Some (fs, (started 1)\<lparr>m_state := MINI_KVM_SHUTDOWN,
      m_cpus := [T_Done], m_console := concat (map exit_output es) @ exit_output f\<rparr>)"
    using assms(2) by (simp add: guest_step_def thread_next_def set_pc_def handle_exit_output started_def)
  have "4 * length es + 6 = 1 + (4 * length es + (4 + 1))" by simp
  then show ?thesis using a b c d by (simp only: guest_steps_add option.case)
qed

section \<open>Properties\<close>

text \<open>C12. The server without interference is the concurrent machine under the schedules in which only the main
  thread moves: whatever commands it has handled, the transition system of the threads has a run with
  steps of the main thread alone, in which the operations the main thread begins are exactly those of the
  pause, resume and shutdown commands among them, in their order, and which ends with the same \<open>state\<close>,
  \<open>paused\<close> and \<open>pause_lock\<close> and leaves no thread lost or added. A further pause, resume or shutdown that does not
  return is a pause for which the main thread of that system is blocked at the lock.\<close>

theorem server_runs_are_schedules:
  assumes "replay (serve_command env) cmds (k, res, w) = Some (k', res', w')" and "server_ok (k, res, w)" and "shares k s"
  shows "\<exists>ms s'. run_actions (map Main ms) s = Some s' \<and> filter begins ms = concat (map (command_ops \<circ> cmd_type) cmds)
    \<and> shares k' s' \<and> length (m_cpus s') = length (m_cpus s)
    \<and> (\<forall>c f. cmd_type c \<in> {MINI_KVM_COMMAND_PAUSE, MINI_KVM_COMMAND_RESUME, MINI_KVM_COMMAND_SHUTDOWN}
          \<and> mini_kvm_status_handle_command env k' c res' w' = Inl f \<longrightarrow>
        f = Hang \<and> cmd_type c = MINI_KVM_COMMAND_PAUSE
        \<and> (\<exists>s2. main_next Do_Pause s' = Some s2 \<and> m_main s2 = M_Pause_Lock \<and> (\<forall>m. main_next m s2 = None)))"
proof -
  obtain s' where s': "main_schedule (concat (map (command_ops \<circ> cmd_type) cmds)) s s'" "shares k' s'"
    using replay_schedule [OF assms(1,3)] by blast
  have ok: "vec_ok (vcpus k')" using replay_ok [OF assms(1,2)] by (simp add: server_ok_def)
  have "f = Hang \<and> cmd_type c = MINI_KVM_COMMAND_PAUSE
      \<and> (\<exists>s2. main_next Do_Pause s' = Some s2 \<and> m_main s2 = M_Pause_Lock \<and> (\<forall>m. main_next m s2 = None))"
    if c: "cmd_type c \<in> {MINI_KVM_COMMAND_PAUSE, MINI_KVM_COMMAND_RESUME, MINI_KVM_COMMAND_SHUTDOWN}"
      "mini_kvm_status_handle_command env k' c res' w' = Inl f" for c f
  proof -
    have "f = Hang" "cmd_type c = MINI_KVM_COMMAND_PAUSE" "m_lock s'" "m_main s' = M_Idle"
      using command_hangs [OF c(2) ok s'(2) c(1)] s'(2) by (auto simp: shares_def)
    then show ?thesis by (auto simp: main_next_def split: main_op.splits)
  qed
  with s' show ?thesis unfolding main_schedule_def by blast
qed

theorem server_runs_are_schedules_witness:
  "\<exists>k' res' w' ms s'. replay (serve_command linux_ok) [ask_state\<lparr>cmd_type := MINI_KVM_COMMAND_PAUSE\<rparr>] (two_cpu_vm, zero_result, fresh_world)
      = Some (k', res', w') \<and> run_actions (map Main ms) (started 2) = Some s' \<and> filter begins ms = [Do_Pause] \<and> shares k' s' \<and> m_paused s'"
proof -
  let ?c = "ask_state\<lparr>cmd_type := MINI_KVM_COMMAND_PAUSE\<rparr>" and ?s = "(two_cpu_vm, zero_result, fresh_world)"
  have o: "server_ok ?s" "server_state ?s = MINI_KVM_RUNNING" "shares two_cpu_vm (started 2)"
    using two_cpu_vm_ok(2)
    by (simp_all add: server_ok_def lock_ok_def server_state_def shares_def started_def two_cpu_vm_def small_vm_def zero_kvm_def)
  obtain k' res' w' where r: "serve_command linux_ok ?c ?s = Some (k', res', w')" "vm_state k' = MINI_KVM_PAUSED"
    using serve_command_act [OF o(1), of ?c linux_ok] o(2) by (auto simp: server_state_def)
  have rp: "replay (serve_command linux_ok) [?c] ?s = Some (k', res', w')" using r(1) by simp
  have "paused k' \<noteq> 0"
    using r(1) by (auto simp: serve_command_def mini_kvm_status_handle_command_def simple_handlers Let_def res_iff
        split: sum.splits if_splits)
  moreover have "concat (map (command_ops \<circ> cmd_type) [?c]) = [Do_Pause]" by simp
  then obtain ms s' where "run_actions (map Main ms) (started 2) = Some s'" "filter begins ms = [Do_Pause]" "shares k' s'"
    using server_runs_are_schedules [OF rp o(1,3)] by metis
  ultimately show ?thesis using rp by (auto simp: shares_def)
qed

text \<open>What the program prints of an exit is the first of the bytes the guest has written.\<close>

lemma exit_output_first: "exit_ok e \<Longrightarrow> \<not> prints_regs e \<Longrightarrow> exit_output e = take 1 (guest_bytes e)"
  by (cases e) (simp_all add: io_data_def min_def)

lemma first_bytes_all:
  "concat (map (take 1) xss) = concat xss \<longleftrightarrow> (\<forall>xs \<in> set xss. length xs \<le> 1)"
proof
  have le: "length (concat (map (take 1) xss)) \<le> length (concat xss)" for xss :: "'b list list"
    by (induction xss) auto
  show "concat (map (take 1) xss) = concat xss \<Longrightarrow> \<forall>xs \<in> set xss. length xs \<le> 1"
  proof (induction xss)
    case (Cons xs xss)
    have "length (take 1 xs) + length (concat (map (take 1) xss)) = length xs + length (concat xss)"
      using arg_cong [OF Cons.prems, of length] by simp
    with le [of xss] have "length xs \<le> 1" "length (take 1 xs) = length xs" by auto
    with Cons show ?case by simp
  qed simp
qed (induction xss; simp)

text \<open>C18. What is printed of a guest: on a machine with one CPU and no commands, a guest whose exits are any that do not
  end the machine, followed by one that does (a halt, for example), makes the thread take four steps for
  each exit, one to enter its loop and one to leave it; it then has returned, the machine is shut down, and printed is, in order, one byte for
  every output to port 0x3f8, the first of those it moves, and after an internal error the registers. So when
  no register text is printed and every exit moves at least one byte, what the guest has written is printed
  completely exactly if no output to the port moves more than one byte.\<close>

theorem guest_output_printed:
  assumes "\<And>e. e \<in> set es \<Longrightarrow> \<not> ends_machine e" and "ends_machine f"
  shows "\<exists>s. guest_steps (4 * length es + 6) (es @ [f], started 1) = Some ([], s)
    \<and> m_console s = concat (map exit_output (es @ [f])) \<and> m_state s = MINI_KVM_SHUTDOWN \<and> m_cpus s = [T_Done]
    \<and> ((\<forall>e \<in> set (es @ [f]). exit_ok e \<and> \<not> prints_regs e) \<longrightarrow>
        (m_console s = concat (map guest_bytes (es @ [f])) \<longleftrightarrow> (\<forall>e \<in> set (es @ [f]). length (guest_bytes e) \<le> 1)))"
proof -
  let ?xs = "es @ [f]"
  have "concat (map exit_output ?xs) = concat (map guest_bytes ?xs) \<longleftrightarrow> (\<forall>e \<in> set ?xs. length (guest_bytes e) \<le> 1)"
    if "\<forall>e \<in> set ?xs. exit_ok e \<and> \<not> prints_regs e"
  proof -
    have "map exit_output ?xs = map (take 1) (map guest_bytes ?xs)" using that exit_output_first by fastforce
    then show ?thesis using first_bytes_all [of "map guest_bytes ?xs"] by (simp only: set_map ball_simps)
  qed
  with guest_prints [of es f "[]", OF assms] show ?thesis by simp
qed

theorem guest_output_printed_witness:
  "\<exists>s. guest_steps 54 (boot_exits boot_msg, started 1) = Some ([], s)
     \<and> m_console s = string_bytes (''Hello world'' @ nl) \<and> m_cpus s = [T_Done]
     \<and> m_console s \<noteq> concat (map guest_bytes (boot_exits boot_msg))"
proof -
  have t: "takeWhile (\<lambda>b. b \<noteq> 0) boot_msg = string_bytes (''Hello world'' @ nl)" "4 * length (print_loop boot_msg) + 6 = 54"
    by (simp_all add: boot_msg_def string_bytes_def)
  have e: "ends_machine KVM_EXIT_HLT" by simp
  have g: "\<not> ends_machine e" if "e \<in> set (print_loop boot_msg)" for e using that by (rule print_loop_goes_on)
  have two: "length (guest_bytes (out_exit b)) = 2" for b by (simp add: out_exit_def io_data_def)
  have h: "out_exit (hd boot_msg) \<in> set (print_loop boot_msg)" by (simp add: boot_msg_def string_bytes_def)
  have ok: "\<forall>e \<in> set (print_loop bs @ [KVM_EXIT_HLT]). exit_ok e \<and> \<not> prints_regs e" for bs
    by (induction bs) (auto simp: out_exit_def)
  have "\<not> (\<forall>e \<in> set (print_loop boot_msg @ [KVM_EXIT_HLT]). length (guest_bytes e) \<le> 1)"
    using h two [of "hd boot_msg"] by fastforce
  with guest_output_printed [of "print_loop boot_msg" KVM_EXIT_HLT, OF g e] ok [of boot_msg] show ?thesis
    unfolding boot_exits_def [symmetric] t(2) by (auto simp: boot_exits_def print_loop_output t(1))
qed

end
