(* ===== verification/Boot_Code.thy ===== *)
theory Boot_Code imports Machine_Run Run begin

text \<open>
  The boot code of the repository (\<open>bios/boot.s\<close>) and its layout (\<open>bios/bios.ld\<close>), instruction by
  instruction, on the registers and the memory \<open>mini_kvm run\<close> gives the first CPU. The bytes of an
  instruction are the assembler's: \<open>enc i\<close> is the encoding of instruction number \<open>i\<close>, and an
  instruction is executed only where its bytes are found in memory. Every access to memory is
  translated by the page tables of the guest. The program has no interrupt table, so a fault ends
  the guest with \<open>KVM_EXIT_SHUTDOWN\<close>. Of the flags only the zero flag is kept up to date, which is the only
  one the program reads.
\<close>

section \<open>The program\<close>

datatype reg = RAX | RBX | RDX | RSI | RSP | RBP

datatype label = L_start | L_end | L_print | L_print_loop | L_print_exit

datatype instr =
    LEA_MSG reg          \<comment> \<open>\<open>lea r, msg\<close>\<close>
  | CALL label
  | HLT
  | PUSH reg
  | MOV reg reg
  | MOVI reg u64
  | MOV_AL reg reg       \<comment> \<open>\<open>mov al, [r + r']\<close>\<close>
  | CMP_AX u16
  | JE label
  | OUT_DX_AX
  | INC reg
  | JMP label
  | POP reg
  | RET

definition boot_text :: "instr list" where
  "boot_text =
    [LEA_MSG RSI, CALL L_print, HLT,
     PUSH RBP, MOV RBP RSP, MOVI RAX 0, MOVI RBX 0, MOVI RDX 0x3f8,
     MOV_AL RSI RBX, CMP_AX 0, JE L_print_exit, OUT_DX_AX, INC RBX, JMP L_print_loop,
     POP RBP, RET]"

text \<open>The instruction a label stands before.\<close>

fun label_index :: "label \<Rightarrow> nat" where
  "label_index L_start = 0"
| "label_index L_end = 2"
| "label_index L_print = 3"
| "label_index L_print_loop = 8"
| "label_index L_print_exit = 14"

section \<open>Its layout\<close>

text \<open>The section \<open>.text\<close> starts at 0x4000 with \<open>_start\<close>, and \<open>.data\<close> follows it at a multiple of 8.\<close>

type_synonym encoding = "nat \<Rightarrow> u8 list"

definition text_before :: "encoding \<Rightarrow> nat \<Rightarrow> u8 list" where
  "text_before enc i = concat (map enc [0..<i])"

definition instr_addr :: "encoding \<Rightarrow> nat \<Rightarrow> u64" where
  "instr_addr enc i = 0x4000 + word_of_nat (length (text_before enc i))"

definition data_offset :: "encoding \<Rightarrow> nat" where
  "data_offset enc = 8 * ((length (text_before enc (length boot_text)) + 7) div 8)"

definition msg_addr :: "encoding \<Rightarrow> u64" where
  "msg_addr enc = 0x4000 + word_of_nat (data_offset enc)"

definition bios_image :: "encoding \<Rightarrow> u8 list" where
  "bios_image enc = (let text = text_before enc (length boot_text) in
     text @ replicate (data_offset enc - length text) 0 @ boot_msg)"

section \<open>Memory accesses of the guest\<close>

definition canonical :: "u64 \<Rightarrow> bool" where
  "canonical va \<longleftrightarrow> unat va < 2 ^ 47 \<or> 2 ^ 64 - 2 ^ 47 \<le> unat va"

definition translate :: "u64 \<Rightarrow> (nat \<Rightarrow> u8) \<Rightarrow> u64 \<Rightarrow> u64 option" where
  "translate cr3 m va = (if canonical va then page_walk (load64 m) cr3 va else None)"

text \<open>Each byte of an access is translated; \<^term>\<open>None\<close> is a fault.\<close>

definition translate_range :: "u64 \<Rightarrow> (nat \<Rightarrow> u8) \<Rightarrow> u64 \<Rightarrow> nat \<Rightarrow> u64 list option" where
  "translate_range cr3 m va n = those (map (\<lambda>i. translate cr3 m (va + word_of_nat i)) [0..<n])"

definition guest_load :: "u64 \<Rightarrow> (nat \<Rightarrow> u8) \<Rightarrow> u64 \<Rightarrow> nat \<Rightarrow> u8 list option" where
  "guest_load cr3 m va n = map_option (map (\<lambda>pa. m (unat pa))) (translate_range cr3 m va n)"

definition guest_store :: "u64 \<Rightarrow> (nat \<Rightarrow> u8) \<Rightarrow> u64 \<Rightarrow> u8 list \<Rightarrow> (nat \<Rightarrow> u8) option" where
  "guest_store cr3 m va bs = map_option (\<lambda>pas. fold (\<lambda>(pa, b) m'. m'(unat pa := b)) (zip pas bs) m)
     (translate_range cr3 m va (length bs))"

section \<open>One instruction\<close>

type_synonym cpu = "kvm_regs \<times> (nat \<Rightarrow> u8)"

fun get_reg :: "reg \<Rightarrow> kvm_regs \<Rightarrow> u64" where
  "get_reg RAX r = rax r"
| "get_reg RBX r = rbx r"
| "get_reg RDX r = rdx r"
| "get_reg RSI r = rsi r"
| "get_reg RSP r = rsp r"
| "get_reg RBP r = rbp r"

fun set_reg :: "reg \<Rightarrow> u64 \<Rightarrow> kvm_regs \<Rightarrow> kvm_regs" where
  "set_reg RAX x r = r\<lparr>rax := x\<rparr>"
| "set_reg RBX x r = r\<lparr>rbx := x\<rparr>"
| "set_reg RDX x r = r\<lparr>rdx := x\<rparr>"
| "set_reg RSI x r = r\<lparr>rsi := x\<rparr>"
| "set_reg RSP x r = r\<lparr>rsp := x\<rparr>"
| "set_reg RBP x r = r\<lparr>rbp := x\<rparr>"

definition set_zf :: "bool \<Rightarrow> kvm_regs \<Rightarrow> kvm_regs" where
  "set_zf b r = r\<lparr>rflags := (if b then set_bit 6 (rflags r) else unset_bit 6 (rflags r))\<rparr>"

definition guest_push :: "u64 \<Rightarrow> u64 \<Rightarrow> cpu \<Rightarrow> cpu option" where
  "guest_push cr3 x c = (let (r, m) = c in
     map_option (\<lambda>m'. (r\<lparr>rsp := rsp r - 8\<rparr>, m')) (guest_store cr3 m (rsp r - 8) (le64 x)))"

definition guest_pop :: "u64 \<Rightarrow> cpu \<Rightarrow> (u64 \<times> cpu) option" where
  "guest_pop cr3 c = (let (r, m) = c in
     map_option (\<lambda>bs. (word_of_nat (of_le bs), r\<lparr>rsp := rsp r + 8\<rparr>, m)) (guest_load cr3 m (rsp r) 8))"

text \<open>
  What an instruction does to the CPU: it goes on, it leaves the guest, or it waits for an interrupt.
  A halt leaves the guest only when KVM reports it, the parameter \<open>hx\<close>: with the interrupt controller
  \<open>kvm_setup_irq\<close> creates in the kernel, the CPU may wait inside \<open>KVM_RUN\<close> instead.
\<close>

datatype action = Goes cpu | Exits vm_exit cpu | Waits

abbreviation fault :: "cpu \<Rightarrow> action" where
  "fault c \<equiv> Exits KVM_EXIT_SHUTDOWN c"

fun exec_instr :: "bool \<Rightarrow> encoding \<Rightarrow> u64 \<Rightarrow> cpu \<Rightarrow> instr \<Rightarrow> action" where
  "exec_instr hx enc cr3 (r, m) (LEA_MSG d) = Goes (set_reg d (msg_addr enc) r, m)"
| "exec_instr hx enc cr3 (r, m) (CALL l) =
     (case guest_push cr3 (rip r) (r, m) of None \<Rightarrow> fault (r, m)
      | Some (r', m') \<Rightarrow> Goes (r'\<lparr>rip := instr_addr enc (label_index l)\<rparr>, m'))"
| "exec_instr hx enc cr3 c HLT = (if hx then Exits KVM_EXIT_HLT c else Waits)"
| "exec_instr hx enc cr3 (r, m) (PUSH s) =
     (case guest_push cr3 (get_reg s r) (r, m) of None \<Rightarrow> fault (r, m) | Some c' \<Rightarrow> Goes c')"
| "exec_instr hx enc cr3 (r, m) (MOV d s) = Goes (set_reg d (get_reg s r) r, m)"
| "exec_instr hx enc cr3 (r, m) (MOVI d x) = Goes (set_reg d x r, m)"
| "exec_instr hx enc cr3 (r, m) (MOV_AL b i) =
     (case guest_load cr3 m (get_reg b r + get_reg i r) 1 of None \<Rightarrow> fault (r, m)
      | Some bs \<Rightarrow> Goes (r\<lparr>rax := or (and (rax r) (not 0xff)) (ucast (hd bs))\<rparr>, m))"
| "exec_instr hx enc cr3 (r, m) (CMP_AX x) = Goes (set_zf (ucast (rax r) = x) r, m)"
| "exec_instr hx enc cr3 (r, m) (JE l) =
     Goes (if bit (rflags r) 6 then r\<lparr>rip := instr_addr enc (label_index l)\<rparr> else r, m)"
| "exec_instr hx enc cr3 (r, m) OUT_DX_AX =
     Exits (KVM_EXIT_IO \<lparr>io_out = True, io_size = 2, io_port = ucast (rdx r), io_count = 1,
       io_byte = ucast (rax r), io_more = [ucast (drop_bit 8 (rax r))]\<rparr>) (r, m)"
| "exec_instr hx enc cr3 (r, m) (INC d) =
     (let x = get_reg d r + 1 in Goes (set_zf (x = 0) (set_reg d x r), m))"
| "exec_instr hx enc cr3 (r, m) (JMP l) = Goes (r\<lparr>rip := instr_addr enc (label_index l)\<rparr>, m)"
| "exec_instr hx enc cr3 (r, m) (POP d) =
     (case guest_pop cr3 (r, m) of None \<Rightarrow> fault (r, m) | Some (x, r', m') \<Rightarrow> Goes (set_reg d x r', m'))"
| "exec_instr hx enc cr3 (r, m) RET =
     (case guest_pop cr3 (r, m) of None \<Rightarrow> fault (r, m) | Some (x, r', m') \<Rightarrow> Goes (r'\<lparr>rip := x\<rparr>, m'))"

text \<open>
  Fetching: the instruction at \<open>rip\<close>, provided its bytes are there. \<^term>\<open>None\<close> is an instruction that is
  none of the program's, about which the model says nothing.
\<close>

definition guest_step_instr :: "bool \<Rightarrow> encoding \<Rightarrow> u64 \<Rightarrow> cpu \<Rightarrow> action option" where
  "guest_step_instr hx enc cr3 c = (let (r, m) = c in
     case find (\<lambda>i. instr_addr enc i = rip r) [0..<length boot_text] of None \<Rightarrow> None
     | Some i \<Rightarrow> (case guest_load cr3 m (rip r) (length (enc i)) of None \<Rightarrow> Some (fault c)
        | Some bs \<Rightarrow> if bs = enc i
            then Some (exec_instr hx enc cr3 (r\<lparr>rip := instr_addr enc (Suc i)\<rparr>, m) (boot_text ! i))
            else None))"

text \<open>The exits of at most \<open>n\<close> instructions, up to the one that ends the machine.\<close>

fun guest_run :: "bool \<Rightarrow> encoding \<Rightarrow> u64 \<Rightarrow> nat \<Rightarrow> cpu \<Rightarrow> vm_exit list option" where
  "guest_run hx enc cr3 0 c = None"
| "guest_run hx enc cr3 (Suc n) c = (case guest_step_instr hx enc cr3 c of
     None \<Rightarrow> None
   | Some Waits \<Rightarrow> Some []
   | Some (Goes c') \<Rightarrow> guest_run hx enc cr3 n c'
   | Some (Exits e c') \<Rightarrow> if ends_machine e then Some [e] else map_option (Cons e) (guest_run hx enc cr3 n c'))"

section \<open>Lemmas\<close>

text \<open>What the assembler promises: an instruction has between 1 and 15 bytes.\<close>

definition enc_ok :: "encoding \<Rightarrow> bool" where
  "enc_ok enc \<longleftrightarrow> (\<forall>i < length boot_text. enc i \<noteq> [] \<and> length (enc i) \<le> 15)"

lemma length_boot_text: "length boot_text = 16"
  by (simp add: boot_text_def)

lemma text_before_Suc: "text_before enc (Suc i) = text_before enc i @ enc i"
  by (simp add: text_before_def)

lemma text_before_prefix: "i < j \<Longrightarrow> \<exists>xs. text_before enc j = text_before enc i @ enc i @ xs"
proof (induction j)
  case (Suc j)
  then show ?case by (cases "i = j") (auto simp: text_before_Suc less_Suc_eq)
qed simp

lemma text_length: "enc_ok enc \<Longrightarrow> i \<le> 16 \<Longrightarrow> length (text_before enc i) \<le> 15 * i"
proof (induction i)
  case (Suc i)
  then have "length (enc i) \<le> 15" by (simp add: enc_ok_def length_boot_text)
  with Suc show ?case by (simp add: text_before_Suc)
qed (simp add: text_before_def)

lemma text_increases:
  assumes "enc_ok enc" and "i < j" and "j \<le> 16"
  shows "length (text_before enc i) < length (text_before enc j)"
proof -
  obtain xs where "text_before enc j = text_before enc i @ enc i @ xs" using text_before_prefix [OF assms(2)] by blast
  moreover have "enc i \<noteq> []" using assms by (simp add: enc_ok_def length_boot_text)
  ultimately show ?thesis by simp
qed

lemma unat_instr_addr:
  assumes "enc_ok enc" and "i \<le> 16"
  shows "unat (instr_addr enc i) = 0x4000 + length (text_before enc i)"
proof -
  have "length (text_before enc i) \<le> 240" using text_length [OF assms] assms(2) by simp
  then show ?thesis by (simp add: instr_addr_def unat_word_ariths unat_of_nat take_bit_nat_eq_self)
qed

lemma instr_addr_inj:
  assumes "enc_ok enc" and "i < 16" and "j < 16" and "instr_addr enc i = instr_addr enc j"
  shows "i = j"
proof (rule ccontr)
  have "length (text_before enc i) = length (text_before enc j)"
    using assms unat_instr_addr [OF assms(1), of i] unat_instr_addr [OF assms(1), of j] by simp
  moreover assume "i \<noteq> j"
  ultimately show False
    using text_increases [OF assms(1), of i j] text_increases [OF assms(1), of j i] assms(2,3) by (cases "i < j") simp_all
qed

lemma find_instr:
  assumes "enc_ok enc" and "i < 16"
  shows "find (\<lambda>j. instr_addr enc j = instr_addr enc i) [0..<length boot_text] = Some i"
proof -
  have "instr_addr enc j \<noteq> instr_addr enc i" if "j < i" for j
    using instr_addr_inj [OF assms(1), of j i] assms(2) that by auto
  then show ?thesis using assms(2) by (auto simp: find_Some_iff length_boot_text intro!: exI [of _ i])
qed

lemma data_offset_bounds:
  assumes "enc_ok enc"
  shows "length (text_before enc 16) \<le> data_offset enc" and "data_offset enc \<le> 247"
  using text_length [OF assms, of 16] by (simp_all add: data_offset_def length_boot_text)

lemma image_length:
  assumes "enc_ok enc"
  shows "length (bios_image enc) = data_offset enc + 13"
  using data_offset_bounds [OF assms] by (simp add: bios_image_def Let_def length_boot_text boot_msg_def string_bytes_def)

lemma unat_msg_addr:
  assumes "enc_ok enc"
  shows "unat (msg_addr enc) = 0x4000 + data_offset enc"
  using data_offset_bounds(2) [OF assms] by (simp add: msg_addr_def unat_word_ariths unat_of_nat take_bit_nat_eq_self)

text \<open>The memory the program needs: the page tables and the image.\<close>

definition boot_mem :: "encoding \<Rightarrow> (nat \<Rightarrow> u8) \<Rightarrow> bool" where
  "boot_mem enc m \<longleftrightarrow> (\<exists>m0. \<forall>a. 0x1000 \<le> a \<and> a < 0x4000 \<longrightarrow> m a = boot_tables m0 a)
     \<and> (\<forall>i < length (bios_image enc). m (0x4000 + i) = bios_image enc ! i)"

lemma boot_mem_write:
  "boot_mem enc m \<Longrightarrow> 0x4000 + length (bios_image enc) \<le> a \<Longrightarrow> boot_mem enc (guest_write a bs m)"
  unfolding boot_mem_def by (auto simp: guest_write_def)

lemma boot_mem_loaded:
  "boot_mem enc (guest_write 0x4000 (bios_image enc @ pad) (boot_tables m))"
  unfolding boot_mem_def by (auto simp: guest_write_def nth_append intro!: exI [of _ m])

lemma image_text:
  assumes "enc_ok enc" and "boot_mem enc m" and "i < 16" 
  shows "map m [0x4000 + length (text_before enc i)..<0x4000 + length (text_before enc i) + length (enc i)] = enc i"
proof -
  obtain xs where "text_before enc 16 = text_before enc i @ enc i @ xs" using text_before_prefix [OF assms(3)] by blast
  then have im: "\<exists>ys. bios_image enc = text_before enc i @ enc i @ ys"
    by (auto simp: bios_image_def Let_def length_boot_text)
  show ?thesis
  proof (rule nth_equalityI)
    fix j assume "j < length (map m [0x4000 + length (text_before enc i)..<0x4000 + length (text_before enc i) + length (enc i)])"
    then have j: "j < length (enc i)" by simp
    then have "m (0x4000 + (length (text_before enc i) + j)) = enc i ! j"
      using assms(2) im by (auto simp: boot_mem_def nth_append)
    then show "map m [0x4000 + length (text_before enc i)..<0x4000 + length (text_before enc i) + length (enc i)] ! j = enc i ! j"
      using j by (simp add: add.assoc)
  qed simp
qed

lemma image_msg:
  assumes "enc_ok enc" and "boot_mem enc m" and "i < 13"
  shows "m (0x4000 + data_offset enc + i) = boot_msg ! i"
proof -
  have "bios_image enc ! (data_offset enc + i) = boot_msg ! i"
  proof -
    let ?p = "text_before enc 16 @ replicate (data_offset enc - length (text_before enc 16)) 0"
    have "length ?p = data_offset enc" using data_offset_bounds(1) [OF assms(1)] by simp
    then have "(?p @ boot_msg) ! (data_offset enc + i) = boot_msg ! i" by (metis nth_append_length_plus)
    then show ?thesis by (simp add: bios_image_def Let_def length_boot_text)
  qed
  with assms(2,3) image_length [OF assms(1)] show ?thesis by (simp add: boot_mem_def add.assoc)
qed

subsection \<open>Translation\<close>

declare PLM4_ADDR_def [simp del]

lemma high_index: "2 ^ 25 - 2 ^ 8 \<le> (n :: nat) \<Longrightarrow> n < 2 ^ 25 \<Longrightarrow> n mod 512 \<noteq> 0"
proof
  assume a: "2 ^ 25 - 2 ^ 8 \<le> n" "n < 2 ^ 25" "n mod 512 = 0"
  then obtain q where "n = 512 * q" by auto
  with a(1,2) show False by simp
qed

lemma translate_boot:
  assumes "boot_mem enc m"
  shows "translate PLM4_ADDR m va = (if unat va < 0x200000 then Some va else None)"
proof -
  obtain m0 where m0: "\<forall>a. 0x1000 \<le> a \<and> a < 0x4000 \<longrightarrow> m a = boot_tables m0 a" using assms by (auto simp: boot_mem_def)
  have t: "load64 m a = load64 (boot_tables m0) a" if "0x1000 \<le> a" "a + 8 \<le> 0x4000" for a
    using that m0 by (intro load64_cong) simp
  show ?thesis
  proof (cases "unat va < 2 ^ 48")
    case True
    show ?thesis using walk_boot_tables [OF t True] by (simp add: translate_def canonical_def)
  next
    case False
    have "page_walk (load64 m) PLM4_ADDR va = None" if c: "canonical va"
    proof -
      have "2 ^ 64 - 2 ^ 47 \<le> unat va" using False c by (simp add: canonical_def)
      then have "(2 ^ 64 - 2 ^ 47) div 2 ^ 39 \<le> unat va div 2 ^ 39" by (rule div_le_mono)
      then have "2 ^ 25 - 2 ^ 8 \<le> unat va div 2 ^ 39" by simp
      moreover have "unat va div 2 ^ 39 < 2 ^ 25" using unat_u64_less [of va] by (simp add: less_mult_imp_div_less)
      ultimately have "unat va div 2 ^ 39 mod 512 \<noteq> 0" by (rule high_index)
      moreover have "pt_index va 3 = unat va div 2 ^ 39 mod 512" unfolding pt_index_eq by simp
      ultimately have "pt_index va 3 \<noteq> 0" by simp
      moreover have "load64 m (0x1000 + 8 * pt_index va 3) = (if pt_index va 3 = 0 then 0x2003 else 0)"
        using t boot_tables_entry(1) [OF pt_index_less] pt_index_less [of va 3] by simp
      ultimately show ?thesis by (simp add: page_walk_def Let_def pt_entry_def PLM4_ADDR_def)
    qed
    with False show ?thesis by (simp add: translate_def)
  qed
qed

lemma unat_add_small:
  "unat (va :: u64) + i < 0x200000 \<Longrightarrow> unat (va + word_of_nat i) = unat va + i"
  by (simp add: unat_word_ariths unat_of_nat take_bit_nat_eq_self)

lemma those_Some: "those (map (\<lambda>x. Some (f x)) xs) = Some (map f xs)"
  by (induction xs) simp_all

lemma those_None: "None \<in> set xs \<Longrightarrow> those xs = None"
  by (induction xs) (auto split: option.splits)

lemma translate_range_boot:
  assumes "boot_mem enc m" and "unat va + n \<le> 0x200000"
  shows "translate_range PLM4_ADDR m va n = Some (map (\<lambda>i. va + word_of_nat i) [0..<n])"
proof -
  have "map (\<lambda>i. translate PLM4_ADDR m (va + word_of_nat i)) [0..<n] = map (\<lambda>i. Some (va + word_of_nat i)) [0..<n]"
    using assms(2) by (auto simp: translate_boot [OF assms(1)] unat_add_small)
  then show ?thesis by (simp only: translate_range_def those_Some)
qed

lemma guest_load_boot:
  assumes "boot_mem enc m" and "unat va + n \<le> 0x200000"
  shows "guest_load PLM4_ADDR m va n = Some (map m [unat va..<unat va + n])"
proof -
  have "map (\<lambda>i. m (unat (va + word_of_nat i))) [0..<n] = map m [unat va..<unat va + n]"
    using assms(2) by (intro nth_equalityI) (simp_all add: unat_add_small)
  then show ?thesis by (simp add: guest_load_def translate_range_boot [OF assms] comp_def)
qed

lemma guest_write_Cons: "guest_write a (b # bs) m = guest_write (Suc a) bs (m(a := b))"
  by (auto simp: guest_write_def fun_eq_iff nth_Cons' le_Suc_eq Suc_le_eq intro: arg_cong [of _ _ "nth bs"])

lemma guest_write_Nil: "guest_write a [] m = m"
  by (auto simp: guest_write_def fun_eq_iff)

lemma fold_write:
  "length xs = length bs \<Longrightarrow> (\<And>i. i < length bs \<Longrightarrow> f (xs ! i) = a + i)
    \<Longrightarrow> fold (\<lambda>(x, b) m'. m'(f x := b)) (zip xs bs) m = guest_write a bs m"
proof (induction bs arbitrary: xs a m)
  case (Cons b bs)
  obtain x ys where xs: "xs = x # ys" "length ys = length bs" using Cons.prems(1) by (cases xs) auto
  have "f x = a" "\<And>i. i < length bs \<Longrightarrow> f (ys ! i) = Suc a + i"
    using Cons.prems(2) [of 0] Cons.prems(2) [of "Suc i" for i] by (auto simp: xs)
  then show ?case using Cons.IH [OF xs(2), of "Suc a"] by (simp add: xs guest_write_Cons fun_upd_def)
qed (simp add: guest_write_Nil)

lemma guest_store_boot:
  assumes "boot_mem enc m" and "unat va + length bs \<le> 0x200000"
  shows "guest_store PLM4_ADDR m va bs = Some (guest_write (unat va) bs m)"
  using assms(2) by (simp add: guest_store_def translate_range_boot [OF assms] unat_add_small fold_write [where a = "unat va"])

lemma guest_store_faults:
  assumes "boot_mem enc m" and "i < length bs" and "0x200000 \<le> unat (va + word_of_nat i)"
  shows "guest_store PLM4_ADDR m va bs = None"
proof -
  have "None \<in> set (map (\<lambda>i. translate PLM4_ADDR m (va + word_of_nat i)) [0..<length bs])"
    using assms(2,3) translate_boot [OF assms(1), of "va + word_of_nat i"] by (auto simp: image_iff intro!: bexI [of _ i])
  then show ?thesis by (simp add: guest_store_def translate_range_def those_None)
qed

subsection \<open>Single instructions\<close>

text \<open>An instruction of the program is fetched where it lies.\<close>

lemma fetch_boot:
  assumes "enc_ok enc" and "boot_mem enc m" and "rip r = instr_addr enc i" and "i < 16"
  shows "guest_step_instr hx enc PLM4_ADDR (r, m) =
    Some (exec_instr hx enc PLM4_ADDR (r\<lparr>rip := instr_addr enc (Suc i)\<rparr>, m) (boot_text ! i))"
proof -
  have a: "unat (instr_addr enc i) = 0x4000 + length (text_before enc i)" using unat_instr_addr [OF assms(1)] assms(4) by simp
  have "length (text_before enc i) \<le> 240" "length (enc i) \<le> 15"
    using text_length [OF assms(1), of i] assms(1,4) by (simp_all add: enc_ok_def length_boot_text)
  then have "guest_load PLM4_ADDR m (instr_addr enc i) (length (enc i)) = Some (enc i)"
    using guest_load_boot [OF assms(2), of "instr_addr enc i" "length (enc i)"] image_text [OF assms(1,2,4)] by (simp add: a)
  then show ?thesis by (simp add: guest_step_instr_def assms(3) find_instr [OF assms(1,4)])
qed

lemma run_goes:
  assumes "enc_ok enc" and "boot_mem enc m" and "rip r = instr_addr enc i" and "i < 16"
    and "exec_instr hx enc PLM4_ADDR (r\<lparr>rip := instr_addr enc (Suc i)\<rparr>, m) (boot_text ! i) = Goes c"
  shows "guest_run hx enc PLM4_ADDR (Suc n) (r, m) = guest_run hx enc PLM4_ADDR n c"
  by (simp add: fetch_boot [OF assms(1-4)] assms(5))

lemma run_exits:
  assumes "enc_ok enc" and "boot_mem enc m" and "rip r = instr_addr enc i" and "i < 16"
    and "exec_instr hx enc PLM4_ADDR (r\<lparr>rip := instr_addr enc (Suc i)\<rparr>, m) (boot_text ! i) = Exits e c"
  shows "guest_run hx enc PLM4_ADDR (Suc n) (r, m) =
    (if ends_machine e then Some [e] else map_option (Cons e) (guest_run hx enc PLM4_ADDR n c))"
  by (simp add: fetch_boot [OF assms(1-4)] assms(5))

lemma push_boot:
  assumes "boot_mem enc m" and "8 \<le> unat (rsp r)" and "unat (rsp r) \<le> 0x200000"
  shows "guest_push PLM4_ADDR x (r, m) = Some (r\<lparr>rsp := rsp r - 8\<rparr>, store64 (unat (rsp r) - 8) x m)"
proof -
  have "unat (rsp r - 8) = unat (rsp r) - 8" using assms(2) by (simp add: unat_sub word_le_nat_alt)
  then show ?thesis using assms(2,3) by (simp add: guest_push_def guest_store_boot [OF assms(1)] store64_def)
qed

lemma pop_boot:
  assumes "boot_mem enc m" and "unat (rsp r) + 8 \<le> 0x200000"
  shows "guest_pop PLM4_ADDR (r, m) = Some (load64 m (unat (rsp r)), r\<lparr>rsp := rsp r + 8\<rparr>, m)"
  using assms(2) by (simp add: guest_pop_def guest_load_boot [OF assms(1)] load64_def)

subsection \<open>The loop of \<open>print\<close>\<close>

lemma ucast_al: "or (and (ucast (b :: u8)) (not 0xff)) (ucast (c :: u8)) = (ucast c :: u64)"
proof -
  have "and (ucast b :: u64) (not 0xff) = 0"
  proof -
    have m: "(0xff :: u64) = mask 8" by (simp add: mask_eq_exp_minus_1)
    show ?thesis unfolding m by (rule bit_word_eqI) (auto simp: bit_simps dest: bit_imp_le_length)
  qed
  then show ?thesis by simp
qed

lemma ucast_ax: "(ucast (ucast (b :: u8) :: u64) :: u16) = 0 \<longleftrightarrow> b = 0"
proof
  assume "(ucast (ucast b :: u64) :: u16) = 0"
  then have "bit (ucast (ucast b :: u64) :: u16) n = bit (0 :: u16) n" for n by simp
  then have "n < 16 \<Longrightarrow> \<not> bit b n" for n by (simp add: bit_ucast_iff)
  then have "\<not> bit b n" for n using bit_imp_le_length [of b n] by fastforce
  then show "b = 0" by (intro bit_word_eqI) simp
qed simp

lemma ucast_u8_u64: "ucast (ucast (b :: u8) :: u64) = b"
  by (rule bit_word_eqI) (simp add: bit_ucast_iff)

lemma ucast_ah: "ucast (drop_bit 8 (ucast (b :: u8) :: u64)) = (0 :: u8)"
  by (rule bit_word_eqI) (auto simp: bit_ucast_iff bit_drop_bit_eq dest: bit_imp_le_length)

lemma bit_set_zf: "bit (rflags (set_zf b r)) 6 = b"
  by (simp add: set_zf_def bit_set_bit_iff bit_unset_bit_iff)

lemma set_zf_frame [simp]:
  "rip (set_zf b r) = rip r" "rsp (set_zf b r) = rsp r" "rsi (set_zf b r) = rsi r" "rbx (set_zf b r) = rbx r"
  "rdx (set_zf b r) = rdx r" "rax (set_zf b r) = rax r" 
  by (simp_all add: set_zf_def)

text \<open>The registers at \<open>print_loop\<close>, when \<open>i\<close> bytes have been printed.\<close>

definition printing :: "encoding \<Rightarrow> u64 \<Rightarrow> nat \<Rightarrow> kvm_regs \<Rightarrow> bool" where
  "printing enc sp i r \<longleftrightarrow> rip r = instr_addr enc 8 \<and> rsp r = sp \<and> rsi r = msg_addr enc \<and> rbx r = word_of_nat i
     \<and> rdx r = 0x3f8 \<and> (\<exists>b :: u8. rax r = ucast b)"

text \<open>The first three instructions of a round: the next byte is in \<open>al\<close>, and a zero byte ends the loop.\<close>

lemma loop_test:
  assumes "enc_ok enc" and "boot_mem enc m" and "printing enc sp i r" and "i < 0x1000"
  defines "b \<equiv> m (unat (msg_addr enc) + i)"
  shows "\<exists>r'. (\<forall>n. guest_run hx enc PLM4_ADDR (3 + n) (r, m) = guest_run hx enc PLM4_ADDR n (r', m))
    \<and> rip r' = instr_addr enc (if b = 0 then 14 else 11) \<and> rax r' = ucast b \<and> rsp r' = sp
    \<and> rsi r' = msg_addr enc \<and> rbx r' = word_of_nat i \<and> rdx r' = 0x3f8"
proof -
  note r = assms(3) [unfolded printing_def]
  obtain c :: u8 where c: "rax r = ucast c" using r by blast
  have lt: "unat (msg_addr enc) + i < 0x200000"
    using unat_msg_addr [OF assms(1)] data_offset_bounds(2) [OF assms(1)] assms(4) by simp
  let ?r1 = "r\<lparr>rip := instr_addr enc 9, rax := ucast b\<rparr>"
  let ?r2 = "set_zf (b = 0) (?r1\<lparr>rip := instr_addr enc 10\<rparr>)"
  let ?r3 = "?r2\<lparr>rip := instr_addr enc (if b = 0 then 14 else 11)\<rparr>"
  have l: "guest_load PLM4_ADDR m (msg_addr enc + word_of_nat i) 1 = Some [b]"
    using guest_load_boot [OF assms(2), of "msg_addr enc + word_of_nat i" 1] lt by (simp add: unat_add_small b_def)
  note l = l [unfolded One_nat_def] and al = ucast_al [simplified]
  have "guest_run hx enc PLM4_ADDR (Suc (Suc (Suc n))) (r, m) = guest_run hx enc PLM4_ADDR (Suc (Suc n)) (?r1, m)" for n
    using r by (intro run_goes [OF assms(1,2), of _ 8]) (simp_all add: boot_text_def l c al)
  moreover have "guest_run hx enc PLM4_ADDR (Suc (Suc n)) (?r1, m) = guest_run hx enc PLM4_ADDR (Suc n) (?r2, m)" for n
    by (intro run_goes [OF assms(1,2), of _ 9]) (simp_all add: boot_text_def ucast_ax)
  moreover have "guest_run hx enc PLM4_ADDR (Suc n) (?r2, m) = guest_run hx enc PLM4_ADDR n (?r3, m)" for n
    by (intro run_goes [OF assms(1,2), of _ 10]) (simp_all add: boot_text_def bit_set_zf)
  ultimately have "guest_run hx enc PLM4_ADDR (3 + n) (r, m) = guest_run hx enc PLM4_ADDR n (?r3, m)" for n
    by (simp add: eval_nat_numeral)
  with r show ?thesis by (intro exI [of _ ?r3]) simp
qed

lemma loop_prints:
  assumes "enc_ok enc" and "boot_mem enc m"
  shows "printing enc sp i r \<Longrightarrow> i + length bs < 0x1000 \<Longrightarrow> 0 \<notin> set bs
    \<Longrightarrow> (\<And>j. j \<le> length bs \<Longrightarrow> m (unat (msg_addr enc) + i + j) = (bs @ [0]) ! j)
    \<Longrightarrow> \<exists>r'. rip r' = instr_addr enc 14 \<and> rsp r' = sp
      \<and> (\<forall>n. guest_run hx enc PLM4_ADDR (6 * length bs + (3 + n)) (r, m)
            = map_option (\<lambda>es. map out_exit bs @ es) (guest_run hx enc PLM4_ADDR n (r', m)))"
proof (induction bs arbitrary: i r)
  case Nil
  have z: "m (unat (msg_addr enc) + i) = 0" "i < 0x1000" using Nil.prems by simp_all
  obtain r' where "\<And>n. guest_run hx enc PLM4_ADDR (3 + n) (r, m) = guest_run hx enc PLM4_ADDR n (r', m)"
    "rip r' = instr_addr enc 14" "rsp r' = sp"
    using loop_test [OF assms Nil.prems(1) z(2), of hx] by (auto simp: z(1))
  moreover have "map_option (\<lambda>a. a) x = x" for x :: "vm_exit list option" by (cases x) simp_all
  ultimately show ?case by (intro exI [of _ r']) simp
next
  case (Cons b bs)
  have b: "m (unat (msg_addr enc) + i) = b" "b \<noteq> 0" "i < 0x1000" using Cons.prems(2,3) Cons.prems(4) [of 0] by auto
  obtain r1 where r1: "\<And>n. guest_run hx enc PLM4_ADDR (3 + n) (r, m) = guest_run hx enc PLM4_ADDR n (r1, m)"
    "rip r1 = instr_addr enc 11" "rax r1 = ucast b" "rsp r1 = sp" "rsi r1 = msg_addr enc" "rbx r1 = word_of_nat i" "rdx r1 = 0x3f8"
    using loop_test [OF assms Cons.prems(1) b(3), of hx] by (auto simp: b(1,2))
  let ?r2 = "r1\<lparr>rip := instr_addr enc 12\<rparr>"
  let ?r3 = "set_zf (word_of_nat i + 1 = (0 :: u64)) (?r2\<lparr>rip := instr_addr enc 13, rbx := word_of_nat i + 1\<rparr>)"
  let ?r4 = "?r3\<lparr>rip := instr_addr enc 8\<rparr>"
  have "guest_run hx enc PLM4_ADDR (Suc (Suc (Suc n))) (r1, m)
      = map_option (Cons (out_exit b)) (guest_run hx enc PLM4_ADDR (Suc (Suc n)) (?r2, m))" for n
    by (subst run_exits [OF assms, of _ 11 hx "out_exit b" "(?r2, m)"])
      (simp_all add: boot_text_def r1 out_exit_def ucast_u8_u64 ucast_ah)
  moreover have "guest_run hx enc PLM4_ADDR (Suc (Suc n)) (?r2, m) = guest_run hx enc PLM4_ADDR (Suc n) (?r3, m)" for n
    by (intro run_goes [OF assms, of _ 12]) (simp_all add: boot_text_def r1 Let_def)
  moreover have "guest_run hx enc PLM4_ADDR (Suc n) (?r3, m) = guest_run hx enc PLM4_ADDR n (?r4, m)" for n
    by (intro run_goes [OF assms, of _ 13]) (simp_all add: boot_text_def)
  ultimately have round: "guest_run hx enc PLM4_ADDR (6 + n) (r, m)
      = map_option (Cons (out_exit b)) (guest_run hx enc PLM4_ADDR n (?r4, m))" for n
    using r1(1) [of "3 + n"] by (simp add: eval_nat_numeral)
  have "printing enc sp (Suc i) ?r4" using r1 by (auto simp: printing_def)
  from Cons.IH [OF this] obtain r' where r': "rip r' = instr_addr enc 14" "rsp r' = sp"
    "\<And>n. guest_run hx enc PLM4_ADDR (6 * length bs + (3 + n)) (?r4, m)
            = map_option (\<lambda>es. map out_exit bs @ es) (guest_run hx enc PLM4_ADDR n (r', m))"
    using Cons.prems(2,3) Cons.prems(4) [of "Suc j" for j] by auto
  have "guest_run hx enc PLM4_ADDR (6 * length (b # bs) + (3 + n)) (r, m)
      = map_option (\<lambda>es. map out_exit (b # bs) @ es) (guest_run hx enc PLM4_ADDR n (r', m))" for n
    using round [of "6 * length bs + (3 + n)"] r'(3) [of n] by (simp add: add.assoc option.map_comp comp_def)
  with r'(1,2) show ?case by blast
qed

subsection \<open>The whole program\<close>

lemma boot_msg_bytes:
  obtains bs where "boot_msg = bs @ [0]" and "length bs = 12" and "0 \<notin> set bs" and "print_loop boot_msg = map out_exit bs"
  by (rule that [of "string_bytes ''Hello world'' @ [0x0A]"]) (simp_all add: boot_msg_def string_bytes_def)

text \<open>Up to the loop: the return address and \<open>rbp\<close> are on the stack.\<close>

lemma boot_starts:
  assumes "enc_ok enc" and "boot_mem enc m" and "rip r = instr_addr enc 0"
    and "0x4000 + length (bios_image enc) + 16 \<le> unat (rsp r)" and "unat (rsp r) \<le> 0x200000"
  shows "\<exists>r' m'. printing enc (rsp r - 16) 0 r' \<and> boot_mem enc m' \<and> load64 m' (unat (rsp r) - 8) = instr_addr enc 2
    \<and> (\<forall>n. guest_run hx enc PLM4_ADDR (7 + n) (r, m) = guest_run hx enc PLM4_ADDR n (r', m'))"
proof -
  let ?sp = "unat (rsp r)"
  have sp: "unat (rsp r - 8) = ?sp - 8" using assms(4) by (simp add: unat_sub word_le_nat_alt)
  let ?r1 = "r\<lparr>rip := instr_addr enc 1, rsi := msg_addr enc\<rparr>"
  let ?r2 = "?r1\<lparr>rip := instr_addr enc 3, rsp := rsp r - 8\<rparr>" and ?m1 = "store64 (?sp - 8) (instr_addr enc 2) m"
  let ?r3 = "?r2\<lparr>rip := instr_addr enc 4, rsp := rsp r - 16\<rparr>" and ?m2 = "store64 (?sp - 16) (rbp r) ?m1"
  let ?r4 = "?r3\<lparr>rip := instr_addr enc 5, rbp := rsp r - 16\<rparr>"
  let ?r5 = "?r4\<lparr>rip := instr_addr enc 6, rax := 0\<rparr>"
  let ?r6 = "?r5\<lparr>rip := instr_addr enc 7, rbx := 0\<rparr>"
  let ?r7 = "?r6\<lparr>rip := instr_addr enc 8, rdx := 0x3f8\<rparr>"
  have m1: "boot_mem enc ?m1" unfolding store64_def by (rule boot_mem_write [OF assms(2)]) (use assms(4) in simp)
  have m2: "boot_mem enc ?m2" unfolding store64_def [of "?sp - 16"] by (rule boot_mem_write [OF m1]) (use assms(4) in simp)
  note step = run_goes [OF assms(1)]
  have s1: "guest_run hx enc PLM4_ADDR (Suc n) (r, m) = guest_run hx enc PLM4_ADDR n (?r1, m)" for n
    by (rule step [OF assms(2,3)]) (simp_all add: boot_text_def)
  have s2: "guest_run hx enc PLM4_ADDR (Suc n) (?r1, m) = guest_run hx enc PLM4_ADDR n (?r2, ?m1)" for n
    by (rule step [OF assms(2), of _ 1]) (use assms(4,5) in \<open>simp_all add: boot_text_def push_boot [OF assms(2)] numeral_2_eq_2\<close>)
  have s3: "guest_run hx enc PLM4_ADDR (Suc n) (?r2, ?m1) = guest_run hx enc PLM4_ADDR n (?r3, ?m2)" for n
    by (rule step [OF m1, of _ 3]) (use assms(4,5) in \<open>simp_all add: boot_text_def push_boot [OF m1] sp\<close>)
  have s4: "guest_run hx enc PLM4_ADDR (Suc n) (?r3, ?m2) = guest_run hx enc PLM4_ADDR n (?r4, ?m2)" for n
    by (rule step [OF m2, of _ 4]) (simp_all add: boot_text_def)
  have s5: "guest_run hx enc PLM4_ADDR (Suc n) (?r4, ?m2) = guest_run hx enc PLM4_ADDR n (?r5, ?m2)" for n
    by (rule step [OF m2, of _ 5]) (simp_all add: boot_text_def)
  have s6: "guest_run hx enc PLM4_ADDR (Suc n) (?r5, ?m2) = guest_run hx enc PLM4_ADDR n (?r6, ?m2)" for n
    by (rule step [OF m2, of _ 6]) (simp_all add: boot_text_def)
  have s7: "guest_run hx enc PLM4_ADDR (Suc n) (?r6, ?m2) = guest_run hx enc PLM4_ADDR n (?r7, ?m2)" for n
    by (rule step [OF m2, of _ 7]) (simp_all add: boot_text_def)
  have "7 + n = Suc (Suc (Suc (Suc (Suc (Suc (Suc n))))))" for n by simp
  then have "guest_run hx enc PLM4_ADDR (7 + n) (r, m) = guest_run hx enc PLM4_ADDR n (?r7, ?m2)" for n
    by (simp only: s1 s2 s3 s4 s5 s6 s7)
  moreover have "printing enc (rsp r - 16) 0 ?r7" by (auto simp: printing_def intro: exI [of _ 0])
  moreover have "load64 ?m2 (?sp - 8) = instr_addr enc 2"
    using assms(4) by (simp add: gmem.load_store_other gmem.load_store_same)
  ultimately show ?thesis using m2 by blast
qed

text \<open>After the loop: \<open>pop\<close>, \<open>ret\<close> to the halt, and the halt.\<close>

lemma boot_ends:
  assumes "enc_ok enc" and "boot_mem enc m" and "rip r = instr_addr enc 14" and "unat (rsp r) + 16 \<le> 0x200000"
    and "load64 m (unat (rsp r) + 8) = instr_addr enc 2"
  shows "guest_run hx enc PLM4_ADDR 3 (r, m) = Some (if hx then [KVM_EXIT_HLT] else [])"
proof -
  have sp: "unat (rsp r + 8) = unat (rsp r) + 8" using unat_add_small [of "rsp r" 8] assms(4) by simp
  let ?r1 = "r\<lparr>rip := instr_addr enc 15, rsp := rsp r + 8, rbp := load64 m (unat (rsp r))\<rparr>"
  let ?r2 = "?r1\<lparr>rip := instr_addr enc 2, rsp := rsp r + 16\<rparr>"
  have "guest_run hx enc PLM4_ADDR (Suc (Suc (Suc 0))) (r, m) = guest_run hx enc PLM4_ADDR (Suc (Suc 0)) (?r1, m)"
    by (rule run_goes [OF assms(1-3)]) (use assms(4) in \<open>simp_all add: boot_text_def pop_boot [OF assms(2)]\<close>)
  moreover have "guest_run hx enc PLM4_ADDR (Suc (Suc 0)) (?r1, m) = guest_run hx enc PLM4_ADDR (Suc 0) (?r2, m)"
    by (rule run_goes [OF assms(1,2), of _ 15]) (use assms(4,5) in \<open>simp_all add: boot_text_def pop_boot [OF assms(2)] sp\<close>)
  moreover have "guest_run hx enc PLM4_ADDR (Suc 0) (?r2, m) = Some (if hx then [KVM_EXIT_HLT] else [])"
    by (simp add: fetch_boot [OF assms(1,2), of _ 2] boot_text_def)
  ultimately show ?thesis by (simp only: numeral_3_eq_3)
qed

lemma boot_runs:
  assumes "enc_ok enc" and "boot_mem enc m" and "rip r = instr_addr enc 0"
    and "0x4000 + length (bios_image enc) + 16 \<le> unat (rsp r)" and "unat (rsp r) \<le> 0x200000"
  shows "guest_run hx enc PLM4_ADDR 85 (r, m) = Some (print_loop boot_msg @ (if hx then [KVM_EXIT_HLT] else []))"
proof -
  obtain r1 m1 where r1: "printing enc (rsp r - 16) 0 r1" "boot_mem enc m1" "load64 m1 (unat (rsp r) - 8) = instr_addr enc 2"
    "\<And>n. guest_run hx enc PLM4_ADDR (7 + n) (r, m) = guest_run hx enc PLM4_ADDR n (r1, m1)"
    using boot_starts [OF assms, of hx] by blast
  obtain bs where bs: "boot_msg = bs @ [0]" "length bs = 12" "0 \<notin> set bs" "print_loop boot_msg = map out_exit bs"
    by (rule boot_msg_bytes)
  have "m1 (unat (msg_addr enc) + 0 + j) = (bs @ [0]) ! j" if "j \<le> length bs" for j
    using image_msg [OF assms(1) r1(2), of j] that bs(2) unat_msg_addr [OF assms(1)] by (simp add: bs(1))
  then obtain r2 where r2: "rip r2 = instr_addr enc 14" "rsp r2 = rsp r - 16"
    "\<And>n. guest_run hx enc PLM4_ADDR (6 * length bs + (3 + n)) (r1, m1)
        = map_option (\<lambda>es. map out_exit bs @ es) (guest_run hx enc PLM4_ADDR n (r2, m1))"
    using loop_prints [OF assms(1) r1(2,1), of bs hx] bs(2,3) by auto
  have "unat (rsp r2) = unat (rsp r) - 16" using assms(4) by (simp add: r2(2) unat_sub word_le_nat_alt)
  then have "guest_run hx enc PLM4_ADDR 3 (r2, m1) = Some (if hx then [KVM_EXIT_HLT] else [])"
    using assms(4,5) r1(3) by (intro boot_ends [OF assms(1) r1(2) r2(1)]) simp_all
  then show ?thesis using r1(4) [of 78] r2(3) [of 3] by (simp add: bs(2,4))
qed

lemma boot_faults:
  assumes "enc_ok enc" and "boot_mem enc m" and "rip r = instr_addr enc 0" and "0x200000 < unat (rsp r)"
  shows "guest_run hx enc PLM4_ADDR 85 (r, m) = Some [KVM_EXIT_SHUTDOWN]"
proof -
  let ?r1 = "r\<lparr>rip := instr_addr enc 1, rsi := msg_addr enc\<rparr>"
  have "rsp r - 8 + word_of_nat 7 = rsp r - 1" by simp
  moreover have "unat (rsp r - 1) = unat (rsp r) - 1" using assms(4) by (simp add: unat_sub word_le_nat_alt)
  ultimately have "0x200000 \<le> unat (rsp r - 8 + word_of_nat 7)" using assms(4) by simp
  then have p: "guest_store PLM4_ADDR m (rsp r - 8) (le64 x) = None" for x
    by (intro guest_store_faults [OF assms(2), of 7]) simp_all
  have "guest_run hx enc PLM4_ADDR (Suc (Suc 83)) (r, m) = guest_run hx enc PLM4_ADDR (Suc 83) (?r1, m)"
    by (rule run_goes [OF assms(1-3)]) (simp_all add: boot_text_def)
  moreover have "guest_run hx enc PLM4_ADDR (Suc 83) (?r1, m) = Some [KVM_EXIT_SHUTDOWN]"
    by (subst run_exits [OF assms(1,2), of _ 1 hx KVM_EXIT_SHUTDOWN]) (simp_all add: boot_text_def guest_push_def p)
  ultimately show ?thesis by simp
qed

text \<open>The thread takes any exits that do not end the machine, and is then at the head of its loop.\<close>

lemma guest_goes_on:
  assumes "\<And>e. e \<in> set es \<Longrightarrow> \<not> ends_machine e"
  shows "guest_steps (1 + 4 * length es) (es, started 1)
    = Some ([], (started 1)\<lparr>m_cpus := [T_Loop], m_console := concat (map exit_output es)\<rparr>)"
proof -
  let ?s0 = "(started 1)\<lparr>m_cpus := [T_Loop]\<rparr>"
  have "guest_steps 1 (es, started 1) = Some (es, ?s0)"
    by (simp add: guest_step_def thread_next_def set_pc_def started_def)
  moreover have "guest_steps (4 * length es) (es, ?s0) = Some ([], ?s0\<lparr>m_console := concat (map exit_output es)\<rparr>)"
    using guest_runs [of es ?s0 "[]", OF assms] by (simp add: started_def)
  ultimately show ?thesis by (simp only: guest_steps_add option.case)
qed

text \<open>One encoding of the instructions, for the witness.\<close>

definition boot_encoding :: encoding where
  "boot_encoding i = [[0x48, 0x8d, 0x34, 0x25, 0x40, 0x40, 0, 0], [0xe8, 1, 0, 0, 0], [0xf4],
     [0x55], [0x48, 0x89, 0xe5], [0x48, 0xc7, 0xc0, 0, 0, 0, 0], [0x48, 0xc7, 0xc3, 0, 0, 0, 0],
     [0x48, 0xc7, 0xc2, 0xf8, 3, 0, 0], [0x8a, 0x04, 0x1e], [0x66, 0x83, 0xf8, 0], [0x74, 7], [0x66, 0xef],
     [0x48, 0xff, 0xc3], [0xeb, 0xf0], [0x5d], [0xc3]] ! i"

lemma boot_encoding_ok: "enc_ok boot_encoding"
proof -
  have "\<forall>i \<in> {0..<16}. boot_encoding i \<noteq> [] \<and> length (boot_encoding i) \<le> 15"
    by (simp add: boot_encoding_def atLeastLessThan_nat_numeral atLeast0_lessThan_Suc eval_nat_numeral)
  then show ?thesis by (simp add: enc_ok_def length_boot_text)
qed

section \<open>Properties\<close>

text \<open>C4. The boot code on the machine that \<open>mini_kvm run\<close> sets up, instruction by instruction: with one CPU,
  and the boot image as the kernel, the instructions make exactly the exits that print the message and,
  where KVM reports it, the halt; the CPU thread then has printed exactly the message, and the machine is
  shut down, or still running when the halt is not reported. This holds while the end of memory is not
  above 2 MB. Above, the stack the program sets up at the end of memory is outside the two megabytes it
  maps: the first \<open>call\<close> faults, nothing is printed and the machine is shut down.\<close>

theorem boot_code_prints:
  fixes hx :: bool
  assumes "run_boot env cpuid args kvm w = Inr (MINI_KVM_SUCCESS, k, w')" and "ra_vcpu args = 1"
    and "kernel_code args = Some (bios_image enc @ pad)" and "enc_ok enc"
  defines "mapped \<equiv> unat (ra_mem_size args) \<le> 0x200001" and "v \<equiv> vec_list (vcpus k) ! 0"
  defines "es \<equiv> (if mapped then print_loop boot_msg @ (if hx then [KVM_EXIT_HLT] else []) else [KVM_EXIT_SHUTDOWN])"
  shows "guest_run hx enc (sr_cr3 (vcpu_sregs v)) 85 (vcpu_regs v, guest k) = Some es
    \<and> (\<exists>n s. guest_steps n (es, started 1) = Some ([], s)
        \<and> m_console s = (if mapped then string_bytes (''Hello world'' @ nl) else [])
        \<and> (if mapped \<and> \<not> hx then m_state s = MINI_KVM_RUNNING \<and> m_cpus s = [T_Loop]
           else m_state s = MINI_KVM_SHUTDOWN \<and> m_cpus s = [T_Done]))"
proof
  obtain news m where p: "length news = 1" "\<forall>i < length news. booted_vcpu (ra_mem_size args) i (news ! i)"
    "vec_list (vcpus k) = news[0 := (news ! 0)\<lparr>vcpu_sregs := long_mode_sregs (vcpu_sregs (news ! 0))\<rparr>]"
    "guest k = guest_write 0x4000 (bios_image enc @ pad) (boot_tables m)" "0x5000 \<le> sint (ra_mem_size args)"
    using assms(2,3) by (auto intro: run_boot_phases [OF assms(1)])
  have big: "0x5000 \<le> unat (ra_mem_size args)" using p(5) sint_le_unat [of "ra_mem_size args"] by linarith
  then have sp: "rsp (vcpu_regs v) = ra_mem_size args - 1" "unat (ra_mem_size args - 1) = unat (ra_mem_size args) - 1"
    using p(1-3) by (simp_all add: v_def booted_vcpu_def unat_sub word_le_nat_alt)
  have rip: "rip (vcpu_regs v) = instr_addr enc 0"
    using p(1-3) by (simp add: v_def booted_vcpu_def instr_addr_def text_before_def)
  have cr3: "sr_cr3 (vcpu_sregs v) = PLM4_ADDR" using p(1,3) by (simp add: v_def long_mode_sregs_def)
  have mem: "boot_mem enc (guest k)" unfolding p(4) by (rule boot_mem_loaded)
  have "length (bios_image enc) \<le> 260" using image_length [OF assms(4)] data_offset_bounds(2) [OF assms(4)] by simp
  then show "guest_run hx enc (sr_cr3 (vcpu_sregs v)) 85 (vcpu_regs v, guest k) = Some es"
    using boot_runs [OF assms(4) mem rip, of hx] boot_faults [OF assms(4) mem rip, of hx] sp big
    by (cases mapped) (simp_all add: cr3 es_def mapped_def del: guest_run.simps)
  have out: "takeWhile (\<lambda>b. b \<noteq> 0) boot_msg = string_bytes (''Hello world'' @ nl)" by (simp add: boot_msg_def string_bytes_def)
  note runs = print_loop_goes_on [of _ boot_msg]
  show "\<exists>n s. guest_steps n (es, started 1) = Some ([], s)
        \<and> m_console s = (if mapped then string_bytes (''Hello world'' @ nl) else [])
        \<and> (if mapped \<and> \<not> hx then m_state s = MINI_KVM_RUNNING \<and> m_cpus s = [T_Loop]
           else m_state s = MINI_KVM_SHUTDOWN \<and> m_cpus s = [T_Done])"
  proof (cases "mapped"; cases hx)
    assume "mapped" "hx"
    with guest_prints [of "print_loop boot_msg" KVM_EXIT_HLT "[]", OF runs] show ?thesis
      by (intro exI [of _ "4 * length (print_loop boot_msg) + 6"]) (simp add: es_def print_loop_output out del: guest_steps.simps)
  next
    assume "mapped" "\<not> hx"
    with guest_goes_on [of "print_loop boot_msg", OF runs] show ?thesis
      by (intro exI [of _ "1 + 4 * length (print_loop boot_msg)"]) (simp add: es_def print_loop_output out started_def del: guest_steps.simps)
  qed (use guest_prints [of "[]" KVM_EXIT_SHUTDOWN "[]"] in
      \<open>simp_all add: es_def exI [of _ "6"] del: guest_steps.simps\<close>)
qed

theorem boot_code_prints_witness:
  "(\<exists>k w' n s. run_boot linux_ok intel_cpuid (boot_args\<lparr>kernel_code := Some (bios_image boot_encoding)\<rparr>) zero_kvm fresh_world
        = Inr (MINI_KVM_SUCCESS, k, w')
      \<and> guest_run True boot_encoding (sr_cr3 (vcpu_sregs (vec_list (vcpus k) ! 0))) 85 (vcpu_regs (vec_list (vcpus k) ! 0), guest k)
        = Some (boot_exits boot_msg)
      \<and> guest_steps n (boot_exits boot_msg, started 1) = Some ([], s) \<and> m_console s = string_bytes (''Hello world'' @ nl))
   \<and> (\<exists>k w'. run_boot linux_ok intel_cpuid (boot_args\<lparr>ra_mem_size := 0x201000, kernel_code := Some (bios_image boot_encoding)\<rparr>)
        zero_kvm fresh_world = Inr (MINI_KVM_SUCCESS, k, w')
      \<and> guest_run True boot_encoding (sr_cr3 (vcpu_sregs (vec_list (vcpus k) ! 0))) 85 (vcpu_regs (vec_list (vcpus k) ! 0), guest k)
        = Some [KVM_EXIT_SHUTDOWN])"
proof
  let ?a = "boot_args\<lparr>kernel_code := Some (bios_image boot_encoding)\<rparr>" and ?b = "boot_args\<lparr>ra_mem_size := 0x201000,
    kernel_code := Some (bios_image boot_encoding)\<rparr>"
  have l: "length (bios_image boot_encoding) \<le> 260" "bios_image boot_encoding \<noteq> []"
    using image_length [OF boot_encoding_ok] data_offset_bounds(2) [OF boot_encoding_ok] by auto
  obtain k w' where r: "run_boot linux_ok intel_cpuid ?a zero_kvm fresh_world = Inr (MINI_KVM_SUCCESS, k, w')"
    using run_boot_succeeds [OF boots_linux_ok, of ?a "bios_image boot_encoding" fresh_world] l by (auto simp: boot_args_def)
  have a: "ra_vcpu ?a = 1" "kernel_code ?a = Some (bios_image boot_encoding @ [])" "ra_mem_size ?a = 0x5000" by (simp_all add: boot_args_def)
  from boot_code_prints [OF r a(1,2) boot_encoding_ok, of True] r
  show "\<exists>k w' n s. run_boot linux_ok intel_cpuid ?a zero_kvm fresh_world = Inr (MINI_KVM_SUCCESS, k, w')
      \<and> guest_run True boot_encoding (sr_cr3 (vcpu_sregs (vec_list (vcpus k) ! 0))) 85 (vcpu_regs (vec_list (vcpus k) ! 0), guest k)
        = Some (boot_exits boot_msg)
      \<and> guest_steps n (boot_exits boot_msg, started 1) = Some ([], s) \<and> m_console s = string_bytes (''Hello world'' @ nl)"
    by (auto simp: boot_exits_def a(3) simp del: guest_run.simps guest_steps.simps)
  obtain k w' where r: "run_boot linux_ok intel_cpuid ?b zero_kvm fresh_world = Inr (MINI_KVM_SUCCESS, k, w')"
    using run_boot_succeeds [OF boots_linux_ok, of ?b "bios_image boot_encoding" fresh_world] l by (auto simp: boot_args_def)
  have b: "ra_vcpu ?b = 1" "kernel_code ?b = Some (bios_image boot_encoding @ [])" "ra_mem_size ?b = 0x201000" by (simp_all add: boot_args_def)
  from boot_code_prints [OF r b(1,2) boot_encoding_ok, of True] r
  show "\<exists>k w'. run_boot linux_ok intel_cpuid ?b zero_kvm fresh_world = Inr (MINI_KVM_SUCCESS, k, w')
      \<and> guest_run True boot_encoding (sr_cr3 (vcpu_sregs (vec_list (vcpus k) ! 0))) 85 (vcpu_regs (vec_list (vcpus k) ! 0), guest k)
        = Some [KVM_EXIT_SHUTDOWN]"
    by (auto simp: b(3) simp del: guest_run.simps)
qed

end
