(* ===== verification/Vcpu_Signals.thy ===== *)
theory Vcpu_Signals imports Vcpu_Threads begin

text \<open>
  The signals by which the main thread takes the CPUs out of the guest (\<open>mini_kvm_send_sig\<close>, and the
  handlers \<open>kvm_vcpu_thread_run\<close> installs, \<open>src/kvm/kvm.c\<close>), as a layer above the transition system of
  \<open>Vcpu_Threads\<close>: a CPU thread enters \<open>KVM_RUN\<close> in one step and leaves it in another, a handler of the
  main thread sends its signal to one thread after the other, and a signal interrupts \<open>KVM_RUN\<close> only in a
  thread that is inside it. The guest may stay inside forever.
\<close>

section \<open>State\<close>

record sig_machine =
  sg_machine :: machine
  sg_handlers :: bool          \<comment> \<open>the three handlers are installed, for the whole process\<close>
  sg_inside :: "bool list"     \<comment> \<open>which threads are inside \<open>KVM_RUN\<close>\<close>
  sg_kicked :: "bool list"     \<comment> \<open>which of them have been interrupted\<close>
  sg_send :: "nat option"      \<comment> \<open>the thread the main thread signals next\<close>
  sg_dead :: bool              \<comment> \<open>the process has been killed\<close>

abbreviation sg_cpus :: "sig_machine \<Rightarrow> vcpu_pc list" where
  "sg_cpus s \<equiv> m_cpus (sg_machine s)"

section \<open>Steps\<close>

datatype sig_action =
    S_Main main_op            \<comment> \<open>a step of the main thread\<close>
  | S_Send                    \<comment> \<open>its next \<open>pthread_kill\<close>, or the end of the loop over the CPUs\<close>
  | S_Cpu nat                 \<comment> \<open>a step of a CPU thread outside the guest, entering it included\<close>
  | S_Exit nat vm_exit        \<comment> \<open>the guest leaves \<open>KVM_RUN\<close> by itself\<close>
  | S_Kick nat                \<comment> \<open>the interrupted \<open>KVM_RUN\<close> returns\<close>

text \<open>The commands that signal the CPUs after they have set the state.\<close>

definition sends :: "main_op \<Rightarrow> bool" where
  "sends m \<longleftrightarrow> m \<in> {Do_Pause, Do_Resume, Do_Shutdown, Do_Signal}"

text \<open>\<open>pthread_kill\<close>: without a handler the signal's default action ends the process.\<close>

definition deliver_sig :: "nat \<Rightarrow> sig_machine \<Rightarrow> sig_machine" where
  "deliver_sig i s =
     (if \<not> sg_handlers s then s\<lparr>sg_dead := True\<rparr>
      else if sg_inside s ! i then s\<lparr>sg_kicked := (sg_kicked s)[i := True]\<rparr>
      else s)"

text \<open>The thread returns from \<open>KVM_RUN\<close> with an exit reason.\<close>

definition leave :: "nat \<Rightarrow> vm_exit \<Rightarrow> sig_machine \<Rightarrow> sig_machine option" where
  "leave i e s = map_option (\<lambda>t. s\<lparr>sg_machine := t, sg_inside := (sg_inside s)[i := False],
     sg_kicked := (sg_kicked s)[i := False]\<rparr>) (thread_next i e (sg_machine s))"

definition sig_next :: "sig_action \<Rightarrow> sig_machine \<Rightarrow> sig_machine option" where
  "sig_next a s =
     (if sg_dead s then None
      else case a of
        S_Main m \<Rightarrow> (if sg_send s \<noteq> None then None
          else map_option (\<lambda>t. s\<lparr>sg_machine := t, sg_send := (if sends m then Some 0 else None)\<rparr>) (main_next m (sg_machine s)))
      | S_Send \<Rightarrow> (case sg_send s of None \<Rightarrow> None
          | Some i \<Rightarrow> if i < length (sg_cpus s) then Some ((deliver_sig i s)\<lparr>sg_send := Some (Suc i)\<rparr>)
              else Some (s\<lparr>sg_send := None\<rparr>))
      | S_Cpu i \<Rightarrow> (if \<not> i < length (sg_cpus s) \<or> sg_inside s ! i then None
          else if sg_cpus s ! i = T_Run then Some (s\<lparr>sg_inside := (sg_inside s)[i := True]\<rparr>)
          else map_option (\<lambda>t. s\<lparr>sg_machine := t, sg_handlers := (sg_handlers s \<or> sg_cpus s ! i = T_Start)\<rparr>)
            (thread_next i KVM_EXIT_INTR (sg_machine s)))
      | S_Exit i e \<Rightarrow> (if i < length (sg_cpus s) \<and> sg_inside s ! i then leave i e s else None)
      | S_Kick i \<Rightarrow> (if i < length (sg_cpus s) \<and> sg_inside s ! i \<and> sg_kicked s ! i then leave i KVM_EXIT_INTR s else None))"

fun sig_run :: "sig_action list \<Rightarrow> sig_machine \<Rightarrow> sig_machine option" where
  "sig_run [] s = Some s"
| "sig_run (a # as) s = (case sig_next a s of None \<Rightarrow> None | Some s' \<Rightarrow> sig_run as s')"

text \<open>A started machine of \<open>n\<close> CPUs whose threads have not run yet.\<close>

definition sig_started :: "nat \<Rightarrow> sig_machine" where
  "sig_started n = \<lparr>sg_machine = started n, sg_handlers = False, sg_inside = replicate n False,
     sg_kicked = replicate n False, sg_send = None, sg_dead = False\<rparr>"

section \<open>Lemmas\<close>

definition sig_ok :: "sig_machine \<Rightarrow> bool" where
  "sig_ok s \<longleftrightarrow> length (sg_inside s) = length (sg_cpus s) \<and> length (sg_kicked s) = length (sg_cpus s)
     \<and> (\<forall>i < length (sg_cpus s). sg_inside s ! i \<longrightarrow> sg_cpus s ! i = T_Run)
     \<and> (\<forall>i < length (sg_cpus s). sg_kicked s ! i \<longrightarrow> sg_inside s ! i)
     \<and> (\<forall>i < length (sg_cpus s). sg_cpus s ! i \<noteq> T_Start \<longrightarrow> sg_handlers s)"

lemma deliver_sig_frame [simp]: "sg_machine (deliver_sig i s) = sg_machine s" "sg_inside (deliver_sig i s) = sg_inside s"
    "sg_handlers (deliver_sig i s) = sg_handlers s" "sg_send (deliver_sig i s) = sg_send s"
  by (simp_all add: deliver_sig_def)

text \<open>A step of the layer is a step of the threads or leaves them where they are.\<close>

lemma sig_next_base:
  assumes "sig_next a s = Some s'"
  shows "sg_machine s' = sg_machine s \<or> (\<exists>m. main_next m (sg_machine s) = Some (sg_machine s'))
    \<or> (\<exists>i e. thread_next i e (sg_machine s) = Some (sg_machine s'))"
  using assms by (cases a) (auto simp: sig_next_def leave_def split: if_splits option.splits)

lemma sig_run_steps: "sig_run as s = Some s' \<Longrightarrow> steps (sg_machine s) (sg_machine s')"
proof (induction "as" arbitrary: s)
  case Nil
  then show ?case by (simp add: steps.refl)
next
  case (Cons a "as")
  then obtain s1 where s1: "sig_next a s = Some s1" "sig_run as s1 = Some s'" by (auto split: option.splits)
  have "steps (sg_machine s) (sg_machine s1)"
    using sig_next_base [OF s1(1)] steps.refl [of "sg_machine s"] by (auto intro: steps.main steps.cpu)
  with Cons.IH [OF s1(2)] show ?case by (rule steps_trans)
qed

lemma sig_run_append: "sig_run (as @ bs) s = (case sig_run as s of None \<Rightarrow> None | Some s' \<Rightarrow> sig_run bs s')"
  by (induction "as" arbitrary: s) (auto split: option.splits)

text \<open>What a step changes of the CPU threads and of the interrupts.\<close>

lemma main_next_cpus:
  assumes "main_next m s = Some s'"
  shows "m_cpus s' = m_cpus s \<or> (\<exists>i < length (m_cpus s). m_cpus s ! i = T_Wait \<and> m_cpus s' = (m_cpus s)[i := T_Relock])"
  using assms by (auto simp: main_next_def set_pc_def split: main_op.splits main_pc.splits if_splits)

lemma steps_length: "steps s s' \<Longrightarrow> length (m_cpus s') = length (m_cpus s)"
  by (erule steps_invariant [where P = "\<lambda>t. length (m_cpus t) = length (m_cpus s)"])
    (use main_next_cpus thread_next_frame(3) in \<open>fastforce+\<close>)

lemma thread_next_cpus:
  "thread_next i e s = Some s' \<Longrightarrow> i < length (m_cpus s) \<and> m_cpus s' = (m_cpus s)[i := pc_after s e (m_cpus s ! i)]"
  by (erule thread_next_cases) simp

lemma leave_cases:
  assumes "leave i e s = Some s'" and "sg_cpus s ! i = T_Run"
  shows "i < length (sg_cpus s)" and "sg_cpus s' = (sg_cpus s)[i := T_Exit e]" and "sg_inside s' = (sg_inside s)[i := False]"
    and "sg_kicked s' = (sg_kicked s)[i := False]" and "sg_send s' = sg_send s" and "sg_handlers s' = sg_handlers s"
    and "sg_dead s' = sg_dead s"
  using assms by (auto simp: leave_def dest!: thread_next_cpus)

lemma pc_after_start: "pc_after s e pc \<noteq> T_Start"
  by (cases pc) simp_all

lemma sig_ok_leave:
  assumes "leave i e s = Some s'" and "sig_ok s" and "i < length (sg_cpus s)" and "sg_inside s ! i"
  shows "sig_ok s'"
proof -
  have "sg_cpus s ! i = T_Run" using assms by (simp add: sig_ok_def)
  note l = leave_cases [OF assms(1) this]
  show ?thesis using assms(2,4) \<open>sg_cpus s ! i = T_Run\<close> l(1) by (auto simp: sig_ok_def l(2-6) nth_list_update)
qed

lemma sig_ok_next:
  assumes "sig_next a s = Some s'" and "sig_ok s"
  shows "sig_ok s'"
proof (cases a)
  case (S_Main m)
  then obtain t where t: "main_next m (sg_machine s) = Some t" "sg_machine s' = t" "sg_inside s' = sg_inside s" "sg_kicked s' = sg_kicked s"
    "sg_handlers s' = sg_handlers s"
    using assms(1) by (auto simp: sig_next_def split: if_splits)
  show ?thesis using main_next_cpus [OF t(1)]
  proof
    assume "m_cpus t = sg_cpus s"
    with t assms(2) show ?thesis by (simp add: sig_ok_def)
  next
    assume "\<exists>i < length (sg_cpus s). sg_cpus s ! i = T_Wait \<and> m_cpus t = (sg_cpus s)[i := T_Relock]"
    then obtain i where "i < length (sg_cpus s)" "sg_cpus s ! i = T_Wait" "m_cpus t = (sg_cpus s)[i := T_Relock]" by blast
    with t assms(2) show ?thesis by (auto simp: sig_ok_def nth_list_update)
  qed
next
  case S_Send
  with assms show ?thesis by (auto simp: sig_next_def sig_ok_def deliver_sig_def nth_list_update split: if_splits option.splits)
next
  case (S_Cpu i)
  show ?thesis
  proof (cases "sg_cpus s ! i = T_Run")
    case True
    with S_Cpu assms show ?thesis by (auto simp: sig_next_def sig_ok_def nth_list_update split: if_splits)
  next
    case False
    with S_Cpu assms(1) obtain t where t: "thread_next i KVM_EXIT_INTR (sg_machine s) = Some t" "\<not> sg_inside s ! i"
      "s' = s\<lparr>sg_machine := t, sg_handlers := (sg_handlers s \<or> sg_cpus s ! i = T_Start)\<rparr>"
      by (auto simp: sig_next_def split: if_splits)
    from thread_next_cpus [OF t(1)] t(2) assms(2) show ?thesis
      by (auto simp: sig_ok_def t(3) nth_list_update)
  qed
next
  case (S_Exit i e)
  then show ?thesis using assms sig_ok_leave [of i e s s'] by (auto simp: sig_next_def split: if_splits)
next
  case (S_Kick i)
  then show ?thesis using assms sig_ok_leave [of i KVM_EXIT_INTR s s'] by (auto simp: sig_next_def split: if_splits)
qed

lemma sig_ok_run: "sig_run as s = Some s' \<Longrightarrow> sig_ok s \<Longrightarrow> sig_ok s'"
  by (induction "as" arbitrary: s) (auto split: option.splits dest: sig_ok_next)

lemma sig_ok_started: "sig_ok (sig_started n)"
  by (simp add: sig_ok_def sig_started_def started_def)

subsection \<open>A pause reaches the guests\<close>

text \<open>The CPUs that have been signalled so far.\<close>

definition signalled :: "sig_machine \<Rightarrow> nat \<Rightarrow> bool" where
  "signalled s i \<longleftrightarrow> (case sg_send s of None \<Rightarrow> True | Some j \<Rightarrow> i < j)"

text \<open>
  In a machine being paused: no thread is about to enter the guest, and those that are inside and have
  been signalled are interrupted.
\<close>

definition pausing :: "sig_machine \<Rightarrow> bool" where
  "pausing s \<longleftrightarrow> sig_ok s \<and> sg_handlers s \<and> \<not> sg_dead s
     \<and> (\<forall>i < length (sg_cpus s). sg_cpus s ! i = T_Run \<longrightarrow> sg_inside s ! i \<and> (signalled s i \<longrightarrow> sg_kicked s ! i))"

text \<open>The steps that begin no command.\<close>

definition follows :: "sig_action \<Rightarrow> bool" where
  "follows a \<longleftrightarrow> (\<forall>m. a = S_Main m \<longrightarrow> \<not> sends m)"

lemma main_next_paused:
  "main_next m t = Some t' \<Longrightarrow> \<not> sends m \<Longrightarrow> m_state t' = MINI_KVM_PAUSED \<Longrightarrow> m_state t = MINI_KVM_PAUSED"
  by (auto simp: main_next_def sends_def set_pc_def split: main_op.splits main_pc.splits if_splits)

lemma follows_state:
  assumes "sig_next a s = Some s'" and "follows a" and "m_state (sg_machine s') = MINI_KVM_PAUSED"
  shows "m_state (sg_machine s) = MINI_KVM_PAUSED"
proof (cases a)
  case (S_Main m)
  with assms show ?thesis
    using main_next_paused [of m "sg_machine s" "sg_machine s'"] by (auto simp: sig_next_def follows_def split: if_splits)
next
  case S_Send
  with assms show ?thesis by (auto simp: sig_next_def split: if_splits option.splits)
qed (use assms(1,3) thread_next_frame(4) in \<open>fastforce simp: sig_next_def leave_def split: if_splits\<close>)+

lemma pausing_ok: "pausing s \<Longrightarrow> sig_ok s"
  by (simp add: pausing_def)

lemma pausing_inside:
  "pausing s \<Longrightarrow> i < length (sg_cpus s) \<Longrightarrow> sg_cpus s ! i = T_Run \<Longrightarrow> sg_inside s ! i \<and> (signalled s i \<longrightarrow> sg_kicked s ! i)"
  by (simp add: pausing_def)

lemma pausing_leave:
  assumes "leave i e s = Some s'" and "pausing s" and "i < length (sg_cpus s)" and "sg_inside s ! i"
  shows "pausing s'"
proof -
  have "sg_cpus s ! i = T_Run" using pausing_ok [OF assms(2)] assms(3,4) by (simp add: sig_ok_def)
  note l = leave_cases [OF assms(1) this]
  have "sig_ok s'" using sig_ok_leave [OF assms(1) _ assms(3,4)] assms(2) by (simp add: pausing_def)
  moreover have "signalled s' j = signalled s j" for j by (simp add: signalled_def l(5))
  moreover have "sg_inside s' ! j \<and> (signalled s j \<longrightarrow> sg_kicked s' ! j)" if "j < length (sg_cpus s')" "sg_cpus s' ! j = T_Run" for j
    using that assms(2) by (cases "j = i") (simp_all add: l(2-4) pausing_def)
  moreover have "sg_handlers s'" "\<not> sg_dead s'" using assms(2) by (simp_all add: l(6,7) pausing_def)
  ultimately show ?thesis by (simp add: pausing_def)
qed

lemma pausing_next:
  assumes "sig_next a s = Some s'" and "pausing s" and "follows a" and "m_state (sg_machine s) = MINI_KVM_PAUSED"
  shows "pausing s'"
proof -
  have ok: "sig_ok s'" using sig_ok_next [OF assms(1)] assms(2) by (simp add: pausing_def)
  show ?thesis
  proof (cases a)
    case (S_Main m)
    then obtain t where t: "main_next m (sg_machine s) = Some t" "s' = s\<lparr>sg_machine := t, sg_send := None\<rparr>" "sg_send s = None"
      using assms(1,3) by (auto simp: sig_next_def follows_def split: if_splits)
    show ?thesis using main_next_cpus [OF t(1)]
    proof
      assume "m_cpus t = sg_cpus s"
      with t assms(2) ok show ?thesis by (simp add: pausing_def signalled_def)
    next
      assume "\<exists>i < length (sg_cpus s). sg_cpus s ! i = T_Wait \<and> m_cpus t = (sg_cpus s)[i := T_Relock]"
      then obtain i where "i < length (sg_cpus s)" "m_cpus t = (sg_cpus s)[i := T_Relock]" by blast
      with t assms(2) ok show ?thesis by (auto simp: pausing_def signalled_def nth_list_update)
    qed
  next
    case S_Send
    then obtain j where j: "sg_send s = Some j" using assms(1) by (auto simp: sig_next_def split: if_splits option.splits)
    have h: "sg_handlers s" using assms(2) by (simp add: pausing_def)
    show ?thesis
    proof (cases "j < length (sg_cpus s)")
      case True
      then have s': "s' = (deliver_sig j s)\<lparr>sg_send := Some (Suc j)\<rparr>" using S_Send j assms(1) by (auto simp: sig_next_def split: if_splits)
      have "sg_kicked s' ! i" if "i < length (sg_cpus s)" "sg_cpus s ! i = T_Run" "i < Suc j" for i
      proof -
        have "sg_inside s ! i" "i < j \<longrightarrow> sg_kicked s ! i" "length (sg_kicked s) = length (sg_cpus s)"
          using pausing_inside [OF assms(2) that(1,2)] pausing_ok [OF assms(2)] j by (auto simp: signalled_def sig_ok_def)
        with that h show ?thesis by (cases "i = j") (auto simp: s' deliver_sig_def nth_list_update)
      qed
      moreover have "\<not> sg_dead s'" using assms(2) h by (simp add: s' deliver_sig_def pausing_def)
      ultimately show ?thesis using assms(2) ok h by (simp add: pausing_def s' signalled_def)
    next
      case False
      then have "s' = s\<lparr>sg_send := None\<rparr>" using S_Send j assms(1) by (auto simp: sig_next_def split: if_splits)
      with assms(2) ok j False show ?thesis by (auto simp: pausing_def signalled_def)
    qed
  next
    case (S_Cpu i)
    have i: "i < length (sg_cpus s)" "\<not> sg_inside s ! i" using S_Cpu assms(1) by (auto simp: sig_next_def split: if_splits)
    with assms(2) have nr: "sg_cpus s ! i \<noteq> T_Run" by (auto simp: pausing_def)
    then obtain t where t: "thread_next i KVM_EXIT_INTR (sg_machine s) = Some t"
      "s' = s\<lparr>sg_machine := t, sg_handlers := (sg_handlers s \<or> sg_cpus s ! i = T_Start)\<rparr>"
      using S_Cpu i assms(1) by (auto simp: sig_next_def split: if_splits)
    have "pc_after (sg_machine s) KVM_EXIT_INTR (sg_cpus s ! i) \<noteq> T_Run"
      using assms(4) nr by (cases "sg_cpus s ! i") auto
    with thread_next_cpus [OF t(1)] assms(2) ok show ?thesis
      by (auto simp: pausing_def signalled_def t(2) nth_list_update)
  next
    case (S_Exit i e)
    then show ?thesis using assms(1,2) pausing_leave [of i e s s'] by (auto simp: sig_next_def split: if_splits)
  next
    case (S_Kick i)
    then show ?thesis using assms(1,2) pausing_leave [of i KVM_EXIT_INTR s s'] by (auto simp: sig_next_def split: if_splits)
  qed
qed

lemma follows_run_state:
  "sig_run as s = Some s' \<Longrightarrow> \<forall>a \<in> set as. follows a \<Longrightarrow> m_state (sg_machine s') = MINI_KVM_PAUSED
    \<Longrightarrow> m_state (sg_machine s) = MINI_KVM_PAUSED"
  by (induction "as" arbitrary: s) (auto split: option.splits dest: follows_state)

lemma pausing_run:
  "sig_run as s = Some s' \<Longrightarrow> pausing s \<Longrightarrow> \<forall>a \<in> set as. follows a \<Longrightarrow> m_state (sg_machine s') = MINI_KVM_PAUSED
    \<Longrightarrow> pausing s'"
proof (induction "as" arbitrary: s)
  case (Cons a "as")
  then obtain s1 where s1: "sig_next a s = Some s1" "sig_run as s1 = Some s'" by (auto split: option.splits)
  have f: "follows a" "\<forall>a \<in> set as. follows a" using Cons.prems(3) by simp_all
  have p1: "m_state (sg_machine s1) = MINI_KVM_PAUSED" using follows_run_state [OF s1(2) f(2) Cons.prems(4)] .
  then have p: "m_state (sg_machine s) = MINI_KVM_PAUSED" by (rule follows_state [OF s1(1) f(1)])
  have "pausing s1" using pausing_next [OF s1(1) Cons.prems(2) f(1) p] .
  from Cons.IH [OF s1(2) this f(2) Cons.prems(4)] show ?case .
qed simp

subsection \<open>A CPU that nobody interrupts\<close>

definition unnoticed :: "nat \<Rightarrow> sig_machine \<Rightarrow> bool" where
  "unnoticed i s \<longleftrightarrow> sig_ok s \<and> i < length (sg_cpus s) \<and> sg_inside s ! i \<and> \<not> sg_kicked s ! i \<and> sg_send s = None"

lemma leave_other:
  "leave j e s = Some s' \<Longrightarrow> j \<noteq> i \<Longrightarrow> sg_inside s' ! i = sg_inside s ! i \<and> sg_kicked s' ! i = sg_kicked s ! i
    \<and> sg_send s' = sg_send s \<and> length (sg_cpus s') = length (sg_cpus s)"
  by (auto simp: leave_def dest: thread_next_frame(3))

lemma unnoticed_next:
  assumes "sig_next a s = Some s'" and "unnoticed i s" and "follows a" and "\<And>e. a \<noteq> S_Exit i e"
  shows "unnoticed i s'"
proof -
  have ok: "sig_ok s'" using sig_ok_next [OF assms(1)] assms(2) by (simp add: unnoticed_def)
  have l: "length (m_cpus t) = length (sg_cpus s)" if "main_next m (sg_machine s) = Some t" for m t
    using main_next_cpus [OF that] by auto
  show ?thesis
  proof (cases a)
    case (S_Main m)
    with assms(1-3) ok l show ?thesis by (auto simp: sig_next_def unnoticed_def follows_def split: if_splits)
  next
    case S_Send
    with assms(1,2) show ?thesis by (simp add: sig_next_def unnoticed_def split: if_splits)
  next
    case (S_Cpu j)
    with assms(1,2) ok show ?thesis
      by (cases "j = i") (auto simp: sig_next_def unnoticed_def split: if_splits dest: thread_next_frame(3))
  next
    case (S_Exit j e)
    then have "j \<noteq> i" "leave j e s = Some s'" using assms(1,4) by (auto simp: sig_next_def split: if_splits)
    with leave_other [OF this(2,1)] assms(2) ok show ?thesis by (simp add: unnoticed_def)
  next
    case (S_Kick j)
    then have "j \<noteq> i" "leave j KVM_EXIT_INTR s = Some s'" using assms(1,2) by (auto simp: sig_next_def unnoticed_def split: if_splits)
    with leave_other [OF this(2,1)] assms(2) ok show ?thesis by (simp add: unnoticed_def)
  qed
qed

lemma unnoticed_run:
  "sig_run as s = Some s' \<Longrightarrow> unnoticed i s \<Longrightarrow> \<forall>a \<in> set as. follows a \<and> (\<forall>e. a \<noteq> S_Exit i e) \<Longrightarrow> unnoticed i s'"
proof (induction "as" arbitrary: s)
  case (Cons a "as")
  then obtain s1 where s1: "sig_next a s = Some s1" "sig_run as s1 = Some s'" by (auto split: option.splits)
  have "unnoticed i s1" by (rule unnoticed_next [OF s1(1) Cons.prems(2)]) (use Cons.prems(3) in auto)
  with Cons s1 show ?case by simp
qed simp

section \<open>Properties\<close>

text \<open>Every run of the layer is a run of the threads of \<open>Vcpu_Threads\<close>, so that what holds of those in every
  reachable state holds here; and in every state reached a thread inside the guest is at \<open>KVM_RUN\<close>, only such
  threads are interrupted, and once a thread has started the handlers are installed.\<close>

theorem signals_refine_threads:
  assumes "sig_run as (sig_started n) = Some s"
  shows "steps (started n) (sg_machine s) \<and> sig_ok s"
  using sig_run_steps [OF assms] sig_ok_run [OF assms sig_ok_started] by (simp add: sig_started_def)

text \<open>C15. A pause takes the CPUs out of the guest: on a machine with any number of CPUs, in any state the threads
  can reach in which the process is alive, the handlers are installed, the main thread is between two commands
  and no CPU thread stands between its test of the state and \<open>KVM_RUN\<close>, let a pause begin and the threads
  interleave in any way. If the machine is still paused when all signals have been sent (no guest has shut it
  down meanwhile, and no other command has begun), the process is alive, and each thread that is at \<open>KVM_RUN\<close>
  is one whose \<open>KVM_RUN\<close> has been interrupted and can return at once.\<close>

theorem pause_reaches_guests:
  assumes "sig_run bs (sig_started n) = Some s" and "sg_handlers s" and "\<not> sg_dead s"
    and "\<forall>i < n. sg_cpus s ! i = T_Run \<longrightarrow> sg_inside s ! i"
    and "sig_next (S_Main Do_Pause) s = Some s1" and "sig_run as s1 = Some s'" and "\<forall>a \<in> set as. follows a"
    and "m_state (sg_machine s') = MINI_KVM_PAUSED" and "sg_send s' = None"
  shows "\<not> sg_dead s' \<and> (\<forall>i < n. sg_cpus s' ! i = T_Run \<longrightarrow>
    (\<exists>s''. sig_next (S_Kick i) s' = Some s'' \<and> sg_cpus s'' ! i = T_Exit KVM_EXIT_INTR))"
proof -
  have n: "length (sg_cpus s) = n" if "sig_run as (sig_started n) = Some s" for as s
    using sig_run_steps [OF that] that steps_length by (simp add: sig_started_def started_def)
  have "sig_run (bs @ S_Main Do_Pause # as) (sig_started n) = Some s'"
    using assms(1,5,6) by (simp add: sig_run_append)
  note len = n [OF assms(1)] n [OF this]
  obtain t where t: "main_next Do_Pause (sg_machine s) = Some t" "s1 = s\<lparr>sg_machine := t, sg_send := Some 0\<rparr>"
    using assms(5) by (auto simp: sig_next_def sends_def split: if_splits)
  have "m_cpus t = sg_cpus s" using t(1) by (auto simp: main_next_def split: main_pc.splits)
  moreover have "sig_ok s1" using sig_ok_next [OF assms(5)] sig_ok_run [OF assms(1) sig_ok_started] by blast
  ultimately have "pausing s1" using assms(2-4) len(1) by (simp add: pausing_def t(2) signalled_def)
  then have p: "pausing s'" using pausing_run assms(6-8) by blast
  have "\<exists>s''. sig_next (S_Kick i) s' = Some s'' \<and> sg_cpus s'' ! i = T_Exit KVM_EXIT_INTR" if "i < n" "sg_cpus s' ! i = T_Run" for i
  proof -
    have k: "sg_inside s' ! i" "sg_kicked s' ! i" using pausing_inside [OF p _ that(2)] that(1) len(2) assms(9) by (simp_all add: signalled_def)
    then show ?thesis using p that len(2) by (simp add: sig_next_def leave_def thread_next_def pausing_def)
  qed
  with p show ?thesis by (simp add: pausing_def)
qed

theorem pause_reaches_guests_witness:
  "\<exists>s s' s''. sig_run (replicate 4 (S_Cpu 0)) (sig_started 1) = Some s \<and> sg_inside s ! 0
     \<and> sig_run [S_Main Do_Pause, S_Send, S_Send, S_Main Go, S_Main Go] s = Some s' \<and> m_paused (sg_machine s')
     \<and> sig_next (S_Kick 0) s' = Some s'' \<and> sg_cpus s'' ! 0 = T_Exit KVM_EXIT_INTR"
proof -
  let ?m = "\<lparr>m_state = MINI_KVM_RUNNING, m_paused = False, m_lock = False, m_main = M_Idle, m_cpus = [T_Run], m_console = []\<rparr>"
  let ?s = "\<lparr>sg_machine = ?m, sg_handlers = True, sg_inside = [True], sg_kicked = [False], sg_send = None, sg_dead = False\<rparr>"
  let ?s1 = "?s\<lparr>sg_machine := ?m\<lparr>m_state := MINI_KVM_PAUSED, m_main := M_Pause_Lock\<rparr>, sg_send := Some 0\<rparr>"
  let ?s2 = "?s\<lparr>sg_machine := ?m\<lparr>m_state := MINI_KVM_PAUSED, m_lock := True, m_paused := True\<rparr>, sg_kicked := [True]\<rparr>"
  note defs = sig_next_def thread_next_def main_next_def set_pc_def sends_def deliver_sig_def
  have r: "sig_run (replicate 4 (S_Cpu 0)) (sig_started 1) = Some ?s" by (simp add: eval_nat_numeral defs sig_started_def started_def)
  have n: "sig_next (S_Main Do_Pause) ?s = Some ?s1" by (simp add: defs)
  have a: "sig_run [S_Send, S_Send, S_Main Go, S_Main Go] ?s1 = Some ?s2" by (simp add: defs)
  have h: "sg_handlers ?s" "\<not> sg_dead ?s" "\<forall>i < 1. sg_cpus ?s ! i = T_Run \<longrightarrow> sg_inside ?s ! i"
    "\<forall>a \<in> set [S_Send, S_Send, S_Main Go, S_Main Go]. follows a" "m_state (sg_machine ?s2) = MINI_KVM_PAUSED" "sg_send ?s2 = None"
    by (simp_all add: follows_def sends_def)
  obtain s'' where "sig_next (S_Kick 0) ?s2 = Some s''" "sg_cpus s'' ! 0 = T_Exit KVM_EXIT_INTR"
    using pause_reaches_guests [OF r h(1-3) n a h(4-6)] by auto
  moreover have "sig_run [S_Main Do_Pause, S_Send, S_Send, S_Main Go, S_Main Go] ?s = Some ?s2" using n a by simp
  moreover have "sg_inside ?s ! 0" "m_paused (sg_machine ?s2)" by simp_all
  ultimately show ?thesis using r by blast
qed

text \<open>C34. A pause can miss a running CPU: the thread tests the state and enters \<open>KVM_RUN\<close> in two steps, and a
  signal that arrives in between only runs its handler. There is an interleaving of one pause with one CPU
  after which the pause is complete, the machine says it is paused, and the CPU is inside the guest with nothing
  to take it out: until the next command it stays there for as long as the guest makes no exit by itself.\<close>

theorem pause_signal_lost:
  "\<exists>as s. sig_run as (sig_started 1) = Some s \<and> m_state (sg_machine s) = MINI_KVM_PAUSED \<and> m_paused (sg_machine s)
     \<and> m_main (sg_machine s) = M_Idle \<and> sg_send s = None
     \<and> (\<forall>bs s'. sig_run bs s = Some s' \<and> (\<forall>a \<in> set bs. follows a \<and> (\<forall>e. a \<noteq> S_Exit 0 e)) \<longrightarrow>
          sg_inside s' ! 0 \<and> sg_cpus s' ! 0 = T_Run)"
proof -
  let ?as = "[S_Cpu 0, S_Cpu 0, S_Cpu 0, S_Main Do_Pause, S_Send, S_Send, S_Main Go, S_Main Go, S_Cpu 0]"
  let ?m = "\<lparr>m_state = MINI_KVM_PAUSED, m_paused = True, m_lock = True, m_main = M_Idle, m_cpus = [T_Run], m_console = []\<rparr>"
  let ?s = "\<lparr>sg_machine = ?m, sg_handlers = True, sg_inside = [True], sg_kicked = [False], sg_send = None, sg_dead = False\<rparr>"
  have r: "sig_run ?as (sig_started 1) = Some ?s"
    by (simp add: sig_next_def thread_next_def main_next_def set_pc_def sends_def deliver_sig_def sig_started_def started_def)
  have "unnoticed 0 ?s" by (simp add: unnoticed_def sig_ok_def)
  then have stays: "sg_inside s' ! 0 \<and> sg_cpus s' ! 0 = T_Run"
    if "sig_run bs ?s = Some s'" "\<forall>a \<in> set bs. follows a \<and> (\<forall>e. a \<noteq> S_Exit 0 e)" for bs s'
    using unnoticed_run [OF that(1) _ that(2)] by (simp add: unnoticed_def sig_ok_def)
  show ?thesis by (intro exI [of _ ?as] exI [of _ ?s]) (use r stays in \<open>simp del: sig_run.simps; blast\<close>)
qed

theorem pause_signal_lost_witness:
  "\<exists>as s. sig_run as (sig_started 1) = Some s \<and> m_paused (sg_machine s) \<and> sg_inside s ! 0 \<and> sg_cpus s ! 0 = T_Run"
proof -
  obtain as s where s: "sig_run as (sig_started 1) = Some s" "m_paused (sg_machine s)"
    "\<forall>bs s'. sig_run bs s = Some s' \<and> (\<forall>a \<in> set bs. follows a \<and> (\<forall>e. a \<noteq> S_Exit 0 e)) \<longrightarrow> sg_inside s' ! 0 \<and> sg_cpus s' ! 0 = T_Run"
    using pause_signal_lost by blast
  from s(3) [rule_format, of "[]" s] s(1,2) show ?thesis by auto
qed

text \<open>C35. The halt of one CPU does not stop the others: in any state the threads can reach in which two CPUs are
  inside the guest and no signal is on its way to the second, when the guest of the first halts its thread
  sets the state to shutdown and returns, without a signal to anybody. As long as no command is begun
  and the guest of the other CPU makes no exit by itself, that CPU's thread stays inside \<open>KVM_RUN\<close> whatever the
  threads do, so that joining it in \<open>mini_kvm_clean_kvm\<close> never ends.\<close>

theorem halt_leaves_cpu_in_guest:
  assumes "sig_run bs (sig_started n) = Some s" and "\<not> sg_dead s" and "sg_send s = None"
    and "i < n" and "j < n" and "i \<noteq> j" and "sg_inside s ! i" and "sg_inside s ! j" and "\<not> sg_kicked s ! j"
  shows "\<exists>s1. sig_run [S_Exit i KVM_EXIT_HLT, S_Cpu i, S_Cpu i] s = Some s1
    \<and> m_state (sg_machine s1) = MINI_KVM_SHUTDOWN \<and> sg_cpus s1 ! i = T_Done
    \<and> (\<forall>as s2. sig_run as s1 = Some s2 \<and> (\<forall>a \<in> set as. follows a \<and> (\<forall>e. a \<noteq> S_Exit j e)) \<longrightarrow>
         sg_inside s2 ! j \<and> sg_cpus s2 ! j = T_Run)"
proof -
  have ok: "sig_ok s" using sig_ok_run [OF assms(1) sig_ok_started] .
  have len: "length (sg_cpus s) = n" "length (sg_inside s) = n"
    using sig_run_steps [OF assms(1)] steps_length ok by (simp_all add: sig_started_def started_def sig_ok_def)
  have run: "sg_cpus s ! i = T_Run" using ok assms(4,7) len by (simp add: sig_ok_def)
  let ?m = "sg_machine s"
  let ?s1 = "s\<lparr>sg_machine := ?m\<lparr>m_state := MINI_KVM_SHUTDOWN, m_cpus := (m_cpus ?m)[i := T_Done]\<rparr>,
    sg_inside := (sg_inside s)[i := False], sg_kicked := (sg_kicked s)[i := False]\<rparr>"
  have r: "sig_run [S_Exit i KVM_EXIT_HLT, S_Cpu i, S_Cpu i] s = Some ?s1"
    using assms(2,4,7) len run by (simp add: sig_next_def leave_def thread_next_def set_pc_def)
  have "unnoticed j ?s1"
    using sig_ok_run [OF r ok] assms(3,5,6,8,9) len by (simp add: unnoticed_def)
  then have "sg_inside s2 ! j \<and> sg_cpus s2 ! j = T_Run"
    if "sig_run as ?s1 = Some s2" "\<forall>a \<in> set as. follows a \<and> (\<forall>e. a \<noteq> S_Exit j e)" for as s2
    using unnoticed_run [OF that(1) _ that(2)] by (simp add: unnoticed_def sig_ok_def)
  then have stays: "\<forall>as s2. sig_run as ?s1 = Some s2 \<and> (\<forall>a \<in> set as. follows a \<and> (\<forall>e. a \<noteq> S_Exit j e)) \<longrightarrow>
      sg_inside s2 ! j \<and> sg_cpus s2 ! j = T_Run"
    by blast
  have "m_state (sg_machine ?s1) = MINI_KVM_SHUTDOWN" "sg_cpus ?s1 ! i = T_Done" using assms(4) len by simp_all
  with r stays show ?thesis by blast
qed

theorem halt_leaves_cpu_in_guest_witness:
  "\<exists>bs s s1. sig_run bs (sig_started 2) = Some s \<and> sg_inside s = [True, True]
     \<and> sig_run [S_Exit 0 KVM_EXIT_HLT, S_Cpu 0, S_Cpu 0] s = Some s1 \<and> sg_cpus s1 ! 0 = T_Done \<and> sg_inside s1 ! 1"
proof -
  let ?bs = "[S_Cpu 0, S_Cpu 0, S_Cpu 0, S_Cpu 0, S_Cpu 1, S_Cpu 1, S_Cpu 1, S_Cpu 1]"
  let ?m = "\<lparr>m_state = MINI_KVM_RUNNING, m_paused = False, m_lock = False, m_main = M_Idle, m_cpus = [T_Run, T_Run], m_console = []\<rparr>"
  let ?s = "\<lparr>sg_machine = ?m, sg_handlers = True, sg_inside = [True, True], sg_kicked = [False, False], sg_send = None, sg_dead = False\<rparr>"
  have r: "sig_run ?bs (sig_started 2) = Some ?s"
    by (simp add: sig_next_def leave_def thread_next_def set_pc_def sig_started_def started_def numeral_2_eq_2)
  have h: "\<not> sg_dead ?s" "sg_send ?s = None" "0 < (2::nat)" "1 < (2::nat)" "0 \<noteq> (1::nat)" "sg_inside ?s ! 0" "sg_inside ?s ! 1"
    "\<not> sg_kicked ?s ! 1" by simp_all
  obtain s1 where s1: "sig_run [S_Exit 0 KVM_EXIT_HLT, S_Cpu 0, S_Cpu 0] ?s = Some s1" "sg_cpus s1 ! 0 = T_Done"
    "\<forall>as s2. sig_run as s1 = Some s2 \<and> (\<forall>a \<in> set as. follows a \<and> (\<forall>e. a \<noteq> S_Exit 1 e)) \<longrightarrow> sg_inside s2 ! 1 \<and> sg_cpus s2 ! 1 = T_Run"
    using halt_leaves_cpu_in_guest [OF r h] by blast
  from s1(3) [rule_format, of "[]" s1] have "sg_inside s1 ! 1" by simp
  moreover have "sg_inside ?s = [True, True]" by simp
  ultimately show ?thesis using r s1(1,2) by blast
qed

text \<open>A signal that arrives before any CPU thread has installed the handlers ends the process.\<close>

theorem early_signal_kills:
  assumes "0 < n"
  shows "\<exists>s. sig_run [S_Main Do_Pause, S_Send] (sig_started n) = Some s \<and> sg_dead s \<and> (\<forall>a. sig_next a s = None)"
  using assms by (simp add: sig_next_def main_next_def sends_def deliver_sig_def sig_started_def started_def)

end
