(* ===== verification/Vector_Heap.thy ===== *)
theory Vector_Heap imports Containers begin

text \<open>
  The vectors of \<open>src/core/containers.c\<close> in the heap. A vector is two blocks: the structure with its
  three fields and the table it points to. \<open>Containers\<close> describes what such a vector is worth; here the
  operations work on pointers, allocate and free, and are shown to do the same, to touch no other
  block, and to give back everything when \<open>vec_free\<close> is called. Allocation succeeds and does not reuse
  addresses.
\<close>

section \<open>Blocks\<close>

datatype 'a block =
    Vec_Struct nat u64 u64     \<comment> \<open>\<open>tab\<close>, \<open>len\<close> and \<open>capacity\<close>\<close>
  | Table "'a option list"

record 'a heap =
  blocks :: "nat \<rightharpoonup> 'a block"
  brk :: nat

definition malloc :: "'a block \<Rightarrow> 'a heap \<Rightarrow> nat \<times> 'a heap" where
  "malloc b h = (brk h, h\<lparr>blocks := (blocks h)(brk h \<mapsto> b), brk := Suc (brk h)\<rparr>)"

definition free :: "nat \<Rightarrow> 'a heap \<Rightarrow> 'a heap res" where
  "free a h = (if blocks h a = None then Inl Dangling else Inr (h\<lparr>blocks := (blocks h)(a := None)\<rparr>))"

definition store :: "nat \<Rightarrow> 'a block \<Rightarrow> 'a heap \<Rightarrow> 'a heap" where
  "store a b h = h\<lparr>blocks := (blocks h)(a \<mapsto> b)\<rparr>"

definition load_vec :: "nat \<Rightarrow> 'a heap \<Rightarrow> (nat \<times> u64 \<times> u64) res" where
  "load_vec p h = (case blocks h p of Some (Vec_Struct t l c) \<Rightarrow> Inr (t, l, c) | _ \<Rightarrow> Inl Dangling)"

definition load_table :: "nat \<Rightarrow> 'a heap \<Rightarrow> 'a option list res" where
  "load_table t h = (case blocks h t of Some (Table xs) \<Rightarrow> Inr xs | _ \<Rightarrow> Inl Dangling)"

section \<open>The operations on pointers\<close>

definition heap_vec_new :: "'a heap \<Rightarrow> nat \<times> 'a heap" where
  "heap_vec_new h =
     (let (p, h1) = malloc (Vec_Struct 0 0 1) h; (t, h2) = malloc (Table (replicate 1 None)) h1
      in (p, store p (Vec_Struct t 0 1) h2))"

definition vec_free :: "nat \<Rightarrow> 'a heap \<Rightarrow> 'a heap res" where
  "vec_free p h = res_bind (load_vec p h) (\<lambda>(t, _, _). res_bind (free t h) (\<lambda>h1. free p h1))"

definition heap_vec_resize :: "nat \<Rightarrow> u64 \<Rightarrow> 'a heap \<Rightarrow> (int \<times> 'a heap) res" where
  "heap_vec_resize p cap h =
     res_bind (load_vec p h) (\<lambda>(t, l, c).
       if cap \<le> c then Inr (-1, h)
       else let (t', h1) = malloc (Table (replicate (unat cap) None)) h;
                h2 = store p (Vec_Struct t' l cap) h1 in
       res_bind (load_table t h2) (\<lambda>xs.
         if unat l \<le> length xs \<and> unat l \<le> unat cap
         then let h3 = store t' (Table (take (unat l) xs @ replicate (unat cap - unat l) None)) h2
              in res_bind (free t h3) (\<lambda>h4. Inr (0, h4))
         else Inl OutOfBounds))"

definition heap_vec_append :: "nat \<Rightarrow> 'a \<Rightarrow> 'a heap \<Rightarrow> 'a heap res" where
  "heap_vec_append p x h =
     res_bind (load_vec p h) (\<lambda>(t, l, c).
       let h1 = store p (Vec_Struct t (l + 1) c) h in
       res_bind (if c \<le> l + 1 then res_bind (heap_vec_resize p (push_bit 1 c) h1) (\<lambda>r. Inr (snd r)) else Inr h1) (\<lambda>h2.
         res_bind (load_vec p h2) (\<lambda>(t2, l2, c2).
           res_bind (load_table t2 h2) (\<lambda>xs.
             if unat (l2 - 1) < length xs then Inr (store t2 (Table (xs[unat (l2 - 1) := Some x])) h2)
             else Inl OutOfBounds))))"

section \<open>What a pointer stands for\<close>

text \<open>
  The pointer \<open>p\<close> owns the vector \<open>v\<close>, with its table at \<open>t\<close>; the other blocks are \<open>F\<close>. No block lies above
  the end of the heap.
\<close>

definition owns :: "(nat \<rightharpoonup> 'a block) \<Rightarrow> nat \<Rightarrow> nat \<Rightarrow> 'a vec \<Rightarrow> 'a heap \<Rightarrow> bool" where
  "owns F p t v h \<longleftrightarrow> blocks h p = Some (Vec_Struct t (len v) (capacity v)) \<and> blocks h t = Some (Table (tab v)) \<and> p \<noteq> t
     \<and> (blocks h)(p := None, t := None) = F"

definition heap_ok :: "'a heap \<Rightarrow> bool" where
  "heap_ok h \<longleftrightarrow> (\<forall>a. brk h \<le> a \<longrightarrow> blocks h a = None)"

lemma heap_ok_below: "heap_ok h \<Longrightarrow> blocks h a = Some b \<Longrightarrow> a < brk h"
  by (metis heap_ok_def not_le option.distinct(1))

lemma new_owns:
  assumes "heap_ok h"
  obtains p t h' where "heap_vec_new h = (p, h')" and "owns (blocks h) p t vec_new h'" and "heap_ok h'"
proof -
  let ?p = "brk h" and ?t = "Suc (brk h)"
  let ?h = "h\<lparr>blocks := (blocks h)(?t \<mapsto> Table [None], ?p \<mapsto> Vec_Struct ?t 0 1), brk := Suc ?t\<rparr>"
  have "heap_vec_new h = (?p, ?h)" by (simp add: heap_vec_new_def malloc_def store_def fun_upd_twist)
  moreover have n: "blocks h ?p = None" "blocks h ?t = None" using assms by (simp_all add: heap_ok_def)
  then have "owns (blocks h) ?p ?t vec_new ?h" by (auto simp: owns_def vec_new_def fun_eq_iff)
  moreover have "heap_ok ?h" using assms by (auto simp: heap_ok_def)
  ultimately show thesis by (rule that)
qed

lemma free_gives_back:
  assumes "owns F p t v h"
  obtains h' where "vec_free p h = Inr h'" and "blocks h' = F" and "brk h' = brk h"
proof -
  have "vec_free p h = Inr (h\<lparr>blocks := F\<rparr>)"
    using assms by (auto simp: owns_def vec_free_def load_vec_def free_def fun_upd_twist)
  then show thesis by (rule that) simp_all
qed

text \<open>Freeing the structure alone leaves the table.\<close>

lemma free_leaks:
  assumes "owns F p t v h"
  obtains h' where "free p h = Inr h'" and "blocks h' = F(t \<mapsto> Table (tab v))" and "F t = None"
proof -
  have F: "F = (blocks h)(p := None, t := None)" and b: "blocks h t = Some (Table (tab v))" "p \<noteq> t" "blocks h p \<noteq> None"
    using assms by (auto simp: owns_def)
  then have "(blocks h)(p := None) = F(t \<mapsto> Table (tab v))" "F t = None" by (auto simp: fun_eq_iff)
  with b(3) show thesis by (intro that [of "h\<lparr>blocks := (blocks h)(p := None)\<rparr>"]) (auto simp: free_def)
qed

lemma resize_owns:
  assumes "owns F p t v h" and "heap_ok h" and "vec_resize v cap = Inr (r, v')"
  obtains h' t' where "heap_vec_resize p cap h = Inr (r, h')" and "owns F p t' v' h'" and "heap_ok h'"
proof (cases "cap \<le> capacity v")
  case True
  with assms that show thesis by (auto simp: owns_def heap_vec_resize_def load_vec_def vec_resize_def)
next
  case False
  then have l: "unat (len v) \<le> length (tab v)" "unat (len v) \<le> unat cap" and r: "r = 0"
    and v': "v' = v\<lparr>capacity := cap, tab := take (unat (len v)) (tab v) @ replicate (unat cap - unat (len v)) None\<rparr>"
    using assms(3) by (auto simp: vec_resize_def split: if_splits)
  let ?n = "brk h"
  have b: "blocks h p = Some (Vec_Struct t (len v) (capacity v))" "blocks h t = Some (Table (tab v))" "p \<noteq> t"
    and F: "F = (blocks h)(p := None, t := None)"
    using assms(1) by (auto simp: owns_def)
  have n: "p \<noteq> ?n" "t \<noteq> ?n" "blocks h ?n = None"
    using heap_ok_below [OF assms(2) b(1)] heap_ok_below [OF assms(2) b(2)] assms(2) by (auto simp: heap_ok_def)
  let ?h = "h\<lparr>blocks := (blocks h)(?n \<mapsto> Table (tab v'), p \<mapsto> Vec_Struct ?n (len v) cap, t := None), brk := Suc ?n\<rparr>"
  have "heap_vec_resize p cap h = Inr (0, ?h)"
    using b n l False by (simp add: heap_vec_resize_def load_vec_def load_table_def malloc_def store_def free_def v' fun_upd_twist)
  moreover have "owns F p ?n v' ?h" using b n by (auto simp: owns_def F v' fun_eq_iff)
  moreover have "heap_ok ?h" using assms(2) n heap_ok_below [OF assms(2) b(1)] by (auto simp: heap_ok_def)
  ultimately show thesis using that r by blast
qed

lemma append_owns:
  assumes "owns F p t v h" and "heap_ok h" and "vec_append v x = Inr v'"
  obtains h' t' where "heap_vec_append p x h = Inr h'" and "owns F p t' v' h'" and "heap_ok h'"
proof -
  let ?v1 = "v\<lparr>len := len v + 1\<rparr>" and ?h1 = "store p (Vec_Struct t (len v + 1) (capacity v)) h"
  have o1: "owns F p t ?v1 ?h1" using assms(1) by (auto simp: owns_def store_def fun_eq_iff)
  have k1: "heap_ok ?h1" using assms(2) heap_ok_below [OF assms(2)] assms(1) by (fastforce simp: heap_ok_def owns_def store_def)
  have lv: "load_vec p h = Inr (t, len v, capacity v)" using assms(1) by (simp add: owns_def load_vec_def)
  obtain v2 h2 t2 where o2: "owns F p t2 v2 h2" "heap_ok h2" "vec_put v2 (unat (len v2 - 1)) x = Inr v'"
    and h2: "(if capacity v \<le> len v + 1 then res_bind (heap_vec_resize p (push_bit 1 (capacity v)) ?h1) (\<lambda>r. Inr (snd r)) else Inr ?h1) = Inr h2"
  proof (cases "capacity v \<le> len v + 1")
    case True
    then obtain r v2 where v2: "vec_resize ?v1 (push_bit 1 (capacity v)) = Inr (r, v2)" "vec_put v2 (unat (len v2 - 1)) x = Inr v'"
      using assms(3) by (auto simp: vec_append_def res_iff)
    obtain h2 t2 where "heap_vec_resize p (push_bit 1 (capacity v)) ?h1 = Inr (r, h2)" "owns F p t2 v2 h2" "heap_ok h2"
      by (rule resize_owns [OF o1 k1 v2(1)])
    with True v2(2) that show thesis by simp
  next
    case False
    with o1 k1 assms(3) that [of t ?v1 ?h1] show thesis by (simp add: vec_append_def)
  qed
  let ?h3 = "store t2 (Table (tab v')) h2"
  have i: "unat (len v2 - 1) < length (tab v2)" "v' = v2\<lparr>tab := (tab v2)[unat (len v2 - 1) := Some x]\<rparr>"
    using o2(3) by (auto simp: vec_put_def split: if_splits)
  have "heap_vec_append p x h = Inr ?h3"
    using o2(1) i h2 by (simp add: heap_vec_append_def lv) (simp add: owns_def load_vec_def load_table_def)
  moreover have "owns F p t2 v' ?h3" using o2(1) i(2) by (auto simp: owns_def store_def fun_eq_iff)
  moreover have "heap_ok ?h3" using o2(1,2) heap_ok_below [OF o2(2)] by (fastforce simp: heap_ok_def owns_def store_def)
  ultimately show thesis using that by blast
qed

lemma appends_own:
  assumes "owns F p t v h" and "heap_ok h" and "res_fold vec_append v xs = Inr v'"
  shows "\<exists>h' t'. res_fold (\<lambda>h x. heap_vec_append p x h) h xs = Inr h' \<and> owns F p t' v' h' \<and> heap_ok h'"
  using assms
proof (induction xs arbitrary: t v h)
  case (Cons x xs)
  obtain v1 where v1: "vec_append v x = Inr v1" "res_fold vec_append v1 xs = Inr v'"
    using Cons.prems(3) by (auto simp: res_iff)
  obtain h1 t1 where "heap_vec_append p x h = Inr h1" "owns F p t1 v1 h1" "heap_ok h1"
    by (rule append_owns [OF Cons.prems(1,2) v1(1)])
  with Cons.IH [OF _ _ v1(2)] show ?case by auto
qed auto

section \<open>Properties\<close>

text \<open>C29. The life of a vector in the heap: a vector that is created and filled by a loop of appends holds exactly those
  elements and faults nowhere; the other blocks of the heap are untouched, every outgrown table has
  been freed once, and \<open>vec_free\<close> gives back the last table and the structure, so that the heap is as
  it was. Freeing only the structure, as \<open>mini_kvm_parse_cpu_list\<close> does, leaves one block behind.\<close>

theorem vec_life_no_leak:
  assumes "heap_ok h" and "length xs \<le> vec_limit"
  shows "\<exists>p t h1 h2 v h3. heap_vec_new h = (p, h1) \<and> res_fold (\<lambda>h x. heap_vec_append p x h) h1 xs = Inr h2
    \<and> owns (blocks h) p t v h2 \<and> vec_list v = xs
    \<and> vec_free p h2 = Inr h3 \<and> blocks h3 = blocks h
    \<and> (\<exists>h4. free p h2 = Inr h4 \<and> dom (blocks h4) = insert t (dom (blocks h)) \<and> t \<notin> dom (blocks h))"
proof -
  obtain p t0 h1 where n: "heap_vec_new h = (p, h1)" "owns (blocks h) p t0 vec_new h1" "heap_ok h1"
    by (rule new_owns [OF assms(1)])
  obtain v where v: "res_fold vec_append vec_new xs = Inr v" "vec_list v = xs"
    using cvec.append_all_new [OF assms(2)] by blast
  obtain h2 t where a: "res_fold (\<lambda>h x. heap_vec_append p x h) h1 xs = Inr h2" "owns (blocks h) p t v h2"
    using appends_own [OF n(2,3) v(1)] by blast
  obtain h3 where f: "vec_free p h2 = Inr h3" "blocks h3 = blocks h" by (rule free_gives_back [OF a(2)])
  obtain h4 where l: "free p h2 = Inr h4" "blocks h4 = (blocks h)(t \<mapsto> Table (tab v))" "blocks h t = None"
    by (rule free_leaks [OF a(2)])
  show ?thesis
    using n(1) a v(2) f l
    by (intro exI [of _ p] exI [of _ t] exI [of _ h1] exI [of _ h2] exI [of _ v] exI [of _ h3]) auto
qed

theorem vec_life_no_leak_witness:
  "\<exists>p h1 h2 h3. heap_vec_new \<lparr>blocks = Map.empty, brk = 1\<rparr> = (p, h1)
     \<and> res_fold (\<lambda>h x. heap_vec_append p x h) h1 [3, 1, 4 :: u64] = Inr h2 \<and> vec_free p h2 = Inr h3 \<and> blocks h3 = Map.empty"
proof -
  have a: "heap_ok \<lparr>blocks = Map.empty, brk = 1\<rparr>" "length [3, 1, 4 :: u64] \<le> vec_limit"
    by (simp_all add: heap_ok_def vec_limit_def)
  show ?thesis using vec_life_no_leak [OF a] by auto
qed

end
