(* ===== verification/Unit_Tests.thy ===== *)
theory Unit_Tests imports Run_Args Ipc "HOL-Library.Sublist" begin

text \<open>
  The unit tests of the repository (\<open>tests/core/conversion.c\<close>, \<open>tests/run/args.c\<close> and the scenarios of
  \<open>tests/run/CMakeLists.txt\<close>) run on the model.
\<close>

section \<open>Conversions\<close>

definition is_uint_test :: "string \<Rightarrow> bool" where
  "is_uint_test str = mini_kvm_is_uint (Some str) (length str)"

definition to_uint_test :: "string \<Rightarrow> u64 \<Rightarrow> bool" where
  "to_uint_test str expected = (case mini_kvm_to_uint (Some str) (length str) 0 0 of
     Inr (ret, dest, _) \<Rightarrow> dest = expected \<and> ret = 0 | Inl _ \<Rightarrow> False)"

definition conversion_main :: int where
  "conversion_main =
     (if is_uint_test ''1'' \<and> is_uint_test ''2'' \<and> is_uint_test '''' \<and> is_uint_test ''123456789''
         \<and> \<not> is_uint_test ''/'' \<and> \<not> is_uint_test '':''
         \<and> to_uint_test ''1'' 1 \<and> to_uint_test ''2'' 2 \<and> to_uint_test ''123456789'' 123456789
      then 0 else 1)"

section \<open>Arguments of \<open>run\<close>\<close>

definition print_args :: "MiniKvmRunArgs \<Rightarrow> string" where
  "print_args args = ''log_enabled='' @ (if log_enabled args then ''1'' else ''0'') @ nl @ ''vcpu='' @ dec_string (unat (ra_vcpu args)) @ nl
     @ ''mem_size='' @ dec_string (unat (ra_mem_size args)) @ nl @ ''name='' @ c_str (ra_name args) @ nl"

definition args_main :: "env \<Rightarrow> string list \<Rightarrow> string res" where
  "args_main env argv = res_bind (run_parse_args env argv initial_logger fresh_world) (\<lambda>args. Inr (ra_out args @ print_args args))"

definition scenarios :: "(string \<times> string) list" where
  "scenarios = [(''-v1'', ''vcpu=1''), (''--vcpu=1'', ''vcpu=1''), (''-m4096'', ''mem_size=4096''), (''--mem=4096'', ''mem_size=4096''),
     (''-m4096K'', ''mem_size=4194304''), (''--mem=4096K'', ''mem_size=4194304''), (''-m4M'', ''mem_size=4194304''),
     (''--mem=4M'', ''mem_size=4194304''), (''-m4G'', ''mem_size=4294967296''), (''--mem=4G'', ''mem_size=4294967296''),
     (''-l'', ''log_enabled=1''), (''-ntest_vm'', ''name=test_vm''), (''--name=test_vm'', ''name=test_vm'')]"

definition passes :: "string \<times> string \<Rightarrow> bool" where
  "passes sc = (case args_main linux_ok [''run_args'', fst sc] of Inr out \<Rightarrow> sublist (snd sc) out | Inl _ \<Rightarrow> False)"

section \<open>Lemmas\<close>

lemma decimal_literals:
  "dec_string 1 = ''1''" "dec_string (Suc 0) = ''1''" "dec_string 4 = ''4''" "dec_string 4096 = ''4096''" "dec_string 4194304 = ''4194304''"
  "dec_string 4294967296 = ''4294967296''"
  by (simp_all add: dec_string_def base_string.simps digit_char_def char_of_def bit_0)

lemma scenario_events:
  "getopt_long ''l::v:d:m:n:k:h'' run_opts_def [''-v1''] = [(CHR ''v'', Some ''1'')]"
  "getopt_long ''l::v:d:m:n:k:h'' run_opts_def [''--vcpu=1''] = [(CHR ''v'', Some ''1'')]"
  "getopt_long ''l::v:d:m:n:k:h'' run_opts_def [''-m4096''] = [(CHR ''m'', Some ''4096'')]"
  "getopt_long ''l::v:d:m:n:k:h'' run_opts_def [''--mem=4096''] = [(CHR ''m'', Some ''4096'')]"
  "getopt_long ''l::v:d:m:n:k:h'' run_opts_def [''-m4096K''] = [(CHR ''m'', Some ''4096K'')]"
  "getopt_long ''l::v:d:m:n:k:h'' run_opts_def [''--mem=4096K''] = [(CHR ''m'', Some ''4096K'')]"
  "getopt_long ''l::v:d:m:n:k:h'' run_opts_def [''-m4M''] = [(CHR ''m'', Some ''4M'')]"
  "getopt_long ''l::v:d:m:n:k:h'' run_opts_def [''--mem=4M''] = [(CHR ''m'', Some ''4M'')]"
  "getopt_long ''l::v:d:m:n:k:h'' run_opts_def [''-m4G''] = [(CHR ''m'', Some ''4G'')]"
  "getopt_long ''l::v:d:m:n:k:h'' run_opts_def [''--mem=4G''] = [(CHR ''m'', Some ''4G'')]"
  "getopt_long ''l::v:d:m:n:k:h'' run_opts_def [''-l''] = [(CHR ''l'', None)]"
  "getopt_long ''l::v:d:m:n:k:h'' run_opts_def [''-ntest_vm''] = [(CHR ''n'', Some ''test_vm'')]"
  "getopt_long ''l::v:d:m:n:k:h'' run_opts_def [''--name=test_vm''] = [(CHR ''n'', Some ''test_vm'')]"
  by (simp_all add: getopt_long.simps run_opts_def_def long_opt_def long_match_def)

lemma args_main_mem:
  assumes "getopt_long ''l::v:d:m:n:k:h'' run_opts_def [a] = [(CHR ''m'', Some (dec_string n @ u))]"
    and "unit_scale_of u k" and "page_round (n * 2 ^ k) < 2 ^ 64"
  shows "passes (a, ''mem_size='' @ dec_string (page_round (n * 2 ^ k)))"
proof -
  have "errno_clear (errno (ra_world (zero_run_args initial_logger fresh_world)))"
    by (simp add: zero_run_args_def fresh_world_def errno_clear_def)
  note b = run_body_mem [OF this assms(2,3), of linux_ok]
  have "unat (word_of_nat (page_round (n * 2 ^ k)) :: u64) = page_round (n * 2 ^ k)" using assms(3) by (rule unat_of_nat_u64)
  then have "args_main linux_ok [''run_args'', a] = Inr ((''log_enabled=0'' @ nl @ ''vcpu='' @ dec_string 1 @ nl)
      @ (''mem_size='' @ dec_string (page_round (n * 2 ^ k))) @ (nl @ ''name=(null)'' @ nl))"
    using assms(1) b by (simp add: args_main_def run_parse_args_def print_args_def c_str_def zero_run_args_def run_args_failed_def)
  then show ?thesis by (simp only: passes_def fst_conv snd_conv sum.case sublist_appendI)
qed

lemma args_main_vcpu:
  assumes "getopt_long ''l::v:d:m:n:k:h'' run_opts_def [a] = [(CHR ''v'', Some (dec_string n))]" and "0 < n" and "n < 2 ^ 32"
  shows "passes (a, ''vcpu='' @ dec_string n)"
proof -
  have "errno_clear (errno (ra_world (zero_run_args initial_logger fresh_world)))"
    by (simp add: zero_run_args_def fresh_world_def errno_clear_def)
  note b = run_body_vcpu [OF this assms(3), of linux_ok]
  have u: "unat (word_of_nat n :: u32) = n" "(word_of_nat n :: u32) \<noteq> 0"
    using assms(2,3) by (simp_all add: unat_of_nat word_unat_eq_iff)
  have "args_main linux_ok [''run_args'', a] = Inr ((''log_enabled=0'' @ nl)
      @ (''vcpu='' @ dec_string n) @ (nl @ ''mem_size='' @ dec_string 0 @ nl @ ''name=(null)'' @ nl))"
    using assms(1) b u by (simp add: args_main_def run_parse_args_def print_args_def c_str_def zero_run_args_def run_args_failed_def)
  then show ?thesis by (simp only: passes_def fst_conv snd_conv sum.case sublist_appendI)
qed

lemma args_main_name:
  assumes "getopt_long ''l::v:d:m:n:k:h'' run_opts_def [a] = [(CHR ''n'', Some n)]"
  shows "passes (a, ''name='' @ n)"
proof -
  have "args_main linux_ok [''run_args'', a] = Inr ((''log_enabled=0'' @ nl @ ''vcpu='' @ dec_string 1 @ nl
      @ ''mem_size='' @ dec_string 0 @ nl) @ (''name='' @ n) @ nl)"
    using assms by (simp add: args_main_def run_parse_args_def run_arg_body_def print_args_def c_str_def zero_run_args_def run_args_failed_def)
  then show ?thesis by (simp only: passes_def fst_conv snd_conv sum.case sublist_appendI)
qed

lemma args_main_log: "passes (''-l'', ''log_enabled=1'')"
proof -
  have "args_main linux_ok [''run_args'', ''-l''] = Inr ([] @ ''log_enabled=1'' @ (nl @ ''vcpu='' @ dec_string 1 @ nl
      @ ''mem_size='' @ dec_string 0 @ nl @ ''name=(null)'' @ nl))"
    using scenario_events(11)
    by (simp add: args_main_def run_parse_args_def run_arg_body_def print_args_def c_str_def zero_run_args_def run_args_failed_def)
  then show ?thesis by (simp only: passes_def fst_conv snd_conv sum.case sublist_appendI)
qed

section \<open>Properties\<close>

text \<open>The unit tests of the repository hold in the model: the conversion test returns 0, and each of the thirteen
  scenarios of the argument test prints what its regular expression asks for.\<close>

theorem unit_tests_pass: "conversion_main = 0 \<and> list_all passes scenarios"
proof -
  have "is_uint_test ''1''" "is_uint_test ''2''" "is_uint_test ''''" "is_uint_test ''123456789''" "\<not> is_uint_test ''/''" "\<not> is_uint_test '':''"
    by (simp_all add: is_uint_test_def isdigit_def)
  moreover have "to_uint_test ''1'' 1" "to_uint_test ''2'' 2" "to_uint_test ''123456789'' 123456789"
    using to_uint_digits [of "''1''" "[]" 1 0] to_uint_digits [of "''2''" "[]" 1 0] to_uint_digits [of "''123456789''" "[]" "length ''123456789''" 0]
    by (simp_all add: to_uint_test_def isdigit_def errno_clear_def base_value_def char_digit_def)
  ultimately have c: "conversion_main = 0" by (simp add: conversion_main_def)
  have u: "unit_scale_of [] 0" "unit_scale_of ''K'' 10" "unit_scale_of ''M'' 20" "unit_scale_of ''G'' 30"
    by (simp_all add: unit_scale_of_def)
  note s = decimal_literals page_round_def scenario_events
  have v: "passes (''-v1'', ''vcpu=1'')" "passes (''--vcpu=1'', ''vcpu=1'')"
    using args_main_vcpu [of "''-v1''" 1] args_main_vcpu [of "''--vcpu=1''" 1] by (simp_all add: s)
  have m: "passes (''-m4096'', ''mem_size=4096'')"
    "passes (''--mem=4096'', ''mem_size=4096'')"
    "passes (''-m4096K'', ''mem_size=4194304'')"
    "passes (''--mem=4096K'', ''mem_size=4194304'')"
    "passes (''-m4M'', ''mem_size=4194304'')"
    "passes (''--mem=4M'', ''mem_size=4194304'')"
    "passes (''-m4G'', ''mem_size=4294967296'')"
    "passes (''--mem=4G'', ''mem_size=4294967296'')"
    using args_main_mem [of "''-m4096''" 4096 "[]" 0, OF _ u(1)]
      args_main_mem [of "''--mem=4096''" 4096 "[]" 0, OF _ u(1)]
      args_main_mem [of "''-m4096K''" 4096 "''K''" 10, OF _ u(2)]
      args_main_mem [of "''--mem=4096K''" 4096 "''K''" 10, OF _ u(2)]
      args_main_mem [of "''-m4M''" 4 "''M''" 20, OF _ u(3)]
      args_main_mem [of "''--mem=4M''" 4 "''M''" 20, OF _ u(3)]
      args_main_mem [of "''-m4G''" 4 "''G''" 30, OF _ u(4)]
      args_main_mem [of "''--mem=4G''" 4 "''G''" 30, OF _ u(4)]
    by (simp_all add: s)
  have n: "passes (''-l'', ''log_enabled=1'')" "passes (''-ntest_vm'', ''name=test_vm'')" "passes (''--name=test_vm'', ''name=test_vm'')"
    using args_main_log args_main_name [of "''-ntest_vm''" "''test_vm''"] args_main_name [of "''--name=test_vm''" "''test_vm''"] by (simp_all add: s)
  show ?thesis using c v m n by (simp add: scenarios_def)
qed

end
