(* ===== verification/Spec2Isabelle.thy ===== *)
theory Spec2Isabelle imports Status_Session Boot_Code Vcpu_Signals Vector_Heap Unit_Tests begin

text \<open>
  A verification development for \<open>mini_kvm\<close>, a small virtual machine monitor over Linux KVM. One
  executable is both the server (\<open>mini_kvm run\<close>, which owns a virtual machine) and its clients
  (\<open>mini_kvm pause\<close>, \<open>resume\<close>, \<open>shutdown\<close> and \<open>status\<close>, which talk to a server through a UNIX socket in
  \<open>/tmp/mini_kvm/NAME\<close>). File names below are relative to \<open>src/src\<close>.

  \<^bold>\<open>Parts of the program and their theories.\<close>

  \<^item> \<open>Prelude\<close>: the fault type (a C operation without a defined result: out of bounds, null
    pointer, bad shift, division by zero, uninitialised read, waiting forever), the result type
    \<open>'a res\<close> with its bind, loops over it, and lemmas on words, bytes and number texts.
  \<^item> \<open>Containers\<close> (\<open>core/containers.c\<close>): the growable vector the macros generate, refined to lists by
    the locale \<open>growable\<close> and its interpretation. \<open>Vector_Heap\<close>: the same vectors as blocks of the heap,
    with \<open>vec_free\<close>.
  \<^item> \<open>Errors\<close> (\<open>core/errors.h\<close>, \<open>core/constants.h\<close>): status codes and constants.
  \<^item> \<open>Clib\<close>, \<open>Getopt\<close>: what the sources use of the C library (\<open>strtoull\<close>, \<open>strncmp\<close>, \<open>getopt_long\<close>), and
    the option loop all subcommands share with its contract, the locale \<open>arg_parser\<close>.
  \<^item> \<open>Conversion\<close> (\<open>core/core.c\<close>): numbers, number lists and CPU lists.
  \<^item> \<open>Kvm_Data\<close> (\<open>kvm/kvm.h\<close>, \<open>commands/status.h\<close>): the structures of the machine and its messages.
  \<^item> \<open>Guest_Memory\<close> (\<open>kvm/kvm.c\<close>, \<open>commands/run.c\<close>): page tables and the kernel image, against the page
    walk of an x86-64 processor.
  \<^item> \<open>Dump\<close> (\<open>kvm/kvm.c\<close>): the text of memory dumps and registers.
  \<^item> \<open>Os\<close>: system calls. The kernel is a parameter \<open>env\<close>: a function from all calls made before and
    the present call to its answer. The world of a process is \<open>errno\<close> and the calls made so far.
  \<^item> \<open>Kvm_Setup\<close> (\<open>kvm/kvm.c\<close>): creating the machine, its CPUs, long mode, and releasing them.
  \<^item> \<open>Ipc\<close> (\<open>ipc/ipc.c\<close>, \<open>core/core.c\<close>): sockets, and looking up a machine by its pid file.
  \<^item> \<open>Commands\<close> (\<open>commands/pause.c\<close>, \<open>resume.c\<close>, \<open>shutdown.c\<close>) and \<open>Status_Client\<close> (\<open>commands/status.c\<close>): the
    clients.
  \<^item> \<open>Control\<close> (\<open>commands/status.c\<close>, \<open>kvm/kvm.c\<close>): the server's handlers, signals and thread creation.
  \<^item> \<open>Logger\<close> (\<open>core/logger.c\<close>).
  \<^item> \<open>Filesystem\<close> (\<open>core/filesystem.c\<close>): removing a directory with all it holds, over the walk of \<open>nftw\<close>.
  \<^item> \<open>Run_Args\<close>, \<open>Run\<close> (\<open>commands/run.c\<close>): the server from its arguments through booting, the signal
    handlers and the main loop to the clean-up.
  \<^item> \<open>Vcpu_Threads\<close> (\<open>kvm/kvm.c\<close>, \<open>commands/status.c\<close>): the CPU threads and the main thread as an
    interleaving transition system over the shared \<open>state\<close>, \<open>paused\<close> and \<open>pause_lock\<close>.
  \<^item> \<open>Main_Program\<close> (\<open>main.c\<close>): dispatch.
  \<^item> \<open>Client_Server\<close>: clients and server together. What a client relies on is the locale
    \<open>machine_server\<close>, which \<open>mini_kvm_status_handle_command\<close> is shown to satisfy.
  \<^item> \<open>Server_Loop\<close>: the loops of \<open>run_main_loop\<close> serve what clients send; a round of the inner loop
    satisfies \<open>machine_server\<close> again. \<open>Status_Session\<close>: a memory dump and the registers, from the client's
    arguments to the text that is written.
  \<^item> \<open>Vcpu_Signals\<close> (\<open>kvm/kvm.c\<close>): a layer above \<open>Vcpu_Threads\<close> with the signals that take a CPU out of the
    guest; each of its runs is a run of \<open>Vcpu_Threads\<close>.
  \<^item> \<open>Machine_Run\<close>: the handlers as schedules of the threads, and the exits of a guest on one CPU.
  \<^item> \<open>Boot_Code\<close> (\<open>bios/boot.s\<close>, \<open>bios/bios.ld\<close>, beside \<open>src\<close>): the instructions of the boot code, laid out in
    memory and executed on the registers and the page tables that \<open>mini_kvm run\<close> sets up.
  \<^item> \<open>Unit_Tests\<close>: the tests of the repository, run on the model.

  \<^bold>\<open>Correspondence.\<close> A structure is a record whose fields carry the source's names (with a prefix where
  they would clash), an enumeration is a datatype with the source's constructors, a \<open>uintN_t\<close> is a
  word of \<open>N\<close> bits. A function of the source is one definition of the same name; a loop of it is a
  definition of its own where it needs an induction. Every early return and \<open>goto\<close> is a branch.
  State passing is explicit: the machine (\<open>Kvm\<close>) and the world come in and go out. A fault is a value
  \<open>Inl\<close>, so that theorems about results also say that no fault occurs. Loops that end for a reason
  the program controls are total functions (structural, or with a measure); \<open>serve_client\<close> and
  \<open>main_loop\<close>, which may run forever, are \<open>partial_function (option)\<close>, and what is claimed of their
  end is proved as such. The only fuel is the number of instructions of \<open>guest_run\<close>: 85 are enough for the
  boot code (seven before its loop, six for each of the twelve bytes, three for the zero byte, three after).

  \<^bold>\<open>What is proved.\<close> Parsing: the number-list parser is equivalent to a grammar and inverts printing;
  sizes are rounded to pages; refused options stop a command before any call. Memory: the page tables
  are an identity mapping for the processor's own walk, before and after the kernel is loaded. Dump:
  the text is exactly that of the specified range. Setup and clean-up: the calls made, the CPUs added
  and everything released. Booting: the whole sequence of \<open>mini_kvm run\<close> up to the main loop. Server:
  the handlers refine a three-state machine and, as long as no CPU thread moves, keep flag and lock
  consistent; the main loop of \<open>mini_kvm run\<close> ends on a signal and when the guest halts, after which it removes its
  directory and makes the calls of \<open>mini_kvm_clean_kvm\<close>, if the CPU threads return, and never ends if one of
  them does not. Clients: what they send and when. Both together, as long as no CPU thread moves: every sequence of
  client commands run one after the other takes the machine through the states of the specification, prints them,
  and does not make the server fault or hang; the invariant this rests on is established by booting and kept by
  every command. The same with the two loops of the server in place of single commands, until the machine
  is shut down; and a memory dump and the registers end to end. Threads: pausing and shutting down take effect within a
  bounded number of steps while the state stays what it is, the flag agrees with the state in every reachable
  state, no CPU runs the guest before the machine is started, and the handlers without interference are the
  schedules of the main thread alone, command by command; a pause interrupts every CPU that is inside the guest;
  and the runs in which a thread, the guest or the main loop is lost: a pause after a pause and a resume, a pause
  that finds the lock taken, a resume or a signal that falls between a test and the wait or the guest it guards, a
  shutdown or SIGINT with CPUs that wait, and a halt beside a CPU inside the guest. Guest: the first byte of each of
  its outputs is printed in order; the boot code, instruction
  by instruction, prints its message where the memory is at most 2 MB, and faults at its first \<open>call\<close> where it
  is larger, because the stack is then outside the mapped memory. Vectors: no block is leaked or used after it is freed.

  \<^bold>\<open>Parameters and assumptions.\<close> \<open>env\<close> (the system), \<open>cpuid\<close> (the instruction), \<open>stops\<close> and \<open>deliver\<close> (when a CPU
  thread ends the machine and when which signal is delivered, as functions of the calls made so far) are
  arguments, with hypotheses only where a theorem needs them. Allocations succeed, a socket message
  arrives whole, condition variables have no spurious wake-ups. In \<open>Control\<close>, \<open>Client_Server\<close>, \<open>Server_Loop\<close>,
  \<open>Status_Session\<close> and \<open>Run\<close> the handlers run without interference: no CPU thread takes or gives back \<open>pause_lock\<close>,
  and none changes the state except where \<open>stops\<close> says so. A theorem of these theories that a command returns, or
  does not, is about the schedules of the main thread alone; \<open>Vcpu_Threads\<close> is about the others. Joining a thread
  may never return: \<open>env\<close> says whether it does. In \<open>Run\<close> the signals sent to the CPU threads do not end the process;
  \<open>Vcpu_Signals\<close> shows when they do.

  \<^bold>\<open>Not modelled.\<close> Log lines, except in \<open>Logger\<close>, and messages on the error output; the sleep of the main
  loop; \<open>free\<close>, except of vectors; the encoding of the instructions of the boot code, which the assembler
  chooses (a parameter with the bounds of the architecture on its lengths); whether KVM reports a halt,
  which depends on the interrupt controller in the kernel (a parameter of \<open>guest_run\<close>); CPUs other than the
  first, which start in real mode; the tests that only look for a log message.
\<close>

end
